(* ===== verification/Base.thy ===== *)
theory Base
  imports Main "HOL-Library.Multiset"
begin

text \<open>
  The prelude: the names of the model's basic types, the integer conversions of Go that the
  components use, and the lemmas on lists that the component proofs share.

  Go's \<^verbatim>\<open>time.Time\<close> is an \<open>int\<close> (nanoseconds after the zero time), so
  \<^verbatim>\<open>t.IsZero()\<close> is \<open>t = 0\<close>, \<^verbatim>\<open>a.Before(b)\<close> is \<open>a < b\<close> and
  \<^verbatim>\<open>a.Sub(b)\<close> is \<open>a - b\<close>. A reading of the clock is an argument of the operation that
  makes it. Go's \<^verbatim>\<open>int\<close> and \<^verbatim>\<open>int64\<close> are \<open>int\<close> where the code keeps them far
  from their bounds; \<^verbatim>\<open>int32(n)\<close> conversions wrap and are written out.
\<close>

type_synonym time = int
type_synonym duration = int

abbreviation second :: duration where
  "second \<equiv> 1000000000"

abbreviation minute :: duration where
  "minute \<equiv> 60 * second"

named_theorems row_simps \<open>equations of the VM table and the store operations\<close>
named_theorems state_simps \<open>equations of the state predicates\<close>
named_theorems handler_defs \<open>definitions of the pool manager's handlers\<close>

section \<open>Integer conversions\<close>

definition to_int32 :: "int \<Rightarrow> int" where
  "to_int32 n = (n + 2147483648) mod 4294967296 - 2147483648"

lemma to_int32_id: "- 2147483648 \<le> n \<Longrightarrow> n < 2147483648 \<Longrightarrow> to_int32 n = n"
  by (simp add: to_int32_def)

lemma to_int32_range: "- 2147483648 \<le> to_int32 n \<and> to_int32 n < 2147483648"
  using pos_mod_bound [of 4294967296 "n + 2147483648"]
    pos_mod_sign [of 4294967296 "n + 2147483648"]
  by (simp add: to_int32_def)

section \<open>Lists\<close>

lemma find_filter: "find P xs = (case filter P xs of [] \<Rightarrow> None | x # _ \<Rightarrow> Some x)"
  by (induction xs) auto

lemma find_SomeD: "find P xs = Some x \<Longrightarrow> x \<in> set xs \<and> P x"
  by (induction xs) (auto split: if_splits)

lemma find_None: "find P xs = None \<longleftrightarrow> (\<forall>x \<in> set xs. \<not> P x)"
  by (induction xs) auto

lemma length_filter_disj:
  "(\<And>x. x \<in> set xs \<Longrightarrow> \<not> (P x \<and> Q x)) \<Longrightarrow>
    length (filter (\<lambda>x. P x \<or> Q x) xs) = length (filter P xs) + length (filter Q xs)"
  by (induction xs) auto

lemma length_filter_mono:
  "(\<And>x. x \<in> set xs \<Longrightarrow> P x \<Longrightarrow> Q x) \<Longrightarrow> length (filter P xs) \<le> length (filter Q xs)"
  by (induction xs) auto

lemma mset_eq_length_filter: "mset xs = mset ys \<Longrightarrow> length (filter P xs) = length (filter P ys)"
  by (metis mset_filter size_mset)

lemma sum_list_map_replace:
  fixes f :: "'a \<Rightarrow> int"
  assumes "i < length xs"
  shows "sum_list (map f (xs[i := y])) = sum_list (map f xs) - f (xs ! i) + f y"
  using assms
proof (induction xs arbitrary: i)
  case Nil
  then show ?case by simp
next
  case (Cons x xs)
  then show ?case by (cases i) auto
qed

text \<open>
  The selection loop the routing code uses: keep the first acceptable element and replace it only
  by a strictly better one.
\<close>

fun scan_best :: "('a \<Rightarrow> bool) \<Rightarrow> ('a \<Rightarrow> 'a \<Rightarrow> bool) \<Rightarrow> 'a option \<Rightarrow> 'a list \<Rightarrow> 'a option" where
  "scan_best ok better best [] = best"
| "scan_best ok better best (x # xs) =
     (if \<not> ok x then scan_best ok better best xs
      else case best of
             None \<Rightarrow> scan_best ok better (Some x) xs
           | Some b \<Rightarrow> scan_best ok better (if better x b then Some x else best) xs)"

lemma scan_best_None:
  "scan_best ok better best xs = None \<longleftrightarrow> best = None \<and> (\<forall>x \<in> set xs. \<not> ok x)"
  by (induction xs arbitrary: best) (auto split: option.split)

text \<open>With a better-than relation given by a key, the loop returns the first acceptable element of least key.\<close>

lemma scan_best_first:
  fixes key :: "'a \<Rightarrow> 'k::linorder"
  assumes "\<And>x y. better x y \<longleftrightarrow> key x < key y" and "scan_best ok better best xs = Some r"
  shows "(best = Some r \<and> (\<forall>x \<in> set xs. ok x \<longrightarrow> key r \<le> key x)) \<or>
    (\<exists>pre post. xs = pre @ r # post \<and> ok r \<and> (\<forall>b. best = Some b \<longrightarrow> key r < key b) \<and>
      (\<forall>x \<in> set pre. ok x \<longrightarrow> key r < key x) \<and> (\<forall>x \<in> set post. ok x \<longrightarrow> key r \<le> key x))"
proof -
  have b: "better = (\<lambda>x y. key x < key y)" using assms(1) by blast
  show ?thesis
    using assms(2) unfolding b
  proof (induction xs arbitrary: best)
    case Nil
    then show ?case by simp
  next
    case (Cons x xs)
    show ?case
    proof (cases "ok x \<and> (\<forall>b. best = Some b \<longrightarrow> key x < key b)")
      case True
      with Cons.prems have "scan_best ok (\<lambda>x y. key x < key y) (Some x) xs = Some r"
        by (auto split: option.splits)
      from Cons.IH [OF this] show ?thesis
      proof
        assume a: "Some x = Some r \<and> (\<forall>y \<in> set xs. ok y \<longrightarrow> key r \<le> key y)"
        with True show ?thesis by (intro disjI2 exI [of _ "[]"] exI [of _ xs]) auto
      next
        assume "\<exists>pre post. xs = pre @ r # post \<and> ok r \<and> (\<forall>b. Some x = Some b \<longrightarrow> key r < key b) \<and>
          (\<forall>y \<in> set pre. ok y \<longrightarrow> key r < key y) \<and> (\<forall>y \<in> set post. ok y \<longrightarrow> key r \<le> key y)"
        then obtain pre post where "xs = pre @ r # post" "ok r" "key r < key x"
          "\<forall>y \<in> set pre. ok y \<longrightarrow> key r < key y" "\<forall>y \<in> set post. ok y \<longrightarrow> key r \<le> key y" by blast
        with True show ?thesis by (intro disjI2 exI [of _ "x # pre"] exI [of _ post]) auto
      qed
    next
      case False
      with Cons.prems have skip: "scan_best ok (\<lambda>x y. key x < key y) best xs = Some r"
        and worse: "ok x \<Longrightarrow> \<exists>b. best = Some b \<and> key b \<le> key x"
        by (auto simp: not_less split: if_splits option.splits)
      from Cons.IH [OF skip] show ?thesis
      proof
        assume "best = Some r \<and> (\<forall>y \<in> set xs. ok y \<longrightarrow> key r \<le> key y)"
        with worse show ?thesis by auto
      next
        assume "\<exists>pre post. xs = pre @ r # post \<and> ok r \<and> (\<forall>b. best = Some b \<longrightarrow> key r < key b) \<and>
          (\<forall>y \<in> set pre. ok y \<longrightarrow> key r < key y) \<and> (\<forall>y \<in> set post. ok y \<longrightarrow> key r \<le> key y)"
        then obtain pre post where "xs = pre @ r # post" "ok r" "\<forall>b. best = Some b \<longrightarrow> key r < key b"
          "\<forall>y \<in> set pre. ok y \<longrightarrow> key r < key y" "\<forall>y \<in> set post. ok y \<longrightarrow> key r \<le> key y" by blast
        with worse show ?thesis by (intro disjI2 exI [of _ "x # pre"] exI [of _ post]) fastforce
      qed
    qed
  qed
qed

lemma scan_best_least:
  fixes key :: "'a \<Rightarrow> 'k::linorder"
  assumes "\<And>x y. better x y \<longleftrightarrow> key x < key y" and "scan_best ok better None xs = Some r"
  obtains pre post where "xs = pre @ r # post" and "ok r"
    and "\<And>x. x \<in> set pre \<Longrightarrow> ok x \<Longrightarrow> key r < key x" and "\<And>x. x \<in> set post \<Longrightarrow> ok x \<Longrightarrow> key r \<le> key x"
  using scan_best_first [OF assms] by auto

lemma find_append: "find P (xs @ ys) = (case find P xs of None \<Rightarrow> find P ys | Some x \<Rightarrow> Some x)"
  by (induction xs) auto

section \<open>Results\<close>

text \<open>A fallible Go call \<^verbatim>\<open>(v, err)\<close> is a value of the sum type: \<open>Inl\<close> the error.\<close>

definition is_ok :: "'e + 'a \<Rightarrow> bool" where
  "is_ok r = (case r of Inl _ \<Rightarrow> False | Inr _ \<Rightarrow> True)"

lemma is_ok_simps [simp]: "is_ok (Inr x)" "\<not> is_ok (Inl e)"
  by (simp_all add: is_ok_def)

lemma is_ok_iff: "is_ok r \<longleftrightarrow> (\<exists>x. r = Inr x)"
  by (cases r) auto

end
