(* ===== verification/Store.thy ===== *)
theory Store
  imports Base
begin

text \<open>
  The in-memory state layer (\<^verbatim>\<open>internal/store\<close>): the VM row, the table of rows and every
  operation of \<^verbatim>\<open>Store\<close>.

  The table is the list of the rows that go-memdb holds; its unique primary index on VMID is the
  invariant \<open>wf_table\<close>. A write transaction is one atomic step, so a write operation is a
  function of the table that returns the new table, and an operation that aborts returns an error
  and no table. go-memdb's iteration order is not in this repository: it is the parameter
  \<open>ord\<close>, a function that lists the rows of an index bucket in memdb's order, and what the code
  relies on is that every row of the bucket is listed once (\<open>row_order\<close>).
\<close>

section \<open>Rows (schema.go)\<close>

datatype State =
    StateProvisioning | StateWarm | StateBooting | StateHot | StateAssigned | StateRunning
  | StateRecycling | StateDraining | StateDestroying | StatePoison

datatype PoolKind = PoolKindHot | PoolKindWarm

definition AllStates :: "State list" where
  "AllStates = [StateProvisioning, StateWarm, StateBooting, StateHot, StateAssigned,
     StateRunning, StateRecycling, StateDraining, StateDestroying, StatePoison]"

text \<open>The string value of a \<^verbatim>\<open>State\<close> constant.\<close>

fun state_string :: "State \<Rightarrow> string" where
  "state_string StateProvisioning = ''provisioning''"
| "state_string StateWarm = ''warm''"
| "state_string StateBooting = ''booting''"
| "state_string StateHot = ''hot''"
| "state_string StateAssigned = ''assigned''"
| "state_string StateRunning = ''running''"
| "state_string StateRecycling = ''recycling''"
| "state_string StateDraining = ''draining''"
| "state_string StateDestroying = ''destroying''"
| "state_string StatePoison = ''poison''"

record VM =
  VMID :: int
  Node :: string
  Name :: string
  Profile :: string
  Org :: string
  Repo :: string
  PriorityClass :: string
  Template :: string
  PoolKindOf :: PoolKind
  StateOf :: State
  JobID :: int
  RunnerID :: int
  BootAttempts :: int
  RecycleCount :: int
  HasRecycleSnapshot :: bool
  CreatedAt :: time
  UpdatedAt :: time
  StateSince :: time

type_synonym table = "VM list"

text \<open>
  \<^verbatim>\<open>schema()\<close>: an index whose \<^verbatim>\<open>AllowMissing\<close> is unset refuses a row with an empty
  value for it. State and pool kind are never empty in the model, so the profile remains.
\<close>

definition indexable :: "VM \<Rightarrow> bool" where
  "indexable v = (Profile v \<noteq> '''')"

section \<open>The table\<close>

definition txn_first :: "table \<Rightarrow> int \<Rightarrow> VM option" where
  "txn_first T vmid = find (\<lambda>v. VMID v = vmid) T"

fun put :: "table \<Rightarrow> VM \<Rightarrow> table" where
  "put [] v = [v]"
| "put (r # T) v = (if VMID r = VMID v then v # T else r # put T v)"

definition txn_insert :: "table \<Rightarrow> VM \<Rightarrow> table option" where
  "txn_insert T v = (if indexable v then Some (put T v) else None)"

definition txn_delete :: "table \<Rightarrow> int \<Rightarrow> table" where
  "txn_delete T vmid = filter (\<lambda>v. VMID v \<noteq> vmid) T"

text \<open>\<^verbatim>\<open>txn.Get(tableVM, index, args...)\<close> drained: the rows of one index bucket.\<close>

definition bucket :: "(VM list \<Rightarrow> VM list) \<Rightarrow> (VM \<Rightarrow> bool) \<Rightarrow> table \<Rightarrow> VM list" where
  "bucket ord P T = ord (filter P T)"

section \<open>Reads (store.go)\<close>

datatype store_error =
    ErrNotFound | ErrAtCapacity | ErrNoneAvailable | ErrImmutableFieldChanged
  | ErrVMIDNotPositive | ErrVMIDExists | ErrMissingIndexValue

definition Get :: "table \<Rightarrow> int \<Rightarrow> store_error + VM" where
  "Get T vmid = (case txn_first T vmid of None \<Rightarrow> Inl ErrNotFound | Some v \<Rightarrow> Inr v)"

definition List :: "(VM list \<Rightarrow> VM list) \<Rightarrow> table \<Rightarrow> VM list" where
  "List ord T = bucket ord (\<lambda>_. True) T"

definition ListByState :: "(VM list \<Rightarrow> VM list) \<Rightarrow> table \<Rightarrow> State list \<Rightarrow> VM list" where
  "ListByState ord T states = concat (map (\<lambda>st. bucket ord (\<lambda>v. StateOf v = st) T) states)"

definition ListExcludingStates :: "(VM list \<Rightarrow> VM list) \<Rightarrow> table \<Rightarrow> State list \<Rightarrow> VM list" where
  "ListExcludingStates ord T excluded =
     filter (\<lambda>v. StateOf v \<notin> set excluded) (List ord T)"

definition Count :: "(VM list \<Rightarrow> VM list) \<Rightarrow> table \<Rightarrow> State \<Rightarrow> int" where
  "Count ord T st = int (length (bucket ord (\<lambda>v. StateOf v = st) T))"

definition CountByPoolKindState :: "(VM list \<Rightarrow> VM list) \<Rightarrow> table \<Rightarrow> PoolKind \<Rightarrow> State \<Rightarrow> int" where
  "CountByPoolKindState ord T kind st =
     int (length (bucket ord (\<lambda>v. PoolKindOf v = kind \<and> StateOf v = st) T))"

definition ListByProfile :: "(VM list \<Rightarrow> VM list) \<Rightarrow> table \<Rightarrow> string \<Rightarrow> VM list" where
  "ListByProfile ord T profile = bucket ord (\<lambda>v. Profile v = profile) T"

definition CountByProfileState :: "(VM list \<Rightarrow> VM list) \<Rightarrow> table \<Rightarrow> string \<Rightarrow> State \<Rightarrow> int" where
  "CountByProfileState ord T profile st =
     int (length (bucket ord (\<lambda>v. Profile v = profile \<and> StateOf v = st) T))"

definition StatsByProfile :: "(VM list \<Rightarrow> VM list) \<Rightarrow> table \<Rightarrow> string \<Rightarrow> State \<rightharpoonup> int" where
  "StatsByProfile ord T profile =
     map_of (map (\<lambda>st. (st, int (length (bucket ord (\<lambda>v. Profile v = profile \<and> StateOf v = st) T)))) AllStates)"

definition CountByOrg :: "(VM list \<Rightarrow> VM list) \<Rightarrow> table \<Rightarrow> string \<Rightarrow> int" where
  "CountByOrg ord T org =
     (if org = '''' then 0 else int (length (bucket ord (\<lambda>v. Org v = org) T)))"

definition CountByRepo :: "(VM list \<Rightarrow> VM list) \<Rightarrow> table \<Rightarrow> string \<Rightarrow> int" where
  "CountByRepo ord T repo =
     (if repo = '''' then 0 else int (length (bucket ord (\<lambda>v. Repo v = repo) T)))"

definition ListByPriorityClass :: "(VM list \<Rightarrow> VM list) \<Rightarrow> table \<Rightarrow> string \<Rightarrow> VM list" where
  "ListByPriorityClass ord T class =
     (if class = '''' then [] else bucket ord (\<lambda>v. PriorityClass v = class) T)"

definition ListByProfileAndStates :: "(VM list \<Rightarrow> VM list) \<Rightarrow> table \<Rightarrow> string \<Rightarrow> State list \<Rightarrow> VM list" where
  "ListByProfileAndStates ord T profile states =
     concat (map (\<lambda>st. bucket ord (\<lambda>v. Profile v = profile \<and> StateOf v = st) T) states)"

definition Stats :: "(VM list \<Rightarrow> VM list) \<Rightarrow> table \<Rightarrow> State \<rightharpoonup> int" where
  "Stats ord T = map_of (map (\<lambda>st. (st, int (length (bucket ord (\<lambda>v. StateOf v = st) T)))) AllStates)"

definition UsedVMIDs :: "(VM list \<Rightarrow> VM list) \<Rightarrow> table \<Rightarrow> int \<Rightarrow> int \<Rightarrow> int set" where
  "UsedVMIDs ord T minID maxID =
     set (map VMID (filter (\<lambda>v. minID \<le> VMID v \<and> VMID v \<le> maxID) (List ord T)))"

section \<open>Writes (store.go)\<close>

definition DefaultProfileName :: string where
  "DefaultProfileName = ''default''"

definition stamp_new :: "time \<Rightarrow> VM \<Rightarrow> VM" where
  "stamp_new now v = v\<lparr>
     CreatedAt := (if CreatedAt v = 0 then now else CreatedAt v),
     UpdatedAt := (if UpdatedAt v = 0 then now else UpdatedAt v),
     StateSince := (if StateSince v = 0 then now else StateSince v),
     Profile := (if Profile v = '''' then DefaultProfileName else Profile v)\<rparr>"

definition Insert :: "table \<Rightarrow> time \<Rightarrow> VM \<Rightarrow> store_error + table" where
  "Insert T now v =
     (if VMID v \<le> 0 then Inl ErrVMIDNotPositive
      else if txn_first T (VMID v) \<noteq> None then Inl ErrVMIDExists
      else case txn_insert T (stamp_new now v) of
             None \<Rightarrow> Inl ErrMissingIndexValue
           | Some T' \<Rightarrow> Inr T')"

definition Delete :: "table \<Rightarrow> int \<Rightarrow> table" where
  "Delete T vmid = (case txn_first T vmid of None \<Rightarrow> T | Some v \<Rightarrow> txn_delete T (VMID v))"

definition DeleteAndReturn :: "table \<Rightarrow> int \<Rightarrow> VM option \<times> table" where
  "DeleteAndReturn T vmid =
     (case txn_first T vmid of None \<Rightarrow> (None, T) | Some v \<Rightarrow> (Some v, txn_delete T (VMID v)))"

definition enforceImmutable :: "VM \<Rightarrow> VM \<Rightarrow> store_error option" where
  "enforceImmutable before after =
     (if VMID before \<noteq> VMID after then Some ErrImmutableFieldChanged
      else if Profile before \<noteq> Profile after then Some ErrImmutableFieldChanged
      else if CreatedAt before \<noteq> CreatedAt after then Some ErrImmutableFieldChanged
      else None)"

definition updateInTxn :: "table \<Rightarrow> time \<Rightarrow> int \<Rightarrow> (VM \<Rightarrow> VM) \<Rightarrow> store_error + (VM \<times> table)" where
  "updateInTxn T now vmid mutate =
     (case txn_first T vmid of
        None \<Rightarrow> Inl ErrNotFound
      | Some before \<Rightarrow>
          (let cur = mutate before in
           case enforceImmutable before cur of
             Some e \<Rightarrow> Inl e
           | None \<Rightarrow>
               (let cur' = cur\<lparr>UpdatedAt := now\<rparr> in
                case txn_insert T cur' of
                  None \<Rightarrow> Inl ErrMissingIndexValue
                | Some T' \<Rightarrow> Inr (cur', T'))))"

definition Update :: "table \<Rightarrow> time \<Rightarrow> int \<Rightarrow> (VM \<Rightarrow> VM) \<Rightarrow> store_error + (VM \<times> table)" where
  "Update T now vmid mutate =
     (case updateInTxn T now vmid mutate of
        Inl e \<Rightarrow> Inl e
      | Inr (row, T') \<Rightarrow> Inr (row, T'))"

text \<open>
  \<^verbatim>\<open>UpdateStateIn\<close>; \<^verbatim>\<open>UpdateState\<close> is the same code with a single expected state. The
  boolean is the second component's presence: \<open>Inr None\<close> is \<^verbatim>\<open>(false, nil)\<close> and
  \<open>Inr (Some T')\<close> is \<^verbatim>\<open>(true, nil)\<close> with the committed table.
\<close>

definition UpdateStateIn ::
  "table \<Rightarrow> time \<Rightarrow> int \<Rightarrow> State list \<Rightarrow> State \<Rightarrow> (VM \<Rightarrow> VM) \<Rightarrow> store_error + table option" where
  "UpdateStateIn T now vmid from_states to_state mutate =
     (case txn_first T vmid of
        None \<Rightarrow> Inr None
      | Some cur \<Rightarrow>
          if StateOf cur \<notin> set from_states then Inr None
          else
            (let cp = mutate (cur\<lparr>StateOf := to_state, StateSince := now, UpdatedAt := now\<rparr>) in
             case enforceImmutable cur cp of
               Some e \<Rightarrow> Inl e
             | None \<Rightarrow>
                 (case txn_insert T cp of
                    None \<Rightarrow> Inl ErrMissingIndexValue
                  | Some T' \<Rightarrow> Inr (Some T'))))"

definition UpdateState ::
  "table \<Rightarrow> time \<Rightarrow> int \<Rightarrow> State \<Rightarrow> State \<Rightarrow> (VM \<Rightarrow> VM) \<Rightarrow> store_error + table option" where
  "UpdateState T now vmid from_state to_state mutate =
     (case txn_first T vmid of
        None \<Rightarrow> Inr None
      | Some cur \<Rightarrow>
          if StateOf cur \<noteq> from_state then Inr None
          else
            (let cp = mutate (cur\<lparr>StateOf := to_state, StateSince := now, UpdatedAt := now\<rparr>) in
             case enforceImmutable cur cp of
               Some e \<Rightarrow> Inl e
             | None \<Rightarrow>
                 (case txn_insert T cp of
                    None \<Rightarrow> Inl ErrMissingIndexValue
                  | Some T' \<Rightarrow> Inr (Some T'))))"

definition countBusy :: "(VM list \<Rightarrow> VM list) \<Rightarrow> table \<Rightarrow> string \<Rightarrow> int" where
  "countBusy ord T profile =
     sum_list (map (\<lambda>st. int (length (bucket ord
        (\<lambda>v. (profile \<noteq> '''' \<longrightarrow> Profile v = profile) \<and> StateOf v = st) T)))
        [StateAssigned, StateRunning])"

fun oldest_row :: "VM option \<Rightarrow> VM list \<Rightarrow> VM option" where
  "oldest_row oldest [] = oldest"
| "oldest_row oldest (cand # rest) =
     oldest_row (case oldest of
                   None \<Rightarrow> Some cand
                 | Some o' \<Rightarrow> if CreatedAt cand < CreatedAt o' then Some cand else oldest) rest"

definition AcquireHotInProfile ::
  "(VM list \<Rightarrow> VM list) \<Rightarrow> table \<Rightarrow> time \<Rightarrow> string \<Rightarrow> int \<Rightarrow> int \<Rightarrow> int \<Rightarrow> store_error + (VM \<times> table)" where
  "AcquireHotInProfile ord T now profile jobID maxConcurrent maxBusy =
     (let globalBusy = countBusy ord T '''' in
      if globalBusy \<ge> maxConcurrent then Inl ErrAtCapacity
      else if maxBusy > 0 \<and>
              (if profile \<noteq> '''' then countBusy ord T profile else globalBusy) \<ge> maxBusy
      then Inl ErrAtCapacity
      else
        case oldest_row None
               (bucket ord (\<lambda>v. (profile \<noteq> '''' \<longrightarrow> Profile v = profile) \<and> StateOf v = StateHot) T) of
          None \<Rightarrow> Inl ErrNoneAvailable
        | Some oldest \<Rightarrow>
            (let cp = oldest\<lparr>StateOf := StateAssigned, JobID := jobID, StateSince := now, UpdatedAt := now\<rparr> in
             case txn_insert T cp of
               None \<Rightarrow> Inl ErrMissingIndexValue
             | Some T' \<Rightarrow> Inr (cp, T')))"

definition AcquireHot ::
  "(VM list \<Rightarrow> VM list) \<Rightarrow> table \<Rightarrow> time \<Rightarrow> int \<Rightarrow> int \<Rightarrow> int \<Rightarrow> store_error + (VM \<times> table)" where
  "AcquireHot ord T now jobID maxConcurrent maxBusy =
     AcquireHotInProfile ord T now '''' jobID maxConcurrent maxBusy"


section \<open>The table as a map from VMID to row\<close>

definition wf_table :: "table \<Rightarrow> bool" where
  "wf_table T = (distinct (map VMID T) \<and> (\<forall>v \<in> set T. 0 < VMID v \<and> indexable v))"

lemma txn_first_SomeD: "txn_first T vmid = Some v \<Longrightarrow> v \<in> set T \<and> VMID v = vmid"
  by (auto simp: txn_first_def dest: find_SomeD)

lemma txn_first_VMID: "txn_first T vmid = Some v \<Longrightarrow> VMID v = vmid"
  by (simp add: txn_first_SomeD)

lemma txn_first_None: "txn_first T vmid = None \<longleftrightarrow> vmid \<notin> VMID ` set T"
  by (auto simp: txn_first_def find_None)

lemma txn_first_in:
  assumes "distinct (map VMID T)" and "v \<in> set T"
  shows "txn_first T (VMID v) = Some v"
  using assms unfolding txn_first_def
  by (induction T) (auto simp: image_iff)

lemma txn_first_iff:
  "distinct (map VMID T) \<Longrightarrow> txn_first T vmid = Some v \<longleftrightarrow> v \<in> set T \<and> VMID v = vmid"
  using txn_first_SomeD txn_first_in by fastforce

lemma put_first [row_simps]:
  "txn_first (put T v) vmid = (if vmid = VMID v then Some v else txn_first T vmid)"
  by (induction T) (auto simp: txn_first_def)

lemma put_ids: "VMID ` set (put T v) = insert (VMID v) (VMID ` set T)"
  by (induction T) auto

lemma put_set: "set (put T v) \<subseteq> insert v (set T)"
  by (induction T) auto

lemma put_distinct: "distinct (map VMID T) \<Longrightarrow> distinct (map VMID (put T v))"
proof (induction T)
  case Nil
  then show ?case by simp
next
  case (Cons r T)
  show ?case
  proof (cases "VMID r = VMID v")
    case True
    with Cons.prems show ?thesis by simp
  next
    case False
    then have "VMID r \<notin> VMID ` set (put T v)"
      using Cons.prems by (simp add: put_ids)
    with Cons False show ?thesis by simp
  qed
qed

lemma put_fresh: "VMID v \<notin> VMID ` set T \<Longrightarrow> put T v = T @ [v]"
  by (induction T) auto

lemma txn_delete_first [row_simps]:
  "txn_first (txn_delete T vmid') vmid = (if vmid = vmid' then None else txn_first T vmid)"
  by (induction T) (auto simp: txn_first_def txn_delete_def)

lemma wf_put: "wf_table T \<Longrightarrow> 0 < VMID v \<Longrightarrow> indexable v \<Longrightarrow> wf_table (put T v)"
  unfolding wf_table_def using put_distinct put_set by blast

lemma wf_delete: "wf_table T \<Longrightarrow> wf_table (txn_delete T vmid)"
  by (auto simp: wf_table_def txn_delete_def distinct_map_filter)

lemma wf_first: "wf_table T \<Longrightarrow> txn_first T vmid = Some v \<Longrightarrow> 0 < vmid \<and> indexable v \<and> v \<in> set T"
  by (auto simp: wf_table_def dest: txn_first_SomeD)

text \<open>Counting after a replacement: the old row leaves its bucket and the new one joins its own.\<close>

lemma count_put:
  assumes "distinct (map VMID T)" and "txn_first T (VMID v) = Some old"
  shows "int (length (filter P (put T v))) =
    int (length (filter P T)) - (if P old then 1 else 0) + (if P v then 1 else 0)"
  using assms
proof (induction T)
  case Nil
  then show ?case by (simp add: txn_first_def)
next
  case (Cons r T)
  show ?case
  proof (cases "VMID r = VMID v")
    case True
    with Cons.prems have "old = r" by (simp add: txn_first_def)
    with True show ?thesis by simp
  next
    case False
    with Cons.prems have "txn_first T (VMID v) = Some old" by (simp add: txn_first_def)
    with Cons have "int (length (filter P (put T v))) =
      int (length (filter P T)) - (if P old then 1 else 0) + (if P v then 1 else 0)"
      by simp
    with False show ?thesis by (simp split: if_splits)
  qed
qed

lemma count_put_fresh:
  assumes "txn_first T (VMID v) = None"
  shows "int (length (filter P (put T v))) = int (length (filter P T)) + (if P v then 1 else 0)"
  using assms by (simp add: txn_first_None put_fresh)

section \<open>Iteration order\<close>

text \<open>
  What the operations rely on of go-memdb's \<^verbatim>\<open>ResultIterator\<close>: it lists every row of the
  bucket, each once.
\<close>

locale row_order =
  fixes ord :: "VM list \<Rightarrow> VM list"
  assumes perm: "mset (ord xs) = mset xs"
begin

lemma ord_set [simp]: "set (ord xs) = set xs"
  using perm by (metis set_mset_mset)

lemma ord_length [simp]: "length (ord xs) = length xs"
  using perm by (metis size_mset)

lemma ord_Nil [simp]: "ord [] = []"
  using perm [of "[]"] by simp

lemma bucket_set [simp]: "set (bucket ord P T) = {v \<in> set T. P v}"
  by (simp add: bucket_def)

lemma bucket_length: "length (bucket ord P T) = length (filter P T)"
  by (simp add: bucket_def)

lemma filter_bucket_length:
  "length (filter Q (bucket ord P T)) = length (filter (\<lambda>v. P v \<and> Q v) T)"
proof -
  have "length (filter Q (ord (filter P T))) = length (filter Q (filter P T))"
    by (rule mset_eq_length_filter) (rule perm)
  also have "filter Q (filter P T) = filter (\<lambda>v. P v \<and> Q v) T"
    by (simp add: conj_commute)
  finally show ?thesis by (simp add: bucket_def)
qed

lemma ListByState_set: "set (ListByState ord T states) = {v \<in> set T. StateOf v \<in> set states}"
  by (auto simp: ListByState_def)

lemma ListByProfileAndStates_set:
  "set (ListByProfileAndStates ord T profile states) =
     {v \<in> set T. Profile v = profile \<and> StateOf v \<in> set states}"
  by (auto simp: ListByProfileAndStates_def)

lemma ListExcludingStates_set:
  "set (ListExcludingStates ord T excluded) = {v \<in> set T. StateOf v \<notin> set excluded}"
  by (auto simp: ListExcludingStates_def List_def)

lemma UsedVMIDs_eq: "UsedVMIDs ord T a b = {i \<in> VMID ` set T. a \<le> i \<and> i \<le> b}"
  by (auto simp: UsedVMIDs_def List_def)

lemma countBusy_eq:
  "countBusy ord T profile =
     int (length (filter (\<lambda>v. (profile \<noteq> '''' \<longrightarrow> Profile v = profile) \<and>
       (StateOf v = StateAssigned \<or> StateOf v = StateRunning)) T))"
proof -
  let ?p = "\<lambda>v. profile \<noteq> '''' \<longrightarrow> Profile v = profile"
  have "filter (\<lambda>v. ?p v \<and> (StateOf v = StateAssigned \<or> StateOf v = StateRunning)) T =
    filter (\<lambda>v. (?p v \<and> StateOf v = StateAssigned) \<or> (?p v \<and> StateOf v = StateRunning)) T"
    by (rule filter_cong) auto
  moreover have "length (filter (\<lambda>v. (?p v \<and> StateOf v = StateAssigned) \<or> (?p v \<and> StateOf v = StateRunning)) T)
    = length (filter (\<lambda>v. ?p v \<and> StateOf v = StateAssigned) T)
      + length (filter (\<lambda>v. ?p v \<and> StateOf v = StateRunning) T)"
    by (rule length_filter_disj) auto
  ultimately show ?thesis by (simp only: countBusy_def bucket_length) simp
qed

end

text \<open>Key order is such an order; go-memdb walks its radix tree in the order of the keys.\<close>

interpretation by_vmid: row_order "sort_key VMID"
  by unfold_locales simp

text \<open>The row that the scan of \<^verbatim>\<open>AcquireHotInProfile\<close> keeps.\<close>

lemma oldest_row_Some:
  "oldest_row acc xs = Some v \<Longrightarrow>
    (acc = Some v \<or> v \<in> set xs) \<and>
    (\<forall>u \<in> set xs. CreatedAt v \<le> CreatedAt u) \<and> (\<forall>u. acc = Some u \<longrightarrow> CreatedAt v \<le> CreatedAt u)"
proof (induction acc xs rule: oldest_row.induct)
  case (1 oldest)
  then show ?case by simp
next
  case (2 oldest cand rest)
  show ?case
    using 2 by (cases oldest) (fastforce split: if_splits)+
qed

lemma oldest_row_None: "oldest_row acc xs = None \<longleftrightarrow> acc = None \<and> xs = []"
  by (induction acc xs rule: oldest_row.induct) (auto split: option.splits)

section \<open>Operations on well-formed tables\<close>

lemma enforceImmutable_None:
  "enforceImmutable a b = None \<longleftrightarrow> VMID a = VMID b \<and> Profile a = Profile b \<and> CreatedAt a = CreatedAt b"
  by (simp add: enforceImmutable_def)

lemma Insert_Inr:
  "Insert T now v = Inr T' \<longleftrightarrow>
     0 < VMID v \<and> txn_first T (VMID v) = None \<and> T' = put T (stamp_new now v)"
  by (auto simp: Insert_def txn_insert_def indexable_def stamp_new_def DefaultProfileName_def)

lemma stamp_new_fields [simp]:
  "VMID (stamp_new now v) = VMID v" "StateOf (stamp_new now v) = StateOf v"
  "PoolKindOf (stamp_new now v) = PoolKindOf v" "Node (stamp_new now v) = Node v"
  "RunnerID (stamp_new now v) = RunnerID v" "JobID (stamp_new now v) = JobID v"
  "BootAttempts (stamp_new now v) = BootAttempts v" "Name (stamp_new now v) = Name v"
  "HasRecycleSnapshot (stamp_new now v) = HasRecycleSnapshot v"
  "Profile (stamp_new now v) = (if Profile v = '''' then DefaultProfileName else Profile v)"
  by (simp_all add: stamp_new_def)

lemma Update_Inr:
  "Update T now vmid f = Inr (v', T') \<longleftrightarrow>
     (\<exists>v. txn_first T vmid = Some v \<and> VMID (f v) = vmid \<and> Profile (f v) = Profile v \<and>
        CreatedAt (f v) = CreatedAt v \<and> indexable (f v) \<and>
        v' = (f v)\<lparr>UpdatedAt := now\<rparr> \<and> T' = put T v')"
  by (auto simp: Update_def updateInTxn_def Let_def txn_insert_def indexable_def enforceImmutable_def
      split: option.splits if_splits dest: txn_first_VMID)

definition cas_row :: "time \<Rightarrow> State \<Rightarrow> VM \<Rightarrow> VM" where
  "cas_row now to_state v = v\<lparr>StateOf := to_state, StateSince := now, UpdatedAt := now\<rparr>"

lemma cas_row_fields [simp]:
  "VMID (cas_row now st v) = VMID v" "Profile (cas_row now st v) = Profile v"
  "CreatedAt (cas_row now st v) = CreatedAt v" "StateOf (cas_row now st v) = st"
  "indexable (cas_row now st v) = indexable v" "Node (cas_row now st v) = Node v"
  "RunnerID (cas_row now st v) = RunnerID v" "JobID (cas_row now st v) = JobID v"
  "PoolKindOf (cas_row now st v) = PoolKindOf v" "Name (cas_row now st v) = Name v"
  "HasRecycleSnapshot (cas_row now st v) = HasRecycleSnapshot v"
  by (simp_all add: cas_row_def indexable_def)

lemma UpdateStateIn_won:
  "UpdateStateIn T now vmid fs st f = Inr (Some T') \<longleftrightarrow>
     (\<exists>v. txn_first T vmid = Some v \<and> StateOf v \<in> set fs \<and>
        VMID (f (cas_row now st v)) = vmid \<and> Profile (f (cas_row now st v)) = Profile v \<and>
        CreatedAt (f (cas_row now st v)) = CreatedAt v \<and> indexable (f (cas_row now st v)) \<and>
        T' = put T (f (cas_row now st v)))"
  by (auto simp: UpdateStateIn_def Let_def cas_row_def txn_insert_def enforceImmutable_def
      split: option.splits if_splits dest: txn_first_VMID)

lemma UpdateStateIn_lost:
  "UpdateStateIn T now vmid fs st f = Inr None \<longleftrightarrow>
     (\<forall>v. txn_first T vmid = Some v \<longrightarrow> StateOf v \<notin> set fs)"
  by (auto simp: UpdateStateIn_def Let_def split: option.splits)

lemma UpdateState_eq: "UpdateState T now vmid s st f = UpdateStateIn T now vmid [s] st f"
  by (simp add: UpdateState_def UpdateStateIn_def Let_def split: option.split)

lemma AcquireHotInProfile_Inr:
  assumes "AcquireHotInProfile ord T now profile job maxc maxb = Inr (cp, T')"
  obtains v where
    "oldest_row None (bucket ord (\<lambda>v. (profile \<noteq> '''' \<longrightarrow> Profile v = profile) \<and> StateOf v = StateHot) T) = Some v"
    and "cp = v\<lparr>StateOf := StateAssigned, JobID := job, StateSince := now, UpdatedAt := now\<rparr>"
    and "T' = put T cp" and "indexable cp"
    and "countBusy ord T '''' < maxc"
    and "0 < maxb \<Longrightarrow> countBusy ord T profile < maxb"
  using assms
  by (auto simp: AcquireHotInProfile_def Let_def txn_insert_def split: if_splits option.splits)

section \<open>Runs of write operations\<close>

text \<open>
  A history of the store is a sequence of write transactions: go-memdb has a single writer at a
  time, so the interleaved transactions of all goroutines are such a sequence.
\<close>

datatype store_op =
    OpInsert time VM
  | OpDelete int
  | OpUpdate time int "VM \<Rightarrow> VM"
  | OpUpdateStateIn time int "State list" State "VM \<Rightarrow> VM"
  | OpAcquireHot "VM list \<Rightarrow> VM list" time string int int int

fun exec :: "table \<Rightarrow> store_op \<Rightarrow> table" where
  "exec T (OpInsert now v) = (case Insert T now v of Inr T' \<Rightarrow> T' | Inl _ \<Rightarrow> T)"
| "exec T (OpDelete vmid) = snd (DeleteAndReturn T vmid)"
| "exec T (OpUpdate now vmid f) = (case Update T now vmid f of Inr (_, T') \<Rightarrow> T' | Inl _ \<Rightarrow> T)"
| "exec T (OpUpdateStateIn now vmid fs st f) =
     (case UpdateStateIn T now vmid fs st f of Inr (Some T') \<Rightarrow> T' | _ \<Rightarrow> T)"
| "exec T (OpAcquireHot ord now profile job maxc maxb) =
     (case AcquireHotInProfile ord T now profile job maxc maxb of Inr (_, T') \<Rightarrow> T' | Inl _ \<Rightarrow> T)"

fun run_ops :: "table \<Rightarrow> store_op list \<Rightarrow> table" where
  "run_ops T [] = T"
| "run_ops T (op # ops) = run_ops (exec T op) ops"

text \<open>An iteration order in a history lists rows of the bucket only.\<close>

fun op_ok :: "store_op \<Rightarrow> bool" where
  "op_ok (OpAcquireHot ord _ _ _ _ _) = row_order ord"
| "op_ok _ = True"

context row_order
begin

lemma acquire_row:
  assumes "wf_table T"
    and "AcquireHotInProfile ord T now profile job maxc maxb = Inr (cp, T')"
  obtains v where "txn_first T (VMID v) = Some v" and "StateOf v = StateHot"
    and "profile \<noteq> [] \<Longrightarrow> Profile v = profile"
    and "\<And>u. u \<in> set T \<Longrightarrow> StateOf u = StateHot \<Longrightarrow> (profile \<noteq> [] \<Longrightarrow> Profile u = profile) \<Longrightarrow>
      CreatedAt v \<le> CreatedAt u"
    and "cp = v\<lparr>StateOf := StateAssigned, JobID := job, StateSince := now, UpdatedAt := now\<rparr>"
    and "T' = put T cp" and "indexable cp" and "VMID cp = VMID v"
proof -
  from assms(2) obtain v where v:
    "oldest_row None (bucket ord (\<lambda>v. (profile \<noteq> [] \<longrightarrow> Profile v = profile) \<and> StateOf v = StateHot) T) = Some v"
    "cp = v\<lparr>StateOf := StateAssigned, JobID := job, StateSince := now, UpdatedAt := now\<rparr>"
    "T' = put T cp" "indexable cp"
    by (rule AcquireHotInProfile_Inr)
  from oldest_row_Some [OF v(1)] have vset: "v \<in> set T" "StateOf v = StateHot"
    "profile \<noteq> [] \<longrightarrow> Profile v = profile"
    and least: "\<forall>u \<in> set T. (profile \<noteq> [] \<longrightarrow> Profile u = profile) \<and> StateOf u = StateHot \<longrightarrow>
      CreatedAt v \<le> CreatedAt u"
    by auto
  from assms(1) vset(1) have "txn_first T (VMID v) = Some v"
    by (auto simp: wf_table_def intro: txn_first_in)
  then show thesis using that v vset least by auto
qed

end

section \<open>The contract the clients rely on\<close>

text \<open>
  What the pool manager uses of a store: a partial map of rows, and a conditional transition that
  wins exactly when the row is in one of the expected states and then replaces that row only.
  \<open>benign\<close> are the mutations the callers pass: they leave the identity fields and the state the
  transition has just written alone.
\<close>

definition benign :: "(VM \<Rightarrow> VM) \<Rightarrow> bool" where
  "benign f \<longleftrightarrow> (\<forall>v. VMID (f v) = VMID v \<and> Profile (f v) = Profile v \<and>
     CreatedAt (f v) = CreatedAt v \<and> StateOf (f v) = StateOf v)"

type_synonym cas_attempt = "time \<times> State list \<times> State \<times> (VM \<Rightarrow> VM)"

primrec race :: "('t \<Rightarrow> time \<Rightarrow> int \<Rightarrow> State list \<Rightarrow> State \<Rightarrow> (VM \<Rightarrow> VM) \<Rightarrow> 't option) \<Rightarrow>
  't \<Rightarrow> int \<Rightarrow> cas_attempt list \<Rightarrow> nat" where
  "race cas T i [] = 0"
| "race cas T i (a # as) =
     (case a of (now, fs, st, f) \<Rightarrow>
       (case cas T now i fs st f of
          None \<Rightarrow> race cas T i as
        | Some T' \<Rightarrow> Suc (race cas T' i as)))"

definition attempt_ok :: "State set \<Rightarrow> cas_attempt \<Rightarrow> bool" where
  "attempt_ok S a = (case a of (now, fs, st, f) \<Rightarrow> set fs \<subseteq> S \<and> st \<notin> S \<and> benign f)"

locale cas_store =
  fixes inv :: "'t \<Rightarrow> bool"
    and row :: "'t \<Rightarrow> int \<Rightarrow> VM option"
    and cas :: "'t \<Rightarrow> time \<Rightarrow> int \<Rightarrow> State list \<Rightarrow> State \<Rightarrow> (VM \<Rightarrow> VM) \<Rightarrow> 't option"
  assumes cas_wins: "inv T \<Longrightarrow> row T i = Some v \<Longrightarrow> StateOf v \<in> set fs \<Longrightarrow> benign f \<Longrightarrow>
      \<exists>T'. cas T now i fs st f = Some T' \<and> inv T' \<and> row T' = (row T)(i \<mapsto> f (cas_row now st v))"
    and cas_loses: "(\<And>v. row T i = Some v \<Longrightarrow> StateOf v \<notin> set fs) \<Longrightarrow> cas T now i fs st f = None"
begin

lemma race_none:
  assumes "\<And>v. row T i = Some v \<Longrightarrow> StateOf v \<notin> S" and "list_all (attempt_ok S) as"
  shows "race cas T i as = 0"
  using assms(2)
proof (induction as)
  case (Cons a as)
  obtain now fs st f where a: "a = (now, fs, st, f)" by (cases a)
  have "cas T now i fs st f = None"
    using assms(1) Cons.prems by (intro cas_loses) (auto simp: a attempt_ok_def)
  with Cons show ?case by (simp add: a)
qed simp

lemma race_at_most_one:
  assumes "inv T" and "list_all (attempt_ok S) as"
  shows "race cas T i as \<le> 1"
  using assms(2)
proof (induction as)
  case (Cons a as)
  obtain now fs st f where a: "a = (now, fs, st, f)" by (cases a)
  then have ok: "set fs \<subseteq> S" "st \<notin> S" "benign f" using Cons.prems by (auto simp: attempt_ok_def)
  show ?case
  proof (cases "\<exists>v. row T i = Some v \<and> StateOf v \<in> set fs")
    case True
    then obtain v where v: "row T i = Some v" "StateOf v \<in> set fs" by blast
    from cas_wins [OF assms(1) v ok(3)] obtain T' where
      T': "cas T now i fs st f = Some T'" "row T' i = Some (f (cas_row now st v))" by force
    have "race cas T' i as = 0"
      using ok T'(2) Cons.prems by (intro race_none [of _ _ S]) (auto simp: benign_def)
    with T' show ?thesis by (simp add: a)
  next
    case False
    then have "cas T now i fs st f = None" by (intro cas_loses) blast
    with Cons show ?thesis by (simp add: a)
  qed
qed simp

lemma race_exactly_one:
  assumes "inv T" and "row T i = Some v" and "StateOf v \<in> set fs"
    and "list_all (attempt_ok S) ((now, fs, st, f) # as)"
  shows "race cas T i ((now, fs, st, f) # as) = 1"
proof -
  have "benign f" using assms(4) by (simp add: attempt_ok_def)
  from cas_wins [OF assms(1-3) this] obtain T' where "cas T now i fs st f = Some T'" by blast
  then have "1 \<le> race cas T i ((now, fs, st, f) # as)" by simp
  with race_at_most_one [OF assms(1,4)] show ?thesis by (simp only: le_antisym)
qed

end

definition table_cas ::
  "table \<Rightarrow> time \<Rightarrow> int \<Rightarrow> State list \<Rightarrow> State \<Rightarrow> (VM \<Rightarrow> VM) \<Rightarrow> table option" where
  "table_cas T now i fs st f = (case UpdateStateIn T now i fs st f of Inr r \<Rightarrow> r | Inl _ \<Rightarrow> None)"

lemma table_cas_wins:
  assumes "wf_table T" and "txn_first T i = Some v" and "StateOf v \<in> set fs" and "benign f"
  shows "table_cas T now i fs st f = Some (put T (f (cas_row now st v)))"
proof -
  have "indexable v" using wf_first [OF assms(1,2)] by blast
  then have "UpdateStateIn T now i fs st f = Inr (Some (put T (f (cas_row now st v))))"
    unfolding UpdateStateIn_won using assms
    by (auto simp: benign_def indexable_def dest: txn_first_VMID)
  then show ?thesis by (simp add: table_cas_def)
qed

interpretation table_store: cas_store wf_table txn_first table_cas
proof
  fix T i v fs f now st
  assume a: "wf_table T" "txn_first T i = Some v" "StateOf v \<in> set fs" "benign f"
  let ?v = "f (cas_row now st v)"
  have v: "VMID ?v = i" "0 < i" "indexable ?v"
    using a(4) txn_first_VMID [OF a(2)] wf_first [OF a(1,2)] by (auto simp: benign_def indexable_def)
  have "wf_table (put T ?v)" using wf_put [OF a(1)] v by simp
  moreover have "txn_first (put T ?v) = (txn_first T)(i \<mapsto> ?v)"
    using v by (auto simp: put_first fun_eq_iff)
  ultimately show "\<exists>T'. table_cas T now i fs st f = Some T' \<and> wf_table T' \<and> txn_first T' = (txn_first T)(i \<mapsto> ?v)"
    using table_cas_wins [OF a] by blast
next
  fix T i fs now st f
  assume "\<And>v. txn_first T i = Some v \<Longrightarrow> StateOf v \<notin> set fs"
  then have "UpdateStateIn T now i fs st f = Inr None" by (simp add: UpdateStateIn_lost)
  then show "table_cas T now i fs st f = None" by (simp add: table_cas_def)
qed

section \<open>Properties of the store\<close>

text \<open>A row literal: the fields the callers set, every other field Go's zero value.\<close>

definition new_row :: "int \<Rightarrow> string \<Rightarrow> string \<Rightarrow> string \<Rightarrow> PoolKind \<Rightarrow> State \<Rightarrow> VM" where
  "new_row vmid node name profile kind st =
     \<lparr>VMID = vmid, Node = node, Name = name, Profile = profile, Org = '''', Repo = '''',
      PriorityClass = '''', Template = '''', PoolKindOf = kind, StateOf = st, JobID = 0, RunnerID = 0,
      BootAttempts = 0, RecycleCount = 0, HasRecycleSnapshot = False, CreatedAt = 0, UpdatedAt = 0,
      StateSince = 0\<rparr>"

lemma new_row_fields [simp]:
  "VMID (new_row i n nm p k st) = i" "Node (new_row i n nm p k st) = n"
  "Name (new_row i n nm p k st) = nm" "Profile (new_row i n nm p k st) = p"
  "PoolKindOf (new_row i n nm p k st) = k" "StateOf (new_row i n nm p k st) = st"
  "CreatedAt (new_row i n nm p k st) = 0" "StateSince (new_row i n nm p k st) = 0"
  "RunnerID (new_row i n nm p k st) = 0" "JobID (new_row i n nm p k st) = 0"
  by (simp_all add: new_row_def)

lemma exec_wf:
  assumes "wf_table T" and "op_ok op"
  shows "wf_table (exec T op)"
proof (cases op)
  case (OpInsert now v)
  with assms(1) show ?thesis
    by (auto simp: Insert_Inr indexable_def DefaultProfileName_def intro!: wf_put split: sum.split)
next
  case (OpDelete i)
  with assms(1) show ?thesis by (auto simp: DeleteAndReturn_def wf_delete split: option.split)
next
  case (OpUpdate now i f)
  with assms(1) show ?thesis
    by (auto simp: Update_Inr indexable_def intro!: wf_put dest: wf_first split: sum.split)
next
  case (OpUpdateStateIn now i fs st f)
  with assms(1) show ?thesis
    by (auto simp: UpdateStateIn_won intro!: wf_put dest: wf_first split: sum.split option.split)
next
  case (OpAcquireHot ord now profile job maxc maxb)
  with assms(2) have o: "row_order ord" by simp
  show ?thesis
  proof (cases "AcquireHotInProfile ord T now profile job maxc maxb")
    case (Inr r)
    then obtain cp T' where r: "AcquireHotInProfile ord T now profile job maxc maxb = Inr (cp, T')"
      by (cases r) auto
    from row_order.acquire_row [OF o assms(1) r] obtain v where
      "txn_first T (VMID v) = Some v" "T' = put T cp" "indexable cp" "VMID cp = VMID v" by metis
    with assms(1) r OpAcquireHot show ?thesis by (auto intro!: wf_put dest: wf_first)
  qed (use assms(1) OpAcquireHot in simp)
qed

definition same_identity :: "VM \<Rightarrow> VM \<Rightarrow> bool" where
  "same_identity v w \<longleftrightarrow> VMID v = VMID w \<and> Profile v = Profile w \<and> CreatedAt v = CreatedAt w"

text \<open>A write other than a delete of the row keeps the row and its identity fields.\<close>

lemma exec_identity:
  assumes "wf_table T" and "op_ok op" and "op \<noteq> OpDelete i" and "txn_first T i = Some v"
  shows "\<exists>w. txn_first (exec T op) i = Some w \<and> same_identity v w"
proof (cases op)
  case (OpInsert now u)
  with assms(4) show ?thesis by (auto simp: Insert_Inr put_first same_identity_def split: sum.split)
next
  case (OpDelete j)
  with assms(3,4) show ?thesis
    by (auto simp: DeleteAndReturn_def txn_delete_first same_identity_def split: option.split
        dest: txn_first_VMID)
next
  case (OpUpdate now j f)
  with assms(4) show ?thesis
    by (auto simp: Update_Inr put_first same_identity_def split: sum.split dest: txn_first_VMID)
next
  case (OpUpdateStateIn now j fs st f)
  with assms(4) show ?thesis
    by (auto simp: UpdateStateIn_won put_first same_identity_def
        split: sum.split option.split dest: txn_first_VMID)
next
  case (OpAcquireHot ord now profile job maxc maxb)
  with assms(2) have o: "row_order ord" by simp
  show ?thesis
  proof (cases "AcquireHotInProfile ord T now profile job maxc maxb")
    case (Inr r)
    then obtain cp T' where r: "AcquireHotInProfile ord T now profile job maxc maxb = Inr (cp, T')"
      by (cases r) auto
    from row_order.acquire_row [OF o assms(1) r] obtain u where
      "txn_first T (VMID u) = Some u" "T' = put T cp"
      "cp = u\<lparr>StateOf := StateAssigned, JobID := job, StateSince := now, UpdatedAt := now\<rparr>" by metis
    with assms(4) r OpAcquireHot show ?thesis by (auto simp: put_first same_identity_def)
  qed (use assms(4) OpAcquireHot in \<open>simp add: same_identity_def\<close>)
qed

lemma run_ops_wf: "wf_table T \<Longrightarrow> list_all op_ok ops \<Longrightarrow> wf_table (run_ops T ops)"
  by (induction T ops rule: run_ops.induct) (auto intro: exec_wf)

lemma wf_Nil [simp]: "wf_table []"
  by (simp add: wf_table_def)



text \<open>
  The identity fields that \<^verbatim>\<open>enforceImmutable\<close> guards survive every history: a row that
  is not deleted is still there afterwards, with the VMID, profile and creation time it had,
  whatever the mutation callbacks try.
\<close>

theorem store_identity_immutable:
  assumes "wf_table T" and "list_all op_ok ops" and "OpDelete i \<notin> set ops"
    and "txn_first T i = Some v"
  shows "\<exists>w. txn_first (run_ops T ops) i = Some w \<and>
    VMID w = VMID v \<and> Profile w = Profile v \<and> CreatedAt w = CreatedAt v"
  using assms
proof (induction T ops arbitrary: v rule: run_ops.induct)
  case (2 T op ops)
  from 2 have "op_ok op" "op \<noteq> OpDelete i" by auto
  from exec_identity [OF 2(2) this 2(5)] obtain u where
    u: "txn_first (exec T op) i = Some u" "same_identity v u" by blast
  from 2 exec_wf have "wf_table (exec T op)" by simp
  from 2(1) [OF this _ _ u(1)] 2 u(2) show ?case by (auto simp: same_identity_def)
qed simp

theorem store_identity_immutable_witness:
  "\<exists>w. txn_first (run_ops [new_row 100 ''n1'' ''r'' ''gpu'' PoolKindHot StateHot]
     [OpUpdate 3 100 (\<lambda>v. v\<lparr>Profile := ''other''\<rparr>), OpDelete 101]) 100 = Some w \<and>
     VMID w = 100 \<and> Profile w = ''gpu'' \<and> CreatedAt w = 0"
  using store_identity_immutable
    [of "[new_row 100 ''n1'' ''r'' ''gpu'' PoolKindHot StateHot]"
      "[OpUpdate 3 100 (\<lambda>v. v\<lparr>Profile := ''other''\<rparr>), OpDelete 101]" 100
      "new_row 100 ''n1'' ''r'' ''gpu'' PoolKindHot StateHot"]
  by (simp add: wf_table_def indexable_def txn_first_def)

definition busy :: "VM \<Rightarrow> bool" where
  "busy v = (StateOf v = StateAssigned \<or> StateOf v = StateRunning)"

context row_order
begin

lemma countBusy_busy:
  "countBusy ord T profile =
     int (length (filter (\<lambda>v. (profile \<noteq> '''' \<longrightarrow> Profile v = profile) \<and> busy v) T))"
  by (simp add: countBusy_eq busy_def)

lemma acquire_busy_count:
  assumes "wf_table T"
    and "AcquireHotInProfile ord T now profile job maxc maxb = Inr (cp, T')"
    and "Q = (\<lambda>v. (p \<noteq> '''' \<longrightarrow> Profile v = p) \<and> busy v)" and "p = '''' \<or> p = profile"
  shows "int (length (filter Q T')) = int (length (filter Q T)) + 1"
proof -
  obtain v where v: "txn_first T (VMID v) = Some v" "StateOf v = StateHot"
    "profile \<noteq> '''' \<Longrightarrow> Profile v = profile"
    "cp = v\<lparr>StateOf := StateAssigned, JobID := job, StateSince := now, UpdatedAt := now\<rparr>"
    "T' = put T cp"
    using acquire_row [OF assms(1,2)] by metis
  have "\<not> Q v" using v(2) by (simp add: assms(3) busy_def)
  moreover have "Q cp" using v(3,4) assms(4) by (auto simp: assms(3) busy_def)
  moreover have "distinct (map VMID T)" using assms(1) by (simp add: wf_table_def)
  ultimately show ?thesis using count_put [of T cp v Q] v by simp
qed

lemma acquire_caps:
  assumes "wf_table T"
    and "AcquireHotInProfile ord T now profile job maxc maxb = Inr (cp, T')"
  shows "countBusy ord T' '''' \<le> maxc \<and> (0 < maxb \<longrightarrow> countBusy ord T' profile \<le> maxb) \<and>
    countBusy ord T' '''' = countBusy ord T '''' + 1"
proof -
  have "countBusy ord T' p = countBusy ord T p + 1" if "p = '''' \<or> p = profile" for p
    unfolding countBusy_busy using acquire_busy_count [OF assms refl that] .
  moreover have "countBusy ord T '''' < maxc" "0 < maxb \<longrightarrow> countBusy ord T profile < maxb"
    using AcquireHotInProfile_Inr [OF assms(2)] by blast+
  ultimately show ?thesis by auto
qed

end

text \<open>
  C13. The transactional claim never exceeds a cap: after a successful
  \<^verbatim>\<open>AcquireHotInProfile\<close> the rows that are assigned or running are at most
  \<^verbatim>\<open>maxConcurrent\<close> over the whole store and within the profile at most a positive
  \<^verbatim>\<open>maxBusy\<close> (the whole store when no profile is named), and exactly one row more is busy
  than before.
\<close>

theorem acquire_within_caps:
  assumes "row_order ord" and "wf_table T"
    and "AcquireHotInProfile ord T now profile jobID maxConcurrent maxBusy = Inr (cp, T')"
  shows "int (length (filter busy T')) \<le> maxConcurrent \<and>
    (0 < maxBusy \<longrightarrow>
      int (length (filter (\<lambda>v. (profile \<noteq> '''' \<longrightarrow> Profile v = profile) \<and> busy v) T')) \<le> maxBusy) \<and>
    length (filter busy T') = length (filter busy T) + 1"
  using row_order.acquire_caps [OF assms] row_order.countBusy_busy [OF assms(1)] by simp

definition ex_rows :: table where
  "ex_rows = [new_row 100 ''n1'' ''r-100'' ''gpu'' PoolKindHot StateHot \<lparr>CreatedAt := 30\<rparr>,
     new_row 101 ''n1'' ''r-101'' ''gpu'' PoolKindHot StateHot \<lparr>CreatedAt := 10\<rparr>,
     new_row 102 ''n1'' ''r-102'' ''cpu'' PoolKindHot StateRunning \<lparr>CreatedAt := 5\<rparr>]"

lemma ex_rows_wf: "wf_table ex_rows"
  by (simp add: ex_rows_def wf_table_def indexable_def)

definition ex_claimed :: VM where
  "ex_claimed = new_row 101 ''n1'' ''r-101'' ''gpu'' PoolKindHot StateAssigned
     \<lparr>CreatedAt := 10, JobID := 77, StateSince := 50, UpdatedAt := 50\<rparr>"

lemma ex_acquire:
  "AcquireHotInProfile (sort_key VMID) ex_rows 50 ''gpu'' 77 2 1 = Inr (ex_claimed, put ex_rows ex_claimed)"
  by code_simp

theorem acquire_within_caps_witness:
  "int (length (filter busy (put ex_rows ex_claimed))) \<le> 2 \<and>
   int (length (filter (\<lambda>v. Profile v = ''gpu'' \<and> busy v) (put ex_rows ex_claimed))) \<le> 1 \<and>
   length (filter busy (put ex_rows ex_claimed)) = length (filter busy ex_rows) + 1"
  using acquire_within_caps [OF by_vmid.row_order_axioms ex_rows_wf ex_acquire] by simp

text \<open>
  The claim is first in, first out: the row \<^verbatim>\<open>AcquireHotInProfile\<close> returns was hot, of
  the requested profile when one is named, and no eligible hot row was created before it; it is
  assigned to the job, and every other row of the store is as it was.
\<close>

theorem acquire_claims_oldest:
  assumes "row_order ord" and "wf_table T"
    and "AcquireHotInProfile ord T now profile jobID maxConcurrent maxBusy = Inr (cp, T')"
  shows "\<exists>v \<in> set T. StateOf v = StateHot \<and> (profile \<noteq> '''' \<longrightarrow> Profile v = profile) \<and>
    (\<forall>u \<in> set T. StateOf u = StateHot \<and> (profile \<noteq> '''' \<longrightarrow> Profile u = profile) \<longrightarrow>
       CreatedAt v \<le> CreatedAt u) \<and>
    cp = v\<lparr>StateOf := StateAssigned, JobID := jobID, StateSince := now, UpdatedAt := now\<rparr> \<and>
    txn_first T' = (txn_first T)(VMID v \<mapsto> cp)"
proof -
  obtain v where v: "txn_first T (VMID v) = Some v" "StateOf v = StateHot"
    "profile \<noteq> '''' \<Longrightarrow> Profile v = profile"
    "\<And>u. u \<in> set T \<Longrightarrow> StateOf u = StateHot \<Longrightarrow> (profile \<noteq> '''' \<Longrightarrow> Profile u = profile) \<Longrightarrow>
      CreatedAt v \<le> CreatedAt u"
    "cp = v\<lparr>StateOf := StateAssigned, JobID := jobID, StateSince := now, UpdatedAt := now\<rparr>"
    "T' = put T cp" "VMID cp = VMID v"
    using row_order.acquire_row [OF assms] by metis
  have "txn_first T' = (txn_first T)(VMID v \<mapsto> cp)"
    using v(6,7) by (simp add: fun_eq_iff put_first)
  with v txn_first_SomeD [OF v(1)] show ?thesis by blast
qed

theorem acquire_claims_oldest_witness:
  "\<exists>v \<in> set ex_rows. StateOf v = StateHot \<and> Profile v = ''gpu'' \<and>
    (\<forall>u \<in> set ex_rows. StateOf u = StateHot \<and> Profile u = ''gpu'' \<longrightarrow> CreatedAt v \<le> CreatedAt u) \<and>
    ex_claimed = v\<lparr>StateOf := StateAssigned, JobID := 77, StateSince := 50, UpdatedAt := 50\<rparr> \<and>
    txn_first (put ex_rows ex_claimed) = (txn_first ex_rows)(VMID v \<mapsto> ex_claimed)"
  using acquire_claims_oldest [OF by_vmid.row_order_axioms ex_rows_wf ex_acquire] by simp

text \<open>
  The outcome of a claim is determined on every branch: \<^verbatim>\<open>ErrAtCapacity\<close> exactly when
  a cap is reached, \<^verbatim>\<open>ErrNoneAvailable\<close> exactly when no cap is reached and no eligible row
  is hot, and otherwise the claim succeeds; no other error is possible on a well-formed table.
\<close>

theorem acquire_outcome:
  assumes "row_order ord" and "wf_table T"
    and "full \<longleftrightarrow> maxConcurrent \<le> int (length (filter busy T)) \<or>
      0 < maxBusy \<and>
        maxBusy \<le> int (length (filter (\<lambda>v. (profile \<noteq> '''' \<longrightarrow> Profile v = profile) \<and> busy v) T))"
    and "avail \<longleftrightarrow> (\<exists>v \<in> set T. StateOf v = StateHot \<and> (profile \<noteq> '''' \<longrightarrow> Profile v = profile))"
  shows "case AcquireHotInProfile ord T now profile jobID maxConcurrent maxBusy of
      Inl e \<Rightarrow> e = (if full then ErrAtCapacity else ErrNoneAvailable) \<and> (full \<or> \<not> avail)
    | Inr _ \<Rightarrow> \<not> full \<and> avail"
proof -
  let ?hot = "bucket ord (\<lambda>v. (profile \<noteq> '''' \<longrightarrow> Profile v = profile) \<and> StateOf v = StateHot) T"
  have hot: "set ?hot = {v \<in> set T. (profile \<noteq> '''' \<longrightarrow> Profile v = profile) \<and> StateOf v = StateHot}"
    by (rule row_order.bucket_set [OF assms(1)])
  have "?hot = [] \<longleftrightarrow> set ?hot = {}" by simp
  then have none: "oldest_row None ?hot = None \<longleftrightarrow> \<not> avail"
    unfolding oldest_row_None hot using assms(4) by blast
  have idx: "indexable v" if "oldest_row None ?hot = Some v" for v
    using oldest_row_Some [OF that] hot assms(2) by (auto simp: wf_table_def)
  show ?thesis
    using none idx assms(3) row_order.countBusy_busy [OF assms(1)]
    by (auto simp: AcquireHotInProfile_def Let_def txn_insert_def indexable_def split: option.split)
qed

theorem acquire_outcome_witness:
  "AcquireHotInProfile (sort_key VMID) ex_rows 50 ''gpu'' 77 1 0 = Inl ErrAtCapacity"
proof -
  have "filter busy ex_rows = [new_row 102 ''n1'' ''r-102'' ''cpu'' PoolKindHot StateRunning \<lparr>CreatedAt := 5\<rparr>]"
    by (simp add: ex_rows_def busy_def)
  then show ?thesis
    using acquire_outcome [OF by_vmid.row_order_axioms ex_rows_wf refl refl, of 1 0 "''gpu''" 50 77]
    by (simp split: sum.splits)
qed

text \<open>
  C14. A transition has one winner: of any number of \<^verbatim>\<open>UpdateStateIn\<close> attempts on the same
  row, each out of states of \<open>S\<close> and into a state outside \<open>S\<close>, in whatever order the
  transactions are serialised, exactly one reports \<^verbatim>\<open>true\<close> when the row is in a state the
  first of them expects, and never more than one does.
\<close>

theorem cas_single_winner:
  assumes "wf_table T" and "list_all (attempt_ok S) as"
  shows "race table_cas T i as \<le> 1 \<and>
    (\<forall>now fs st f as' v. as = (now, fs, st, f) # as' \<and> txn_first T i = Some v \<and> StateOf v \<in> set fs
      \<longrightarrow> race table_cas T i as = 1)"
  using table_store.race_at_most_one [OF assms] table_store.race_exactly_one [OF assms(1)] assms(2)
  by auto

theorem cas_single_winner_witness:
  "race table_cas ex_rows 100 [(7, [StateHot, StateWarm], StateDraining, \<lambda>v. v),
     (8, [StateHot], StateAssigned, \<lambda>v. v\<lparr>JobID := 3\<rparr>), (9, [StateHot], StateDraining, \<lambda>v. v)] = 1"
proof -
  let ?as = "[(7, [StateHot, StateWarm], StateDraining, \<lambda>v. v),
     (8, [StateHot], StateAssigned, \<lambda>v. v\<lparr>JobID := 3\<rparr>), (9, [StateHot], StateDraining, \<lambda>v. v)]"
  have "list_all (attempt_ok {StateHot, StateWarm}) ?as" by (simp add: attempt_ok_def benign_def)
  moreover have "txn_first ex_rows 100 = Some (ex_rows ! 0)" "StateOf (ex_rows ! 0) = StateHot"
    by (simp_all add: ex_rows_def txn_first_def)
  ultimately show ?thesis
    using cas_single_winner [OF ex_rows_wf, of "{StateHot, StateWarm}" ?as 100] by simp
qed

lemma length_by_state:
  "length T = sum_list (map (\<lambda>st. length (filter (\<lambda>v. StateOf v = st) T)) AllStates)"
proof (induction T)
  case (Cons v T)
  then show ?case by (cases "StateOf v") (simp_all add: AllStates_def)
qed (simp add: AllStates_def)

text \<open>
  The state tallies partition the store: \<^verbatim>\<open>Stats\<close> has an entry for each of the ten
  states, equal to \<^verbatim>\<open>Count\<close> of that state, and the entries add up to the number of rows,
  terminal states included.
\<close>

theorem stats_partition:
  assumes "row_order ord"
  shows "sum_list (map (\<lambda>st. the (Stats ord T st)) AllStates) = int (length T) \<and>
    Stats ord T st = Some (Count ord T st)"
proof -
  have each: "Stats ord T st = Some (int (length (filter (\<lambda>v. StateOf v = st) T)))" for st
    by (cases st) (simp_all add: Stats_def AllStates_def row_order.bucket_length [OF assms])
  have "int (length T) = sum_list (map (\<lambda>st. int (length (filter (\<lambda>v. StateOf v = st) T))) AllStates)"
    by (subst length_by_state) (simp add: AllStates_def)
  with each show ?thesis by (simp add: Count_def row_order.bucket_length [OF assms])
qed

theorem stats_partition_witness:
  "sum_list (map (\<lambda>st. the (Stats (sort_key VMID) ex_rows st)) AllStates) = 3"
  using stats_partition [OF by_vmid.row_order_axioms, of ex_rows StateHot] by (simp add: ex_rows_def)

end
