(* ===== verification/Tags.thy ===== *)
theory Tags
  imports Base "HOL-Library.Char_ord" "HOL-Library.List_Lexorder"
begin

text \<open>
  The Proxmox tag schema (\<^verbatim>\<open>internal/tags/tags.go\<close>): which tags a VM of this scale set
  carries, their wire format, and how crash recovery reads ownership, profile and template class
  back from it. Strings are lists of ASCII characters, where runes and bytes agree.
\<close>

section \<open>The strings operations of Go that the schema uses\<close>

definition ascii_space :: "char \<Rightarrow> bool" where
  "ascii_space c = (of_char c \<in> {9, 10, 11, 12, 13, 32 :: nat})"

definition TrimSpace :: "string \<Rightarrow> string" where
  "TrimSpace s = rev (dropWhile ascii_space (rev (dropWhile ascii_space s)))"

definition Trim_hyphen :: "string \<Rightarrow> string" where
  "Trim_hyphen s = rev (dropWhile (\<lambda>c. c = CHR ''-'') (rev (dropWhile (\<lambda>c. c = CHR ''-'') s)))"

fun Split_on :: "char \<Rightarrow> string \<Rightarrow> string list" where
  "Split_on sep [] = [[]]"
| "Split_on sep (c # cs) =
     (if c = sep then [] # Split_on sep cs
      else case Split_on sep cs of
             [] \<Rightarrow> [[c]]
           | p # ps \<Rightarrow> (c # p) # ps)"

fun Join_with :: "char \<Rightarrow> string list \<Rightarrow> string" where
  "Join_with sep [] = []"
| "Join_with sep [p] = p"
| "Join_with sep (p # q # ps) = p @ sep # Join_with sep (q # ps)"

fun CutPrefix :: "string \<Rightarrow> string \<Rightarrow> string option" where
  "CutPrefix s [] = Some s"
| "CutPrefix [] (p # ps) = None"
| "CutPrefix (c # cs) (p # ps) = (if c = p then CutPrefix cs ps else None)"

definition lower :: "char \<Rightarrow> bool" where
  "lower c = (CHR ''a'' \<le> c \<and> c \<le> CHR ''z'')"

definition upper :: "char \<Rightarrow> bool" where
  "upper c = (CHR ''A'' \<le> c \<and> c \<le> CHR ''Z'')"

definition digit :: "char \<Rightarrow> bool" where
  "digit c = (CHR ''0'' \<le> c \<and> c \<le> CHR ''9'')"

definition to_lower :: "char \<Rightarrow> char" where
  "to_lower c = (if upper c then char_of (of_char c + 32 :: nat) else c)"

section \<open>The schema\<close>

definition Marker :: string where
  "Marker = ''gh-scaleset''"

definition ownerPrefix :: string where
  "ownerPrefix = ''gh-scaleset-owner-''"

definition profilePrefix :: string where
  "profilePrefix = ''gh-scaleset-profile-''"

definition DefaultProfile :: string where
  "DefaultProfile = ''default''"

definition templatePrefix :: string where
  "templatePrefix = ''gh-scaleset-template-''"

definition TemplateStable :: string where
  "TemplateStable = ''stable''"

definition TemplateCandidate :: string where
  "TemplateCandidate = ''candidate''"

datatype tags_error = ErrScaleSetName

definition scaleSetNameRE :: "string \<Rightarrow> bool" where
  "scaleSetNameRE s =
     (case s of
        [] \<Rightarrow> False
      | c # cs \<Rightarrow> (lower c \<or> upper c \<or> digit c) \<and>
          list_all (\<lambda>d. lower d \<or> upper d \<or> digit d \<or> d = CHR ''_'' \<or> d = CHR ''.'' \<or> d = CHR ''-'') cs \<and>
          length cs \<le> 62)"

definition sanitize_char :: "char \<Rightarrow> char" where
  "sanitize_char c = (if lower c \<or> digit c then c else CHR ''-'')"

definition sanitize :: "string \<Rightarrow> string" where
  "sanitize s = Trim_hyphen (map (sanitize_char \<circ> to_lower) s)"

definition OwnerTag :: "string \<Rightarrow> tags_error + string" where
  "OwnerTag scaleSetName =
     (if \<not> scaleSetNameRE scaleSetName then Inl ErrScaleSetName
      else Inr (ownerPrefix @ sanitize scaleSetName))"

definition ProfileTag :: "string \<Rightarrow> string" where
  "ProfileTag profileName =
     profilePrefix @ sanitize (if profileName = '''' then DefaultProfile else profileName)"

definition TemplateTag :: "string \<Rightarrow> string" where
  "TemplateTag class = templatePrefix @ sanitize (if class = '''' then TemplateStable else class)"

definition Initial :: "string \<Rightarrow> string \<Rightarrow> string \<Rightarrow> tags_error + string list" where
  "Initial scaleSetName profileName templateClass =
     (case OwnerTag scaleSetName of
        Inl e \<Rightarrow> Inl e
      | Inr owner \<Rightarrow>
          Inr [Marker, owner, ProfileTag profileName,
               TemplateTag (if templateClass = '''' then TemplateStable else templateClass)])"

definition Encode :: "string list \<Rightarrow> string" where
  "Encode tags = Join_with CHR '';'' (sort (remdups (filter (\<lambda>t. t \<noteq> '''') (map TrimSpace tags))))"

definition Decode :: "string \<Rightarrow> string list" where
  "Decode s = (if s = '''' then [] else filter (\<lambda>p. p \<noteq> '''') (map TrimSpace (Split_on CHR '';'' s)))"

fun first_cut :: "string \<Rightarrow> string \<Rightarrow> string list \<Rightarrow> string" where
  "first_cut pre dflt [] = dflt"
| "first_cut pre dflt (t # ts) =
     (case CutPrefix t pre of
        None \<Rightarrow> first_cut pre dflt ts
      | Some name \<Rightarrow> if name = '''' then dflt else name)"

definition TemplateOf :: "string \<Rightarrow> string" where
  "TemplateOf wireTags = first_cut templatePrefix TemplateStable (Decode wireTags)"

definition ProfileOf :: "string \<Rightarrow> string" where
  "ProfileOf wireTags = first_cut profilePrefix DefaultProfile (Decode wireTags)"

definition IsOwnedBy :: "string \<Rightarrow> string \<Rightarrow> bool" where
  "IsOwnedBy wireTags scaleSetName =
     (case OwnerTag scaleSetName of
        Inl _ \<Rightarrow> False
      | Inr owner \<Rightarrow> (let decoded = Decode wireTags in Marker \<in> set decoded \<and> owner \<in> set decoded))"

section \<open>The wire format\<close>

lemma Split_on_last: "sep \<notin> set p \<Longrightarrow> Split_on sep p = [p]"
  by (induction p) auto

lemma Split_on_append: "sep \<notin> set p \<Longrightarrow> Split_on sep (p @ sep # s) = p # Split_on sep s"
  by (induction p) auto

lemma Split_Join:
  "ts \<noteq> [] \<Longrightarrow> (\<forall>t \<in> set ts. sep \<notin> set t) \<Longrightarrow> Split_on sep (Join_with sep ts) = ts"
  by (induction sep ts rule: Join_with.induct) (auto simp: Split_on_last Split_on_append)

text \<open>A tag the wire format carries unchanged.\<close>

definition wf_tag :: "string \<Rightarrow> bool" where
  "wf_tag t \<longleftrightarrow> t \<noteq> '''' \<and> CHR '';'' \<notin> set t \<and> TrimSpace t = t"

lemma Join_nonempty: "ts \<noteq> [] \<Longrightarrow> \<forall>t \<in> set ts. t \<noteq> [] \<Longrightarrow> Join_with sep ts \<noteq> []"
  by (induction sep ts rule: Join_with.induct) auto

lemma filter_map_wf:
  "\<forall>t \<in> set ts. wf_tag t \<Longrightarrow> filter (\<lambda>p. p \<noteq> '''') (map TrimSpace ts) = ts"
  by (induction ts) (auto simp: wf_tag_def)

lemma Decode_Encode:
  assumes "\<forall>t \<in> set ts. wf_tag t"
  shows "Decode (Encode ts) = sort (remdups ts)"
proof -
  let ?ts = "sort (remdups ts)"
  have E: "Encode ts = Join_with CHR '';'' ?ts"
    unfolding Encode_def filter_map_wf [OF assms] ..
  have wf: "\<forall>t \<in> set ?ts. wf_tag t" using assms by simp
  show ?thesis
  proof (cases "ts = []")
    case True
    then show ?thesis by (simp add: Encode_def Decode_def)
  next
    case False
    then have ne: "?ts \<noteq> []" by (metis set_empty set_remdups set_sort)
    have "Encode ts \<noteq> ''''"
      unfolding E by (rule Join_nonempty [OF ne]) (use wf in \<open>simp add: wf_tag_def\<close>)
    moreover have "Split_on CHR '';'' (Encode ts) = ?ts"
      unfolding E by (rule Split_Join [OF ne]) (use wf in \<open>simp add: wf_tag_def\<close>)
    ultimately show ?thesis using filter_map_wf [OF wf] by (simp add: Decode_def)
  qed
qed

section \<open>Sanitised names\<close>

definition tag_char :: "char \<Rightarrow> bool" where
  "tag_char c \<longleftrightarrow> lower c \<or> digit c \<or> c = CHR ''-''"

lemmas char_le = less_eq_char_def

lemma tag_char_plain: "tag_char c \<Longrightarrow> c \<noteq> CHR '';'' \<and> \<not> ascii_space c \<and> to_lower c = c"
  by (auto simp: tag_char_def lower_def upper_def digit_def ascii_space_def to_lower_def char_le)

lemma sanitize_char_tag: "tag_char (sanitize_char c)"
  by (simp add: sanitize_char_def tag_char_def)

lemma dropWhile_none: "\<forall>c \<in> set s. \<not> P c \<Longrightarrow> dropWhile P s = s"
  by (cases s) auto

lemma TrimSpace_tag: "\<forall>c \<in> set s. tag_char c \<Longrightarrow> TrimSpace s = s"
  unfolding TrimSpace_def by (simp add: dropWhile_none tag_char_plain)

lemma Trim_hyphen_subset: "set (Trim_hyphen s) \<subseteq> set s"
  unfolding Trim_hyphen_def by (auto dest!: set_dropWhileD)

lemma sanitize_tag: "\<forall>c \<in> set (sanitize s). tag_char c"
  unfolding sanitize_def using Trim_hyphen_subset [of "map (sanitize_char \<circ> to_lower) s"]
  by (auto simp: sanitize_char_tag)

text \<open>Names that \<^verbatim>\<open>sanitize\<close> leaves alone.\<close>

definition canonical :: "string \<Rightarrow> bool" where
  "canonical s \<longleftrightarrow> s \<noteq> '''' \<and> list_all tag_char s \<and> hd s \<noteq> CHR ''-'' \<and> last s \<noteq> CHR ''-''"

lemma sanitize_canonical:
  assumes "canonical s"
  shows "sanitize s = s"
proof -
  have "map (sanitize_char \<circ> to_lower) s = s"
    using assms by (intro map_idI)
      (auto simp: canonical_def list_all_iff tag_char_plain sanitize_char_def tag_char_def)
  moreover have "dropWhile (\<lambda>c. c = CHR ''-'') s = s"
    using assms by (cases s) (auto simp: canonical_def)
  moreover have "dropWhile (\<lambda>c. c = CHR ''-'') (rev s) = rev s"
    using assms by (cases s rule: rev_cases) (auto simp: canonical_def)
  ultimately show ?thesis by (simp add: sanitize_def Trim_hyphen_def)
qed

lemma prefix_wf:
  assumes "pre \<in> {ownerPrefix, profilePrefix, templatePrefix}" and "\<forall>c \<in> set s. tag_char c"
  shows "wf_tag (pre @ s)"
proof -
  have "\<forall>c \<in> set pre. tag_char c" and "pre \<noteq> ''''"
    using assms(1)
    by (auto simp: ownerPrefix_def profilePrefix_def templatePrefix_def tag_char_def lower_def char_le)
  with assms(2) have "\<forall>c \<in> set (pre @ s). tag_char c" by auto
  with \<open>pre \<noteq> ''''\<close> show ?thesis
    unfolding wf_tag_def using TrimSpace_tag [of "pre @ s"] tag_char_plain by blast
qed

lemma Marker_wf: "wf_tag Marker"
  by (simp add: wf_tag_def Marker_def TrimSpace_def ascii_space_def)

section \<open>The tags of a new VM\<close>

lemma CutPrefix_append: "CutPrefix (p @ s) p = Some s"
  by (induction p) auto

lemma CutPrefix_disjoint:
  "CutPrefix Marker profilePrefix = None" "CutPrefix Marker templatePrefix = None"
  "CutPrefix (ownerPrefix @ s) profilePrefix = None" "CutPrefix (ownerPrefix @ s) templatePrefix = None"
  "CutPrefix (templatePrefix @ s) profilePrefix = None" "CutPrefix (profilePrefix @ s) templatePrefix = None"
  by (simp_all add: Marker_def ownerPrefix_def profilePrefix_def templatePrefix_def)

lemma first_cut_unique:
  assumes "pre @ name \<in> set ts" and "\<forall>t \<in> set ts. CutPrefix t pre \<noteq> None \<longrightarrow> t = pre @ name"
  shows "first_cut pre dflt ts = (if name = '''' then dflt else name)"
  using assms
proof (induction ts)
  case (Cons t ts)
  show ?case
  proof (cases "t = pre @ name")
    case True
    then show ?thesis by (simp add: CutPrefix_append)
  next
    case False
    with Cons.prems have "CutPrefix t pre = None" by auto
    with False Cons show ?thesis by simp
  qed
qed simp

lemma Initial_Decode:
  assumes "Initial ss p c = Inr ts"
  shows "set (Decode (Encode ts)) = {Marker, ownerPrefix @ sanitize ss, ProfileTag p, TemplateTag c}"
proof -
  have ts: "ts = [Marker, ownerPrefix @ sanitize ss, ProfileTag p, TemplateTag c]"
    using assms by (auto simp: Initial_def OwnerTag_def TemplateTag_def TemplateStable_def split: if_splits)
  have "\<forall>t \<in> set ts. wf_tag t"
    using Marker_wf prefix_wf [OF _ sanitize_tag]
    by (auto simp: ts ProfileTag_def TemplateTag_def)
  from Decode_Encode [OF this] show ?thesis by (auto simp: ts)
qed

lemma ProfileOf_Initial:
  assumes "Initial ss p c = Inr ts"
  shows "ProfileOf (Encode ts) =
    (let n = sanitize (if p = '''' then DefaultProfile else p) in if n = '''' then DefaultProfile else n)"
  unfolding ProfileOf_def Let_def
  by (rule first_cut_unique)
    (use Initial_Decode [OF assms] CutPrefix_disjoint in \<open>auto simp: ProfileTag_def TemplateTag_def\<close>)

lemma TemplateOf_Initial:
  assumes "Initial ss p c = Inr ts"
  shows "TemplateOf (Encode ts) =
    (let n = sanitize (if c = '''' then TemplateStable else c) in if n = '''' then TemplateStable else n)"
  unfolding TemplateOf_def Let_def
  by (rule first_cut_unique)
    (use Initial_Decode [OF assms] CutPrefix_disjoint in \<open>auto simp: ProfileTag_def TemplateTag_def\<close>)

text \<open>
  C28. Crash recovery reads back what the clone wrote: for a valid scale set name and a profile and
  template class in canonical form, the tags of a new VM, encoded on the wire and decoded again,
  give the profile, the template class and the ownership they were built from.
\<close>

theorem tags_round_trip:
  assumes "scaleSetNameRE ss" and "canonical p" and "canonical c"
  shows "\<exists>ts. Initial ss p c = Inr ts \<and> ProfileOf (Encode ts) = p \<and> TemplateOf (Encode ts) = c \<and>
    IsOwnedBy (Encode ts) ss"
proof -
  obtain ts where ts: "Initial ss p c = Inr ts" using assms(1) by (simp add: Initial_def OwnerTag_def)
  have "p \<noteq> ''''" "c \<noteq> ''''" using assms by (auto simp: canonical_def)
  then show ?thesis
    using ts ProfileOf_Initial [OF ts] TemplateOf_Initial [OF ts] Initial_Decode [OF ts] assms
    by (auto simp: sanitize_canonical IsOwnedBy_def OwnerTag_def Let_def)
qed

theorem tags_round_trip_witness:
  "\<exists>ts. Initial ''Acme.CI'' ''gpu-large'' ''candidate'' = Inr ts \<and> ProfileOf (Encode ts) = ''gpu-large'' \<and>
    TemplateOf (Encode ts) = ''candidate'' \<and> IsOwnedBy (Encode ts) ''Acme.CI''"
  by (rule tags_round_trip)
    (simp_all add: scaleSetNameRE_def canonical_def tag_char_def lower_def upper_def digit_def char_le)

text \<open>
  Ownership is decided by the sanitised name: the VMs of one scale set are claimed by another
  exactly when the two names sanitise alike, so names that differ only in case, dots or underscores
  own each other's VMs.
\<close>

theorem tags_ownership:
  assumes "Initial ss p c = Inr ts" and "scaleSetNameRE ss'"
  shows "IsOwnedBy (Encode ts) ss' \<longleftrightarrow> sanitize ss' = sanitize ss"
proof -
  have "ownerPrefix @ sanitize ss' \<noteq> Marker" "ownerPrefix @ sanitize ss' \<noteq> ProfileTag p"
    "ownerPrefix @ sanitize ss' \<noteq> TemplateTag c"
    by (simp_all add: ownerPrefix_def Marker_def ProfileTag_def profilePrefix_def TemplateTag_def
        templatePrefix_def)
  with Initial_Decode [OF assms(1)] assms(2) show ?thesis
    by (auto simp: IsOwnedBy_def OwnerTag_def Let_def)
qed

theorem tags_ownership_witness:
  "\<exists>ts. Initial ''ci.a'' ''gpu'' ''stable'' = Inr ts \<and> IsOwnedBy (Encode ts) ''CI-A''"
proof -
  have ok: "scaleSetNameRE ''ci.a''" "scaleSetNameRE ''CI-A''"
    by (simp_all add: scaleSetNameRE_def lower_def upper_def digit_def char_le)
  then obtain ts where ts: "Initial ''ci.a'' ''gpu'' ''stable'' = Inr ts"
    by (simp add: Initial_def OwnerTag_def)
  have "sanitize ''CI-A'' = sanitize ''ci.a''" by code_simp
  with tags_ownership [OF ts ok(2)] ts show ?thesis by blast
qed

end
