(* ===== verification/Router.thy ===== *)
theory Router
  imports Base
begin

text \<open>
  Label routing (\<^verbatim>\<open>internal/router/router.go\<close>): the profile a job's labels select. A nil
  \<^verbatim>\<open>*Router\<close> is \<open>None\<close>; the loop of \<^verbatim>\<open>Route\<close> over the profiles is \<open>scan_best\<close>.
\<close>

record routerProfile =
  routerName :: string
  routerLabels :: "string list"

record normalisedProfile =
  name :: string
  labels :: "string set"
  labelsRaw :: "string list"

record Router =
  profiles :: "normalisedProfile list"

datatype router_error = ErrNoMatchingProfile | ErrProfileNameRequired nat | ErrDuplicateProfile string

definition normalise :: "routerProfile \<Rightarrow> normalisedProfile" where
  "normalise p = \<lparr>name = routerName p, labels = set (routerLabels p), labelsRaw = routerLabels p\<rparr>"

fun router_build ::
  "nat \<Rightarrow> string set \<Rightarrow> normalisedProfile list \<Rightarrow> routerProfile list \<Rightarrow> router_error + normalisedProfile list" where
  "router_build i seen acc [] = Inr acc"
| "router_build i seen acc (p # ps) =
     (if routerName p = '''' then Inl (ErrProfileNameRequired i)
      else if routerName p \<in> seen then Inl (ErrDuplicateProfile (routerName p))
      else router_build (Suc i) (insert (routerName p) seen) (acc @ [normalise p]) ps)"

definition router_New :: "routerProfile list \<Rightarrow> router_error + Router" where
  "router_New ps =
     (case router_build 0 {} [] ps of
        Inl e \<Rightarrow> Inl e
      | Inr nps \<Rightarrow> Inr \<lparr>profiles = nps\<rparr>)"

fun containsAll :: "string set \<Rightarrow> string list \<Rightarrow> bool" where
  "containsAll haveSet [] = True"
| "containsAll haveSet (w # ws) = (if w \<notin> haveSet then False else containsAll haveSet ws)"

definition extra :: "string list \<Rightarrow> normalisedProfile \<Rightarrow> int" where
  "extra jobLabels p = max (int (card (labels p)) - int (length jobLabels)) 0"

definition Route :: "Router option \<Rightarrow> string list \<Rightarrow> router_error + string" where
  "Route r jobLabels =
     (case r of
        None \<Rightarrow> Inl ErrNoMatchingProfile
      | Some rt \<Rightarrow>
          if profiles rt = [] then Inl ErrNoMatchingProfile
          else
            case scan_best (\<lambda>p. containsAll (labels p) jobLabels)
                   (\<lambda>p b. extra jobLabels p < extra jobLabels b) None (profiles rt) of
              None \<Rightarrow> Inl ErrNoMatchingProfile
            | Some p \<Rightarrow> Inr (name p))"

definition CoverageGaps :: "Router option \<Rightarrow> string list \<Rightarrow> string list" where
  "CoverageGaps r scaleSetLabels =
     (case r of
        None \<Rightarrow> scaleSetLabels
      | Some rt \<Rightarrow> filter (\<lambda>l. l \<notin> (\<Union>p \<in> set (profiles rt). labels p)) scaleSetLabels)"

section \<open>Construction\<close>

lemma router_build_Inr:
  "router_build i seen acc ps = Inr nps \<Longrightarrow>
     nps = acc @ map normalise ps \<and> distinct (map routerName ps) \<and>
     (\<forall>p \<in> set ps. routerName p \<noteq> '''' \<and> routerName p \<notin> seen)"
  by (induction i seen acc ps rule: router_build.induct) (auto split: if_splits)

lemma router_build_ok:
  "distinct (map routerName ps) \<Longrightarrow> \<forall>p \<in> set ps. routerName p \<noteq> '''' \<and> routerName p \<notin> seen \<Longrightarrow>
     router_build i seen acc ps = Inr (acc @ map normalise ps)"
proof (induction i seen acc ps rule: router_build.induct)
  case (2 i seen acc p ps)
  then have "\<forall>q \<in> set ps. routerName q \<noteq> routerName p" by (metis distinct.simps(2) imageI list.map(2) set_map)
  with 2 show ?case by simp
qed simp

lemma containsAll_iff: "containsAll h ws \<longleftrightarrow> set ws \<subseteq> h"
  by (induction h ws rule: containsAll.induct) auto

lemma router_New_Inr:
  "router_New ps = Inr rt \<longleftrightarrow> distinct (map routerName ps) \<and> (\<forall>p \<in> set ps. routerName p \<noteq> '''') \<and>
     rt = \<lparr>profiles = map normalise ps\<rparr>"
  using router_build_Inr [of 0 "{}" "[]" ps] router_build_ok [of ps "{}" 0 "[]"]
  by (auto simp: router_New_def split: sum.splits)

text \<open>
  Routing of a job: the router picks a profile whose labels include every label the job asks
  for; no such profile declared before it has as few extra labels and none after it has fewer; and
  it reports no match exactly when no profile covers the labels.
\<close>

theorem route_most_specific:
  assumes "router_New ps = Inr rt"
  shows "case Route (Some rt) jobLabels of
      Inl e \<Rightarrow> e = ErrNoMatchingProfile \<and> (\<forall>p \<in> set ps. \<not> set jobLabels \<subseteq> set (routerLabels p))
    | Inr n \<Rightarrow> (\<exists>pre p post. ps = pre @ p # post \<and> routerName p = n \<and> set jobLabels \<subseteq> set (routerLabels p) \<and>
        (\<forall>q \<in> set pre. set jobLabels \<subseteq> set (routerLabels q) \<longrightarrow>
           extra jobLabels (normalise p) < extra jobLabels (normalise q)) \<and>
        (\<forall>q \<in> set post. set jobLabels \<subseteq> set (routerLabels q) \<longrightarrow>
           extra jobLabels (normalise p) \<le> extra jobLabels (normalise q)))"
proof -
  let ?ok = "\<lambda>p. containsAll (labels p) jobLabels" and ?nps = "map normalise ps"
  let ?scan = "scan_best ?ok (\<lambda>p b. extra jobLabels p < extra jobLabels b) None ?nps"
  have rt: "profiles rt = ?nps" using assms by (simp add: router_New_Inr)
  have ok: "?ok (normalise p) \<longleftrightarrow> set jobLabels \<subseteq> set (routerLabels p)" for p
    by (simp add: containsAll_iff normalise_def)
  show ?thesis
  proof (cases ?scan)
    case None
    then have "Route (Some rt) jobLabels = Inl ErrNoMatchingProfile" by (simp add: Route_def rt)
    moreover have "\<forall>p \<in> set ps. \<not> ?ok (normalise p)" using None by (simp add: scan_best_None)
    ultimately show ?thesis by (simp add: ok)
  next
    case (Some np)
    then obtain pre post where s: "?nps = pre @ np # post" "?ok np"
      "\<And>x. x \<in> set pre \<Longrightarrow> ?ok x \<Longrightarrow> extra jobLabels np < extra jobLabels x"
      "\<And>x. x \<in> set post \<Longrightarrow> ?ok x \<Longrightarrow> extra jobLabels np \<le> extra jobLabels x"
      by (rule scan_best_least [where key = "extra jobLabels", rotated]) auto
    from s(1) obtain us p vs where p: "ps = us @ p # vs" "pre = map normalise us" "np = normalise p"
      "post = map normalise vs"
      by (auto simp: map_eq_append_conv)
    have "Route (Some rt) jobLabels = Inr (routerName p)"
      using Some s(1) p(3) by (auto simp: Route_def rt normalise_def)
    moreover have "\<forall>q \<in> set us. set jobLabels \<subseteq> set (routerLabels q) \<longrightarrow>
        extra jobLabels (normalise p) < extra jobLabels (normalise q)"
      "\<forall>q \<in> set vs. set jobLabels \<subseteq> set (routerLabels q) \<longrightarrow>
        extra jobLabels (normalise p) \<le> extra jobLabels (normalise q)"
      using s(3,4) p ok by auto
    ultimately show ?thesis using p(1,3) s(2) ok by auto
  qed
qed

definition ex_profiles :: "routerProfile list" where
  "ex_profiles = [\<lparr>routerName = ''gpu'', routerLabels = [''linux'', ''x64'', ''gpu'']\<rparr>,
     \<lparr>routerName = ''std'', routerLabels = [''linux'', ''x64'']\<rparr>]"

theorem route_most_specific_witness:
  "Route (Some \<lparr>profiles = map normalise ex_profiles\<rparr>) [''linux''] = Inr ''std'' \<and>
   (\<exists>pre p post. ex_profiles = pre @ p # post \<and> routerName p = ''std'' \<and>
     (\<forall>q \<in> set pre. {''linux''} \<subseteq> set (routerLabels q) \<longrightarrow>
        extra [''linux''] (normalise p) < extra [''linux''] (normalise q)))"
proof -
  have "router_New ex_profiles = Inr \<lparr>profiles = map normalise ex_profiles\<rparr>"
    by (simp add: router_New_Inr ex_profiles_def)
  from route_most_specific [OF this, of "[''linux'']"]
  have "case Route (Some \<lparr>profiles = map normalise ex_profiles\<rparr>) [''linux''] of Inl e \<Rightarrow> False
    | Inr n \<Rightarrow> \<exists>pre p post. ex_profiles = pre @ p # post \<and> routerName p = n \<and>
     (\<forall>q \<in> set pre. {''linux''} \<subseteq> set (routerLabels q) \<longrightarrow>
        extra [''linux''] (normalise p) < extra [''linux''] (normalise q))"
    by (simp add: ex_profiles_def split: sum.splits) blast
  moreover have "Route (Some \<lparr>profiles = map normalise ex_profiles\<rparr>) [''linux''] = Inr ''std''"
    by (simp add: Route_def ex_profiles_def normalise_def extra_def)
  ultimately show ?thesis by simp
qed

text \<open>
  The gaps a configuration check reports: the labels of the scale set that no profile declares, so
  that with no gap each single label is routable.
\<close>

lemma CoverageGaps_route:
  assumes "router_New ps = Inr rt" and "l \<in> set scaleSetLabels"
  shows "l \<notin> set (CoverageGaps (Some rt) scaleSetLabels) \<longleftrightarrow> is_ok (Route (Some rt) [l])"
proof -
  have rt: "profiles rt = map normalise ps" using assms(1) by (simp add: router_New_Inr)
  have "l \<notin> set (CoverageGaps (Some rt) scaleSetLabels) \<longleftrightarrow> (\<exists>p \<in> set ps. l \<in> set (routerLabels p))"
    using assms(2) by (auto simp: CoverageGaps_def rt normalise_def)
  moreover have "is_ok (Route (Some rt) [l]) \<longleftrightarrow>
    scan_best (\<lambda>p. containsAll (labels p) [l]) (\<lambda>p b. extra [l] p < extra [l] b) None (profiles rt) \<noteq> None"
    by (auto simp: Route_def split: option.split)
  moreover have "\<dots> \<longleftrightarrow> (\<exists>p \<in> set ps. l \<in> set (routerLabels p))"
    unfolding scan_best_None by (auto simp: rt normalise_def)
  ultimately show ?thesis by simp
qed

end
