(* ===== verification/Priority.thy ===== *)
theory Priority
  imports Base
begin

text \<open>
  Priority classes (\<^verbatim>\<open>internal/priority/priority.go\<close>): the class a job's organisation,
  repository and labels select. A nil \<^verbatim>\<open>*Matcher\<close> is \<open>None\<close>.
\<close>

record JobInfo =
  jobOrg :: string
  jobRepo :: string
  WorkflowLabels :: "string list"

record Match =
  WorkflowLabel :: string
  matchRepo :: string
  matchOrg :: string

record Class =
  className :: string
  ClassMatch :: Match
  Weight :: int
  Preempt :: bool

record Matcher =
  classes :: "Class list"

datatype priority_error = ErrEmptyClassName nat | ErrDuplicateClass string

definition no_match :: Match where
  "no_match = \<lparr>WorkflowLabel = '''', matchRepo = '''', matchOrg = ''''\<rparr>"

definition ZeroClass :: Class where
  "ZeroClass = \<lparr>className = ''default'', ClassMatch = no_match, Weight = 0, Preempt = False\<rparr>"

fun matcher_build :: "nat \<Rightarrow> string set \<Rightarrow> Class list \<Rightarrow> Class list \<Rightarrow> priority_error + Class list" where
  "matcher_build i seen out [] = Inr out"
| "matcher_build i seen out (c # cs) =
     (if className c = '''' then Inl (ErrEmptyClassName i)
      else if className c \<in> seen then Inl (ErrDuplicateClass (className c))
      else matcher_build (Suc i) (insert (className c) seen) (out @ [c]) cs)"

definition matcher_New :: "Class list \<Rightarrow> priority_error + Matcher" where
  "matcher_New cs =
     (case matcher_build 0 {} [] cs of
        Inl e \<Rightarrow> Inl e
      | Inr out \<Rightarrow> Inr \<lparr>classes = out\<rparr>)"

definition satisfies :: "Match \<Rightarrow> JobInfo \<Rightarrow> bool" where
  "satisfies s info =
     (if matchOrg s \<noteq> '''' \<and> matchOrg s \<noteq> jobOrg info then False
      else if matchRepo s \<noteq> '''' \<and> matchRepo s \<noteq> jobRepo info then False
      else if WorkflowLabel s \<noteq> '''' \<and> WorkflowLabel s \<notin> set (WorkflowLabels info) then False
      else True)"

definition specificity :: "Match \<Rightarrow> int" where
  "specificity s =
     (if matchOrg s \<noteq> '''' then 1 else 0) + (if matchRepo s \<noteq> '''' then 1 else 0) +
     (if WorkflowLabel s \<noteq> '''' then 1 else 0)"

definition Classify :: "Matcher option \<Rightarrow> JobInfo \<Rightarrow> Class" where
  "Classify m info =
     (case m of
        None \<Rightarrow> ZeroClass
      | Some mt \<Rightarrow>
          if classes mt = [] then ZeroClass
          else
            case scan_best (\<lambda>c. satisfies (ClassMatch c) info)
                   (\<lambda>c b. specificity (ClassMatch c) > specificity (ClassMatch b)) None (classes mt) of
              None \<Rightarrow> ZeroClass
            | Some c \<Rightarrow> c)"

definition Classes :: "Matcher option \<Rightarrow> Class list" where
  "Classes m = (case m of None \<Rightarrow> [] | Some mt \<Rightarrow> classes mt)"

lemma matcher_build_Inr:
  "matcher_build i seen out cs = Inr cs' \<Longrightarrow>
     cs' = out @ cs \<and> distinct (map className cs) \<and>
     (\<forall>c \<in> set cs. className c \<noteq> '''' \<and> className c \<notin> seen)"
  by (induction i seen out cs rule: matcher_build.induct) (auto split: if_splits)

text \<open>
  Classification of a job: when some class's selector matches, the result is a matching class
  of highest specificity, the first declared among those; when none matches (or no class is
  declared) it is the zero class. A built matcher has unique, non-empty class names.
\<close>

theorem classify_most_specific:
  assumes "matcher_New cs = Inr mt"
  shows "Classes (Some mt) = cs \<and> distinct (map className cs) \<and>
    ((\<forall>c \<in> set cs. \<not> satisfies (ClassMatch c) info) \<and> Classify (Some mt) info = ZeroClass \<or>
     (\<exists>pre c post. cs = pre @ c # post \<and> Classify (Some mt) info = c \<and> satisfies (ClassMatch c) info \<and>
       (\<forall>d \<in> set pre. satisfies (ClassMatch d) info \<longrightarrow> specificity (ClassMatch d) < specificity (ClassMatch c)) \<and>
       (\<forall>d \<in> set post. satisfies (ClassMatch d) info \<longrightarrow> specificity (ClassMatch d) \<le> specificity (ClassMatch c))))"
proof -
  let ?ok = "\<lambda>c. satisfies (ClassMatch c) info"
  let ?scan = "scan_best ?ok (\<lambda>c b. specificity (ClassMatch c) > specificity (ClassMatch b)) None cs"
  have mt: "classes mt = cs" "distinct (map className cs)"
    using assms matcher_build_Inr [of 0 "{}" "[]" cs] by (auto simp: matcher_New_def split: sum.splits)
  show ?thesis
  proof (cases ?scan)
    case None
    then have "Classify (Some mt) info = ZeroClass" by (simp add: Classify_def mt(1))
    moreover have "\<forall>c \<in> set cs. \<not> ?ok c" using None by (simp add: scan_best_None)
    ultimately show ?thesis using mt by (simp add: Classes_def)
  next
    case (Some c)
    then obtain pre post where s: "cs = pre @ c # post" "?ok c"
      "\<And>x. x \<in> set pre \<Longrightarrow> ?ok x \<Longrightarrow> - specificity (ClassMatch c) < - specificity (ClassMatch x)"
      "\<And>x. x \<in> set post \<Longrightarrow> ?ok x \<Longrightarrow> - specificity (ClassMatch c) \<le> - specificity (ClassMatch x)"
      by (rule scan_best_least [where key = "\<lambda>c. - specificity (ClassMatch c)", rotated]) auto
    have "Classify (Some mt) info = c" using Some s(1) by (auto simp: Classify_def mt(1))
    with s mt show ?thesis by (auto simp: Classes_def)
  qed
qed

definition ex_classes :: "Class list" where
  "ex_classes = [\<lparr>className = ''any'', ClassMatch = no_match, Weight = 1, Preempt = False\<rparr>,
     \<lparr>className = ''acme'', ClassMatch = no_match\<lparr>matchOrg := ''acme''\<rparr>, Weight = 5, Preempt = True\<rparr>]"

theorem classify_most_specific_witness:
  "Classes (Some \<lparr>classes = ex_classes\<rparr>) = ex_classes \<and>
   className (Classify (Some \<lparr>classes = ex_classes\<rparr>)
     \<lparr>jobOrg = ''acme'', jobRepo = ''x'', WorkflowLabels = []\<rparr>) = ''acme''"
proof -
  have "matcher_New ex_classes = Inr \<lparr>classes = ex_classes\<rparr>"
    by (simp add: matcher_New_def ex_classes_def)
  from classify_most_specific [OF this, of "\<lparr>jobOrg = ''acme'', jobRepo = ''x'', WorkflowLabels = []\<rparr>"]
  show ?thesis
    by (simp add: ex_classes_def satisfies_def no_match_def Classify_def specificity_def)
qed

end
