(* ===== verification/Quotas.thy ===== *)
theory Quotas
  imports Base
begin

text \<open>
  Concurrency caps per organisation and repository (\<^verbatim>\<open>internal/quotas/quotas.go\<close>). A nil
  \<^verbatim>\<open>*Resolver\<close> is \<open>None\<close>; the override indexes are Go maps, here partial functions filled in
  declaration order.
\<close>

record Override =
  overrideOrg :: string
  overrideRepo :: string
  overrideMaxConcurrent :: int

record quotas_Config =
  DefaultPerRepo :: int
  DefaultPerOrg :: int
  Overrides :: "Override list"

datatype quotas_error =
    ErrAmbiguousOverride nat | ErrOverrideNegative nat | ErrDefaultPerRepoNegative | ErrDefaultPerOrgNegative

fun validate_overrides :: "nat \<Rightarrow> Override list \<Rightarrow> quotas_error option" where
  "validate_overrides i [] = None"
| "validate_overrides i (ov # ovs) =
     (let hasOrg = overrideOrg ov \<noteq> ''''; hasRepo = overrideRepo ov \<noteq> '''' in
      if hasOrg = hasRepo then Some (ErrAmbiguousOverride i)
      else if overrideMaxConcurrent ov < 0 then Some (ErrOverrideNegative i)
      else validate_overrides (Suc i) ovs)"

definition quotas_Validate :: "quotas_Config \<Rightarrow> quotas_error option" where
  "quotas_Validate c =
     (case validate_overrides 0 (Overrides c) of
        Some e \<Rightarrow> Some e
      | None \<Rightarrow>
          if DefaultPerRepo c < 0 then Some ErrDefaultPerRepoNegative
          else if DefaultPerOrg c < 0 then Some ErrDefaultPerOrgNegative
          else None)"

record Resolver =
  cfg :: quotas_Config
  byRepo :: "string \<rightharpoonup> int"
  byOrg :: "string \<rightharpoonup> int"
  enabled :: bool

fun index_overrides ::
  "(string \<rightharpoonup> int) \<Rightarrow> (string \<rightharpoonup> int) \<Rightarrow> Override list \<Rightarrow> (string \<rightharpoonup> int) \<times> (string \<rightharpoonup> int)" where
  "index_overrides r g [] = (r, g)"
| "index_overrides r g (ov # ovs) =
     (if overrideRepo ov \<noteq> '''' then index_overrides (r(overrideRepo ov \<mapsto> overrideMaxConcurrent ov)) g ovs
      else if overrideOrg ov \<noteq> '''' then index_overrides r (g(overrideOrg ov \<mapsto> overrideMaxConcurrent ov)) ovs
      else index_overrides r g ovs)"

definition quotas_New :: "quotas_Config \<Rightarrow> quotas_error + Resolver" where
  "quotas_New c =
     (case quotas_Validate c of
        Some e \<Rightarrow> Inl e
      | None \<Rightarrow>
          (let (r, g) = index_overrides Map.empty Map.empty (Overrides c) in
           Inr \<lparr>cfg = c, byRepo = r, byOrg = g,
                enabled = (DefaultPerRepo c > 0 \<or> DefaultPerOrg c > 0 \<or> length (Overrides c) > 0)\<rparr>))"

definition Enabled :: "Resolver option \<Rightarrow> bool" where
  "Enabled r = (case r of None \<Rightarrow> False | Some rs \<Rightarrow> enabled rs)"

datatype Scope = ScopeRepo | ScopeOrg | ScopeNone

record Result =
  resultScope :: Scope
  resultName :: string
  Cap :: int

definition no_cap :: Result where
  "no_cap = \<lparr>resultScope = ScopeNone, resultName = '''', Cap = 0\<rparr>"

definition Resolve :: "Resolver option \<Rightarrow> string \<Rightarrow> string \<Rightarrow> Result" where
  "Resolve r org repo =
     (case r of
        None \<Rightarrow> no_cap
      | Some rs \<Rightarrow>
          if \<not> enabled rs then no_cap
          else if repo \<noteq> '''' \<and> byRepo rs repo \<noteq> None then
            \<lparr>resultScope = ScopeRepo, resultName = repo, Cap = the (byRepo rs repo)\<rparr>
          else if org \<noteq> '''' \<and> byOrg rs org \<noteq> None then
            \<lparr>resultScope = ScopeOrg, resultName = org, Cap = the (byOrg rs org)\<rparr>
          else if repo \<noteq> '''' \<and> DefaultPerRepo (cfg rs) > 0 then
            \<lparr>resultScope = ScopeRepo, resultName = repo, Cap = DefaultPerRepo (cfg rs)\<rparr>
          else if org \<noteq> '''' \<and> DefaultPerOrg (cfg rs) > 0 then
            \<lparr>resultScope = ScopeOrg, resultName = org, Cap = DefaultPerOrg (cfg rs)\<rparr>
          else no_cap)"

text \<open>
  The reference: the last override of a key is the one that counts, a repository override comes
  before an organisation override, and both before the defaults.
\<close>

definition last_cap :: "(Override \<Rightarrow> string) \<Rightarrow> Override list \<Rightarrow> string \<Rightarrow> int option" where
  "last_cap key ovs k = map_option overrideMaxConcurrent (find (\<lambda>ov. key ov = k) (rev ovs))"

definition effective_cap :: "quotas_Config \<Rightarrow> string \<Rightarrow> string \<Rightarrow> Result" where
  "effective_cap c org repo =
     (case (if repo = '''' then None else last_cap overrideRepo (Overrides c) repo) of
        Some n \<Rightarrow> \<lparr>resultScope = ScopeRepo, resultName = repo, Cap = n\<rparr>
      | None \<Rightarrow>
          (case (if org = '''' then None else last_cap overrideOrg (Overrides c) org) of
             Some n \<Rightarrow> \<lparr>resultScope = ScopeOrg, resultName = org, Cap = n\<rparr>
           | None \<Rightarrow>
               if repo \<noteq> '''' \<and> DefaultPerRepo c > 0 then
                 \<lparr>resultScope = ScopeRepo, resultName = repo, Cap = DefaultPerRepo c\<rparr>
               else if org \<noteq> '''' \<and> DefaultPerOrg c > 0 then
                 \<lparr>resultScope = ScopeOrg, resultName = org, Cap = DefaultPerOrg c\<rparr>
               else no_cap))"

lemma last_cap_Cons:
  "last_cap key (ov # ovs) k =
     (case last_cap key ovs k of
        Some n \<Rightarrow> Some n
      | None \<Rightarrow> if key ov = k then Some (overrideMaxConcurrent ov) else None)"
  by (simp add: last_cap_def find_append split: option.split)

lemma validate_overrides_None:
  "validate_overrides i ovs = None \<longleftrightarrow>
     (\<forall>ov \<in> set ovs. (overrideOrg ov = '''') \<noteq> (overrideRepo ov = '''') \<and> 0 \<le> overrideMaxConcurrent ov)"
  by (induction i ovs rule: validate_overrides.induct) (auto simp: Let_def)

lemma index_overrides_lookup:
  assumes "validate_overrides i ovs = None" and "index_overrides r g ovs = (r', g')" and "k \<noteq> ''''"
  shows "r' k = (case last_cap overrideRepo ovs k of Some n \<Rightarrow> Some n | None \<Rightarrow> r k) \<and>
    g' k = (case last_cap overrideOrg ovs k of Some n \<Rightarrow> Some n | None \<Rightarrow> g k)"
  using assms
proof (induction r g ovs arbitrary: i rule: index_overrides.induct)
  case (1 r g)
  then show ?case by (simp add: last_cap_def)
next
  case (2 r g ov ovs)
  from 2(4) have v: "validate_overrides 0 ovs = None" "(overrideOrg ov = '''') \<noteq> (overrideRepo ov = '''')"
    unfolding validate_overrides_None by auto
  show ?case
  proof (cases "overrideRepo ov = ''''")
    case True
    with v(2) have "overrideOrg ov \<noteq> ''''" by simp
    then have "index_overrides r (g(overrideOrg ov \<mapsto> overrideMaxConcurrent ov)) ovs = (r', g')"
      using 2(5) True by simp
    from 2(2) [OF _ _ v(1) this 2(6)] True \<open>overrideOrg ov \<noteq> ''''\<close> 2(6) show ?thesis
      by (simp add: last_cap_Cons split: option.split)
  next
    case False
    then have "index_overrides (r(overrideRepo ov \<mapsto> overrideMaxConcurrent ov)) g ovs = (r', g')"
      using 2(5) by simp
    from 2(1) [OF False v(1) this 2(6)] False v(2) 2(6) show ?thesis
      by (simp add: last_cap_Cons split: option.split)
  qed
qed

lemma last_cap_in: "last_cap key ovs k = Some n \<Longrightarrow> \<exists>ov \<in> set ovs. overrideMaxConcurrent ov = n"
  using find_SomeD [of "\<lambda>ov. key ov = k" "rev ovs"] by (auto simp: last_cap_def)

lemma quotas_New_Inr:
  assumes "quotas_New c = Inr rs"
  shows "(\<forall>ov \<in> set (Overrides c). 0 \<le> overrideMaxConcurrent ov) \<and> cfg rs = c \<and>
    (k \<noteq> '''' \<longrightarrow> byRepo rs k = last_cap overrideRepo (Overrides c) k \<and>
       byOrg rs k = last_cap overrideOrg (Overrides c) k) \<and>
    (\<not> enabled rs \<longrightarrow> Overrides c = [] \<and> DefaultPerRepo c \<le> 0 \<and> DefaultPerOrg c \<le> 0)"
proof -
  obtain r g where rg: "index_overrides Map.empty Map.empty (Overrides c) = (r, g)" by fastforce
  have v: "validate_overrides 0 (Overrides c) = None"
    using assms by (auto simp: quotas_New_def quotas_Validate_def split: option.splits)
  have rs: "rs = \<lparr>cfg = c, byRepo = r, byOrg = g,
      enabled = (DefaultPerRepo c > 0 \<or> DefaultPerOrg c > 0 \<or> length (Overrides c) > 0)\<rparr>"
    using assms by (auto simp: quotas_New_def rg split: option.splits)
  show ?thesis
    using index_overrides_lookup [OF v rg] v
    by (auto simp: rs validate_overrides_None split: option.splits)
qed

text \<open>
  C29. The resolver that \<^verbatim>\<open>New\<close> builds implements one precedence for every job: the override of
  its repository, then that of its organisation, then the default per repository, and last the default
  per organisation, also for a job that names a repository; and every cap it returns is non-negative.
\<close>

theorem resolve_precedence:
  assumes "quotas_New c = Inr rs"
  shows "Resolve (Some rs) org repo = effective_cap c org repo \<and> 0 \<le> Cap (Resolve (Some rs) org repo)"
proof -
  note N = quotas_New_Inr [OF assms]
  have eq: "Resolve (Some rs) org repo = effective_cap c org repo"
    using N [of org] N [of repo]
    by (cases "enabled rs")
      (auto simp: Resolve_def effective_cap_def last_cap_def split: option.split)
  have "0 \<le> n" if "last_cap key (Overrides c) k = Some n" for key k n
    using N last_cap_in [OF that] by auto
  then have "0 \<le> Cap (effective_cap c org repo)"
    by (auto simp: effective_cap_def no_cap_def split: option.split)
  with eq show ?thesis by simp
qed

text \<open>The default per organisation is not kept to jobs with only an organisation.\<close>

theorem org_default_caps_repo_jobs:
  assumes "quotas_New c = Inr rs" "Overrides c = []" "DefaultPerRepo c = 0" "0 < DefaultPerOrg c" "org \<noteq> ''''"
  shows "Resolve (Some rs) org repo = \<lparr>resultScope = ScopeOrg, resultName = org, Cap = DefaultPerOrg c\<rparr>"
proof -
  note N = quotas_New_Inr [OF assms(1)]
  have "Resolve (Some rs) org repo = effective_cap c org repo"
    using N [of org] N [of repo]
    by (cases "enabled rs")
      (auto simp: Resolve_def effective_cap_def last_cap_def split: option.split)
  then show ?thesis using assms(2-5) by (simp add: effective_cap_def last_cap_def)
qed

definition ex_quotas :: quotas_Config where
  "ex_quotas = \<lparr>DefaultPerRepo = 2, DefaultPerOrg = 9,
     Overrides = [\<lparr>overrideOrg = ''acme'', overrideRepo = '''', overrideMaxConcurrent = 5\<rparr>,
       \<lparr>overrideOrg = '''', overrideRepo = ''acme/web'', overrideMaxConcurrent = 0\<rparr>]\<rparr>"

theorem resolve_precedence_witness:
  "\<exists>rs. quotas_New ex_quotas = Inr rs \<and> Cap (Resolve (Some rs) ''acme'' ''acme/web'') = 0 \<and>
     Cap (Resolve (Some rs) ''acme'' ''acme/api'') = 5 \<and> Cap (Resolve (Some rs) ''other'' ''other/x'') = 2"
proof -
  obtain rs where rs: "quotas_New ex_quotas = Inr rs"
    by (simp add: quotas_New_def quotas_Validate_def ex_quotas_def)
  show ?thesis
    using rs resolve_precedence [OF rs, of "''acme''" "''acme/web''"]
      resolve_precedence [OF rs, of "''acme''" "''acme/api''"]
      resolve_precedence [OF rs, of "''other''" "''other/x''"]
    by (intro exI [of _ rs]) (simp add: effective_cap_def last_cap_def ex_quotas_def)
qed

text \<open>
  \<^verbatim>\<open>New\<close> refuses a configuration exactly when an override names both scopes or
  neither, or a cap is negative.
\<close>

theorem quotas_New_refuses:
  "is_ok (quotas_New c) \<longleftrightarrow>
     list_all (\<lambda>ov. ((overrideOrg ov = '''') \<noteq> (overrideRepo ov = '''')) \<and> 0 \<le> overrideMaxConcurrent ov)
       (Overrides c) \<and> 0 \<le> DefaultPerRepo c \<and> 0 \<le> DefaultPerOrg c"
  using validate_overrides_None [of 0 "Overrides c"]
  by (auto simp: quotas_New_def quotas_Validate_def list_all_iff split: option.split prod.split)

end
