(* ===== verification/Ipam.thy ===== *)
theory Ipam
  imports Base
begin

text \<open>
  Static address allocation (\<^verbatim>\<open>internal/ipam/ipam.go\<close>): the contract of
  \<^verbatim>\<open>Allocator\<close> as a locale, and its two implementations \<^verbatim>\<open>Noop\<close> and
  \<^verbatim>\<open>Static\<close> as interpretations. \<^verbatim>\<open>Static\<close>'s mutex makes each call one atomic step.
\<close>

datatype ipam_error = ErrPoolEmpty | ErrDuplicateIP string | ErrPoolExhausted

section \<open>Noop and Static\<close>

definition Noop_Allocate :: "unit \<Rightarrow> int \<Rightarrow> (ipam_error + string) \<times> unit" where
  "Noop_Allocate s vmid = (Inr '''', s)"

definition Noop_Release :: "unit \<Rightarrow> int \<Rightarrow> unit" where
  "Noop_Release s vmid = s"

record Static =
  pool :: "string list"
  inMap :: "int \<rightharpoonup> string"
  used :: "string \<rightharpoonup> int"

fun first_dup :: "string set \<Rightarrow> string list \<Rightarrow> string option" where
  "first_dup seen [] = None"
| "first_dup seen (ip # ips) = (if ip \<in> seen then Some ip else first_dup (insert ip seen) ips)"

definition NewStatic :: "string list \<Rightarrow> ipam_error + Static" where
  "NewStatic ips =
     (if length ips = 0 then Inl ErrPoolEmpty
      else case first_dup {} ips of
             Some ip \<Rightarrow> Inl (ErrDuplicateIP ip)
           | None \<Rightarrow> Inr \<lparr>pool = ips, inMap = Map.empty, used = Map.empty\<rparr>)"

definition Static_Allocate :: "Static \<Rightarrow> int \<Rightarrow> (ipam_error + string) \<times> Static" where
  "Static_Allocate s vmid =
     (case inMap s vmid of
        Some existing \<Rightarrow> (Inr existing, s)
      | None \<Rightarrow>
          (case find (\<lambda>ip. used s ip = None) (pool s) of
             Some ip \<Rightarrow> (Inr ip, s\<lparr>inMap := (inMap s)(vmid \<mapsto> ip), used := (used s)(ip \<mapsto> vmid)\<rparr>)
           | None \<Rightarrow> (Inl ErrPoolExhausted, s)))"

definition Static_Release :: "Static \<Rightarrow> int \<Rightarrow> Static" where
  "Static_Release s vmid =
     (case inMap s vmid of
        Some ip \<Rightarrow> s\<lparr>used := (used s)(ip := None), inMap := (inMap s)(vmid := None)\<rparr>
      | None \<Rightarrow> s)"

section \<open>The contract of an allocator\<close>

datatype ip_op = OpAllocate int | OpRelease int

fun ip_exec :: "('s \<Rightarrow> int \<Rightarrow> (ipam_error + string) \<times> 's) \<Rightarrow> ('s \<Rightarrow> int \<Rightarrow> 's) \<Rightarrow> 's \<Rightarrow> ip_op \<Rightarrow> 's" where
  "ip_exec alloc release s (OpAllocate vmid) = snd (alloc s vmid)"
| "ip_exec alloc release s (OpRelease vmid) = release s vmid"

definition ip_run :: "('s \<Rightarrow> int \<Rightarrow> (ipam_error + string) \<times> 's) \<Rightarrow> ('s \<Rightarrow> int \<Rightarrow> 's) \<Rightarrow> 's \<Rightarrow> ip_op list \<Rightarrow> 's" where
  "ip_run alloc release s ops = foldl (ip_exec alloc release) s ops"

text \<open>
  \<open>held\<close> is the address a VM has; the empty string is no assignment. Allocation gives a VM that
  holds an address the same one again, gives any other VM one that nobody holds, and a failed one
  changes nothing; release frees the VM's address and is a no-op when it has none.
\<close>

locale allocator =
  fixes ok :: "'s \<Rightarrow> bool"
    and held :: "'s \<Rightarrow> int \<Rightarrow> string option"
    and alloc :: "'s \<Rightarrow> int \<Rightarrow> (ipam_error + string) \<times> 's"
    and release :: "'s \<Rightarrow> int \<Rightarrow> 's"
  assumes alloc_keep: "ok s \<Longrightarrow> held s v = Some ip \<Longrightarrow> alloc s v = (Inr ip, s)"
    and alloc_new: "ok s \<Longrightarrow> held s v = None \<Longrightarrow> alloc s v = (Inr ip, s') \<Longrightarrow>
      ok s' \<and> held s' = (held s)(v := if ip = '''' then None else Some ip) \<and>
      (ip = '''' \<or> (\<forall>w. held s w \<noteq> Some ip))"
    and alloc_fail: "ok s \<Longrightarrow> alloc s v = (Inl e, s') \<Longrightarrow> s' = s"
    and free: "ok s \<Longrightarrow> ok (release s v) \<and> held (release s v) = (held s)(v := None)"
begin

lemma alloc_ok: "ok s \<Longrightarrow> ok (snd (alloc s v))"
proof (cases "alloc s v")
  case (Pair r s')
  assume "ok s"
  then show ?thesis
  proof (cases "held s v"; cases r)
    fix e
    assume "r = Inl e"
    with alloc_fail [OF \<open>ok s\<close>] Pair have "s' = s" by simp
    with Pair \<open>ok s\<close> show ?thesis by simp
  next
    fix ip
    assume "held s v = None" "r = Inr ip"
    with alloc_new [OF \<open>ok s\<close>] Pair show ?thesis by simp
  next
    fix ip
    assume "held s v = Some ip"
    with alloc_keep [OF \<open>ok s\<close>] \<open>ok s\<close> show ?thesis by simp
  qed (use alloc_keep [OF \<open>ok s\<close>] \<open>ok s\<close> in simp)
qed

lemma alloc_inj:
  assumes "ok s" and "inj_on (held s) (dom (held s))"
  shows "inj_on (held (snd (alloc s v))) (dom (held (snd (alloc s v))))"
proof (cases "alloc s v")
  case (Pair r s')
  show ?thesis
  proof (cases r)
    case (Inl e)
    with alloc_fail [OF assms(1)] Pair have "s' = s" by simp
    with Pair assms(2) show ?thesis by simp
  next
    case (Inr ip)
    show ?thesis
    proof (cases "held s v")
      case None
      from alloc_new [OF assms(1) None] Pair Inr
      have "held s' = (held s)(v := if ip = '''' then None else Some ip)"
        "ip = '''' \<or> (\<forall>w. held s w \<noteq> Some ip)" by auto
      with Pair assms(2) show ?thesis
        by (auto simp: inj_on_def dom_def split: if_splits)
    next
      case (Some ip')
      with alloc_keep [OF assms(1) Some] Pair assms(2) show ?thesis by auto
    qed
  qed
qed

lemma exec_ok_inj:
  assumes "ok s" and "inj_on (held s) (dom (held s))"
  shows "ok (ip_exec alloc release s op) \<and>
    inj_on (held (ip_exec alloc release s op)) (dom (held (ip_exec alloc release s op)))"
proof (cases op)
  case (OpAllocate v)
  with alloc_ok [OF assms(1)] alloc_inj [OF assms] show ?thesis by simp
next
  case (OpRelease v)
  with free [OF assms(1), of v] assms(2) show ?thesis
    by (auto simp: inj_on_def dom_def split: if_splits)
qed

lemma run_ok_inj:
  assumes "ok s" and "inj_on (held s) (dom (held s))"
  shows "ok (ip_run alloc release s ops) \<and>
    inj_on (held (ip_run alloc release s ops)) (dom (held (ip_run alloc release s ops)))"
  using assms
proof (induction ops arbitrary: s)
  case (Cons op ops)
  from Cons.IH [OF exec_ok_inj [OF Cons.prems, THEN conjunct1] exec_ok_inj [OF Cons.prems, THEN conjunct2]]
  show ?case by (simp add: ip_run_def)
qed (simp add: ip_run_def)

end

interpretation noop: allocator "\<lambda>_. True" "\<lambda>_ _. None" Noop_Allocate Noop_Release
  by unfold_locales (auto simp: Noop_Allocate_def Noop_Release_def)

section \<open>Static implements the contract\<close>

definition wf_static :: "Static \<Rightarrow> bool" where
  "wf_static s \<longleftrightarrow> distinct (pool s) \<and> ran (inMap s) \<subseteq> set (pool s) \<and>
     (\<forall>vmid ip. inMap s vmid = Some ip \<longleftrightarrow> used s ip = Some vmid)"

definition static_held :: "Static \<Rightarrow> int \<Rightarrow> string option" where
  "static_held s vmid = (case inMap s vmid of None \<Rightarrow> None | Some ip \<Rightarrow> if ip = '''' then None else Some ip)"

lemma wf_staticD: "wf_static s \<Longrightarrow> inMap s v = Some ip \<longleftrightarrow> used s ip = Some v"
  by (simp add: wf_static_def)

lemma Static_Allocate_wf:
  assumes "wf_static s"
  shows "wf_static (snd (Static_Allocate s v))"
proof (cases "inMap s v")
  case None
  show ?thesis
  proof (cases "find (\<lambda>ip. used s ip = None) (pool s)")
    case (Some ip)
    then have ip: "ip \<in> set (pool s)" "used s ip = None" by (auto dest: find_SomeD)
    have "\<forall>ip. used s ip \<noteq> Some v" using None assms by (metis wf_staticD option.distinct(1))
    moreover have "ran ((inMap s)(v \<mapsto> ip)) \<subseteq> set (pool s)"
      using assms ip(1) by (auto simp: wf_static_def ran_def split: if_splits)
    ultimately show ?thesis
      using None Some assms ip(2) by (auto simp: Static_Allocate_def wf_static_def)
  qed (use None assms in \<open>simp add: Static_Allocate_def\<close>)
qed (use assms in \<open>simp add: Static_Allocate_def\<close>)

lemma Static_Release_wf:
  assumes "wf_static s"
  shows "wf_static (Static_Release s v) \<and> inMap (Static_Release s v) = (inMap s)(v := None)"
proof (cases "inMap s v")
  case None
  then have "(inMap s)(v := None) = inMap s" by auto
  with None assms show ?thesis by (simp add: Static_Release_def)
next
  case (Some ip)
  have "ran ((inMap s)(v := None)) \<subseteq> set (pool s)"
    using assms by (auto simp: wf_static_def ran_def split: if_splits)
  moreover have "Static_Release s v = s\<lparr>used := (used s)(ip := None), inMap := (inMap s)(v := None)\<rparr>"
    using Some by (simp add: Static_Release_def)
  moreover have "((inMap s)(v := None)) w = Some ip' \<longleftrightarrow> ((used s)(ip := None)) ip' = Some w" for w ip'
    using Some wf_staticD [OF assms, of v ip] wf_staticD [OF assms, of w ip'] wf_staticD [OF assms, of v ip']
    by (cases "w = v"; cases "ip' = ip") auto
  ultimately show ?thesis
    using assms by (simp add: wf_static_def)
qed

lemma Static_Allocate_new:
  assumes "wf_static s" and "static_held s v = None" and "Static_Allocate s v = (Inr ip, s')"
  shows "static_held s' = (static_held s)(v := if ip = '''' then None else Some ip) \<and>
    (ip = '''' \<or> (\<forall>w. static_held s w \<noteq> Some ip))"
proof (cases "inMap s v")
  case None
  with assms(3) have "used s ip = None" "s' = s\<lparr>inMap := (inMap s)(v \<mapsto> ip), used := (used s)(ip \<mapsto> v)\<rparr>"
    by (auto simp: Static_Allocate_def split: option.splits dest: find_SomeD)
  moreover from this(1) assms(1) have "\<forall>w. inMap s w \<noteq> Some ip" by (auto simp: wf_static_def)
  ultimately show ?thesis by (auto simp: static_held_def fun_eq_iff split: option.splits)
next
  case (Some ip')
  with assms(2,3) have "ip = ''''" "s' = s" by (auto simp: static_held_def Static_Allocate_def split: if_splits)
  with assms(2) show ?thesis by auto
qed

interpretation static: allocator wf_static static_held Static_Allocate Static_Release
proof
  fix s v ip
  assume "wf_static s" "static_held s v = Some ip"
  then show "Static_Allocate s v = (Inr ip, s)"
    by (auto simp: static_held_def Static_Allocate_def split: option.splits if_splits)
next
  fix s v ip s'
  assume a: "wf_static s" "static_held s v = None" "Static_Allocate s v = (Inr ip, s')"
  from Static_Allocate_wf [OF a(1), of v] a(3) have "wf_static s'" by simp
  with Static_Allocate_new [OF a]
  show "wf_static s' \<and> static_held s' = (static_held s)(v := if ip = '''' then None else Some ip) \<and>
    (ip = '''' \<or> (\<forall>w. static_held s w \<noteq> Some ip))" by blast
next
  fix s v e s'
  assume "Static_Allocate s v = (Inl e, s')"
  then show "s' = s" by (auto simp: Static_Allocate_def split: option.splits)
next
  fix s v
  assume "wf_static s"
  from Static_Release_wf [OF this, of v]
  show "wf_static (Static_Release s v) \<and> static_held (Static_Release s v) = (static_held s)(v := None)"
    by (auto simp: static_held_def fun_eq_iff)
qed

lemma first_dup_None: "first_dup seen ips = None \<longleftrightarrow> distinct ips \<and> set ips \<inter> seen = {}"
  by (induction seen ips rule: first_dup.induct) auto

lemma NewStatic_wf: "NewStatic ips = Inr s \<Longrightarrow> wf_static s \<and> pool s = ips \<and> inMap s = Map.empty"
  by (auto simp: NewStatic_def wf_static_def first_dup_None split: if_splits option.splits)

lemma ip_run_pool: "pool (ip_run Static_Allocate Static_Release s ops) = pool s"
proof (induction ops arbitrary: s)
  case (Cons op ops)
  have "pool (ip_exec Static_Allocate Static_Release s op) = pool s"
    by (cases op) (auto simp: Static_Allocate_def Static_Release_def split: option.split)
  with Cons show ?case by (simp add: ip_run_def)
qed (simp add: ip_run_def)

text \<open>
  C31. No two VMs ever hold the same static address: after any sequence of allocations and releases
  on a new \<^verbatim>\<open>Static\<close> allocator, different VMs hold different addresses, all of them from
  the configured pool.
\<close>

theorem static_no_sharing:
  assumes "NewStatic ips = Inr s0"
    and "s = ip_run Static_Allocate Static_Release s0 ops"
    and "static_held s v = Some ip"
  shows "ip \<in> set ips \<and> (\<forall>w. w \<noteq> v \<longrightarrow> static_held s w \<noteq> Some ip)"
proof -
  note N = NewStatic_wf [OF assms(1)]
  have "dom (static_held s0) = {}" using N by (auto simp: static_held_def)
  with static.run_ok_inj [of s0 ops] N have "wf_static s" "inj_on (static_held s) (dom (static_held s))"
    by (simp_all add: assms(2))
  moreover have "pool s = ips" using N ip_run_pool by (simp add: assms(2))
  moreover have "inMap s v = Some ip" using assms(3) by (auto simp: static_held_def split: option.splits if_splits)
  ultimately show ?thesis using assms(3)
    by (auto simp: wf_static_def ran_def inj_on_def dom_def)
qed

theorem static_no_sharing_witness:
  "\<exists>s0. NewStatic [''10.0.0.1'', ''10.0.0.2''] = Inr s0 \<and>
    (\<forall>w. w \<noteq> 7 \<longrightarrow> static_held (ip_run Static_Allocate Static_Release s0
       [OpAllocate 5, OpRelease 5, OpAllocate 7, OpAllocate 8]) w \<noteq> Some ''10.0.0.1'')"
proof -
  obtain s0 where s0: "NewStatic [''10.0.0.1'', ''10.0.0.2''] = Inr s0"
    by (simp add: NewStatic_def)
  have h: "static_held (ip_run Static_Allocate Static_Release s0
       [OpAllocate 5, OpRelease 5, OpAllocate 7, OpAllocate 8]) 7 = Some ''10.0.0.1''"
    using s0 by (auto simp: NewStatic_def ip_run_def Static_Allocate_def Static_Release_def static_held_def)
  from static_no_sharing [OF s0 refl h] s0 show ?thesis by blast
qed

end
