(* ===== verification/Canary.thy ===== *)
theory Canary
  imports Base Complex_Main "HOL-Library.Word"
begin

text \<open>
  Staged template rollout (\<^verbatim>\<open>internal/canary/canary.go\<close>). The controller's map of profiles is
  a partial function; each method locks the profile's state, so it is one atomic step. A
  \<^verbatim>\<open>float64\<close> is the rational number it denotes, and the one floating-point operation,
  \<^verbatim>\<open>float64(failures) / float64(clones)\<close>, is the parameter \<open>fdiv\<close>. FNV-1a and the
  big-endian encoding of the VMID are computed on 64-bit words.
\<close>

unbundle bit_operations_syntax

datatype canary_error =
    ErrUnknownProfile | ErrNoCandidate | ErrNameRequired nat | ErrDuplicateName string
  | ErrPercentRange nat | ErrRateRange nat

definition DefaultMinFailureSamples :: int where
  "DefaultMinFailureSamples = 5"

record ProfileConfig =
  cfgName :: string
  StableTemplateVMID :: int
  CandidateTemplateVMID :: int
  cfgPercent :: int
  MaxFailureRate :: rat

datatype Template = Stable | Candidate

record PickResult =
  TemplateVMID :: int
  PickTemplate :: Template

record profileState =
  stable :: int
  candidate :: int
  percent :: int
  originalPercent :: int
  maxFailureRate :: rat
  canaryClones :: int
  canaryFailures :: int
  reverted :: bool

record Controller =
  ctlProfiles :: "string \<rightharpoonup> profileState"
  minFailureSamples :: int

definition init_state :: "ProfileConfig \<Rightarrow> profileState" where
  "init_state p = \<lparr>stable = StableTemplateVMID p, candidate = CandidateTemplateVMID p,
     percent = cfgPercent p, originalPercent = cfgPercent p, maxFailureRate = MaxFailureRate p,
     canaryClones = 0, canaryFailures = 0, reverted = False\<rparr>"

fun canary_build ::
  "nat \<Rightarrow> (string \<rightharpoonup> profileState) \<Rightarrow> ProfileConfig list \<Rightarrow> canary_error + (string \<rightharpoonup> profileState)" where
  "canary_build i m [] = Inr m"
| "canary_build i m (p # ps) =
     (if cfgName p = '''' then Inl (ErrNameRequired i)
      else if m (cfgName p) \<noteq> None then Inl (ErrDuplicateName (cfgName p))
      else if cfgPercent p < 0 \<or> cfgPercent p > 100 then Inl (ErrPercentRange i)
      else if MaxFailureRate p < 0 \<or> MaxFailureRate p > 1 then Inl (ErrRateRange i)
      else canary_build (Suc i) (m(cfgName p \<mapsto> init_state p)) ps)"

definition canary_New :: "ProfileConfig list \<Rightarrow> canary_error + Controller" where
  "canary_New cfgs =
     (case canary_build 0 Map.empty cfgs of
        Inl e \<Rightarrow> Inl e
      | Inr m \<Rightarrow> Inr \<lparr>ctlProfiles = m, minFailureSamples = DefaultMinFailureSamples\<rparr>)"

definition SetMinFailureSamples :: "Controller \<Rightarrow> int \<Rightarrow> Controller" where
  "SetMinFailureSamples c n = c\<lparr>minFailureSamples := (if n < 1 then 1 else n)\<rparr>"

definition fnv_offset :: "64 word" where
  "fnv_offset = 14695981039346656037"

definition fnv_prime :: "64 word" where
  "fnv_prime = 1099511628211"

definition be_bytes :: "64 word \<Rightarrow> 64 word list" where
  "be_bytes w = map (\<lambda>k. drop_bit (8 * k) w AND 255) [7, 6, 5, 4, 3, 2, 1, 0]"

definition fnv64a :: "64 word list \<Rightarrow> 64 word" where
  "fnv64a bs = foldl (\<lambda>h b. (h XOR b) * fnv_prime) fnv_offset bs"

definition hashMod100 :: "int \<Rightarrow> int" where
  "hashMod100 vmid = uint (fnv64a (be_bytes (word_of_int vmid)) mod 100)"

definition Pick :: "Controller \<Rightarrow> string \<Rightarrow> int \<Rightarrow> canary_error + PickResult" where
  "Pick c profile vmid =
     (case ctlProfiles c profile of
        None \<Rightarrow> Inl ErrUnknownProfile
      | Some ps \<Rightarrow>
          if candidate ps = 0 \<or> percent ps = 0 then Inr \<lparr>TemplateVMID = stable ps, PickTemplate = Stable\<rparr>
          else if hashMod100 vmid < percent ps then
            Inr \<lparr>TemplateVMID = candidate ps, PickTemplate = Candidate\<rparr>
          else Inr \<lparr>TemplateVMID = stable ps, PickTemplate = Stable\<rparr>)"

definition RecordClone :: "Controller \<Rightarrow> string \<Rightarrow> Template \<Rightarrow> Controller" where
  "RecordClone c profile t =
     (if t \<noteq> Candidate then c
      else case ctlProfiles c profile of
             None \<Rightarrow> c
           | Some ps \<Rightarrow>
               c\<lparr>ctlProfiles := (ctlProfiles c)(profile \<mapsto> ps\<lparr>canaryClones := canaryClones ps + 1\<rparr>)\<rparr>)"

definition RecordFailure ::
  "(int \<Rightarrow> int \<Rightarrow> rat) \<Rightarrow> Controller \<Rightarrow> string \<Rightarrow> Template \<Rightarrow> bool \<times> Controller" where
  "RecordFailure fdiv c profile t =
     (if t \<noteq> Candidate then (False, c)
      else case ctlProfiles c profile of
             None \<Rightarrow> (False, c)
           | Some ps0 \<Rightarrow>
               (let minSamples = minFailureSamples c;
                    ps = ps0\<lparr>canaryFailures := canaryFailures ps0 + 1\<rparr>;
                    upd = (\<lambda>q. c\<lparr>ctlProfiles := (ctlProfiles c)(profile \<mapsto> q)\<rparr>) in
                if maxFailureRate ps \<le> 0 \<or> canaryClones ps < minSamples then (False, upd ps)
                else
                  (let rate = fdiv (canaryFailures ps) (canaryClones ps) in
                   if rate > maxFailureRate ps \<and> \<not> reverted ps then
                     (True, upd (ps\<lparr>reverted := True, percent := 0\<rparr>))
                   else (False, upd ps))))"

definition Promote :: "Controller \<Rightarrow> string \<Rightarrow> canary_error option \<times> Controller" where
  "Promote c profile =
     (case ctlProfiles c profile of
        None \<Rightarrow> (Some ErrUnknownProfile, c)
      | Some ps \<Rightarrow>
          if candidate ps = 0 then (Some ErrNoCandidate, c)
          else (None, c\<lparr>ctlProfiles := (ctlProfiles c)(profile \<mapsto>
                  ps\<lparr>stable := candidate ps, candidate := 0, percent := 0, originalPercent := 0,
                     canaryClones := 0, canaryFailures := 0, reverted := False\<rparr>)\<rparr>))"

definition Status :: "Controller \<Rightarrow> string \<Rightarrow> canary_error + profileState" where
  "Status c profile =
     (case ctlProfiles c profile of None \<Rightarrow> Inl ErrUnknownProfile | Some ps \<Rightarrow> Inr ps)"

section \<open>Histories of the controller\<close>

datatype canary_op =
    CSetMin int | CRecordClone string Template | CRecordFailure string Template | CPromote string

fun canary_exec :: "(int \<Rightarrow> int \<Rightarrow> rat) \<Rightarrow> Controller \<Rightarrow> canary_op \<Rightarrow> bool \<times> Controller" where
  "canary_exec fdiv c (CSetMin n) = (False, SetMinFailureSamples c n)"
| "canary_exec fdiv c (CRecordClone p t) = (False, RecordClone c p t)"
| "canary_exec fdiv c (CRecordFailure p t) = RecordFailure fdiv c p t"
| "canary_exec fdiv c (CPromote p) = (False, snd (Promote c p))"

fun canary_run :: "(int \<Rightarrow> int \<Rightarrow> rat) \<Rightarrow> Controller \<Rightarrow> canary_op list \<Rightarrow> Controller" where
  "canary_run fdiv c [] = c"
| "canary_run fdiv c (op # ops) = canary_run fdiv (snd (canary_exec fdiv c op)) ops"

text \<open>The state of a profile: the live share is the configured one or, after a revert, zero.\<close>

definition wf_state :: "profileState \<Rightarrow> bool" where
  "wf_state ps \<longleftrightarrow> 0 \<le> percent ps \<and> percent ps \<le> 100 \<and> 0 \<le> canaryClones ps \<and> 0 \<le> canaryFailures ps \<and>
     percent ps = (if reverted ps then 0 else originalPercent ps)"

definition wf_controller :: "Controller \<Rightarrow> bool" where
  "wf_controller c \<longleftrightarrow> (\<forall>p ps. ctlProfiles c p = Some ps \<longrightarrow> wf_state ps)"

lemmas canary_defs = SetMinFailureSamples_def RecordClone_def RecordFailure_def Promote_def Let_def

lemma wf_controller_upd:
  "wf_controller c \<Longrightarrow> wf_state q \<Longrightarrow> wf_controller (c\<lparr>ctlProfiles := (ctlProfiles c)(p \<mapsto> q)\<rparr>)"
  by (simp add: wf_controller_def)

lemma canary_exec_wf:
  assumes "wf_controller c"
  shows "wf_controller (snd (canary_exec fdiv c op))"
proof -
  have wf: "wf_state ps" if "ctlProfiles c p = Some ps" for p ps
    using that assms by (simp add: wf_controller_def)
  have keep: "wf_state (ps\<lparr>canaryClones := canaryClones ps + 1\<rparr>)"
    "wf_state (ps\<lparr>canaryFailures := canaryFailures ps + 1\<rparr>)"
    "wf_state (ps\<lparr>canaryFailures := canaryFailures ps + 1, reverted := True, percent := 0\<rparr>)"
    "wf_state (ps\<lparr>stable := candidate ps, candidate := 0, percent := 0, originalPercent := 0,
        canaryClones := 0, canaryFailures := 0, reverted := False\<rparr>)"
    if "wf_state ps" for ps
    using that by (simp_all add: wf_state_def)
  show ?thesis
  proof (cases op)
    case (CSetMin n)
    with assms show ?thesis by (simp add: SetMinFailureSamples_def wf_controller_def)
  qed (use assms wf keep in \<open>auto simp: canary_defs split: option.split intro!: wf_controller_upd\<close>)
qed

lemma canary_run_wf: "wf_controller c \<Longrightarrow> wf_controller (canary_run fdiv c ops)"
  by (induction fdiv c ops rule: canary_run.induct) (auto intro: canary_exec_wf)

lemma canary_build_wf:
  "canary_build i m ps = Inr m' \<Longrightarrow> (\<forall>p q. m p = Some q \<longrightarrow> wf_state q) \<Longrightarrow> m' p = Some q \<Longrightarrow> wf_state q"
proof (induction i m ps rule: canary_build.induct)
  case (2 i m c cs)
  from 2(2) have g: "cfgName c \<noteq> ''''" "\<not> m (cfgName c) \<noteq> None" "\<not> (cfgPercent c < 0 \<or> cfgPercent c > 100)"
    "\<not> (MaxFailureRate c < 0 \<or> MaxFailureRate c > 1)"
    and b: "canary_build (Suc i) (m(cfgName c \<mapsto> init_state c)) cs = Inr m'"
    by (auto split: if_splits)
  have "wf_state (init_state c)" using g(3) by (simp add: wf_state_def init_state_def)
  with 2(3) have "\<forall>p q. (m(cfgName c \<mapsto> init_state c)) p = Some q \<longrightarrow> wf_state q" by simp
  from 2(1) [OF g b this 2(4)] show ?case .
qed simp

lemma canary_New_wf:
  assumes "canary_New cfgs = Inr c"
  shows "wf_controller c"
proof -
  obtain m where "canary_build 0 Map.empty cfgs = Inr m" "ctlProfiles c = m"
    using assms by (auto simp: canary_New_def split: sum.splits)
  then show ?thesis using canary_build_wf by (auto simp: wf_controller_def)
qed

definition is_reverted :: "Controller \<Rightarrow> string \<Rightarrow> bool" where
  "is_reverted c p = (case ctlProfiles c p of None \<Rightarrow> False | Some ps \<Rightarrow> reverted ps)"

lemma exec_keeps_reverted:
  assumes "is_reverted c p" and "op \<noteq> CPromote p"
  shows "is_reverted (snd (canary_exec fdiv c op)) p"
  using assms by (cases op) (auto simp: canary_defs is_reverted_def split: option.splits if_splits)

lemma run_keeps_reverted:
  "is_reverted c p \<Longrightarrow> CPromote p \<notin> set ops \<Longrightarrow> is_reverted (canary_run fdiv c ops) p"
  by (induction fdiv c ops rule: canary_run.induct) (auto intro: exec_keeps_reverted)

text \<open>
  C32. An auto-revert is final until a promotion: from the moment \<^verbatim>\<open>RecordFailure\<close> returns
  true for a profile, whatever clones, failures and threshold changes follow, every
  \<^verbatim>\<open>Pick\<close> for that profile returns the stable template and no second revert is reported, as
  long as the profile is not promoted. This holds for any floating-point division.
\<close>

theorem canary_revert_sticks:
  assumes "canary_New cfgs = Inr c0" and "RecordFailure fdiv (canary_run fdiv c0 before) p t = (True, c1)"
    and "CPromote p \<notin> set later" and "c2 = canary_run fdiv c1 later"
  shows "\<exists>r. Pick c2 p vmid = Inr r \<and> PickTemplate r = Stable \<and> \<not> fst (RecordFailure fdiv c2 p t')"
proof -
  have "wf_controller c1"
    using canary_exec_wf [of "canary_run fdiv c0 before" fdiv "CRecordFailure p t"]
      canary_run_wf [OF canary_New_wf [OF assms(1)]] assms(2) by simp
  then have "wf_controller c2" using canary_run_wf assms(4) by simp
  moreover have "is_reverted c1 p"
    using assms(2) by (auto simp: RecordFailure_def is_reverted_def Let_def split: if_splits option.splits)
  then have "is_reverted c2 p" using run_keeps_reverted assms(3,4) by simp
  ultimately obtain ps where "ctlProfiles c2 p = Some ps" "reverted ps" "percent ps = 0"
    by (auto simp: is_reverted_def wf_controller_def wf_state_def split: option.splits)
  then show ?thesis by (simp add: Pick_def RecordFailure_def Let_def)
qed

definition ex_canary :: "ProfileConfig list" where
  "ex_canary = [\<lparr>cfgName = ''gpu'', StableTemplateVMID = 9000, CandidateTemplateVMID = 9001,
     cfgPercent = 100, MaxFailureRate = 1 / 2\<rparr>]"

definition exact_div :: "int \<Rightarrow> int \<Rightarrow> rat" where
  "exact_div a b = of_int a / of_int b"

theorem canary_revert_sticks_witness:
  "\<exists>c0 c1 r. canary_New ex_canary = Inr c0 \<and>
     RecordFailure exact_div (canary_run exact_div c0 [CSetMin 1, CRecordClone ''gpu'' Candidate])
       ''gpu'' Candidate = (True, c1) \<and>
     Pick (canary_run exact_div c1 [CRecordClone ''gpu'' Candidate]) ''gpu'' 10007 = Inr r \<and>
     PickTemplate r = Stable"
proof -
  obtain c0 where c0: "canary_New ex_canary = Inr c0"
    by (simp add: canary_New_def ex_canary_def)
  then have "\<exists>c1. RecordFailure exact_div (canary_run exact_div c0 [CSetMin 1, CRecordClone ''gpu'' Candidate])
       ''gpu'' Candidate = (True, c1)"
    by (auto simp: canary_New_def ex_canary_def canary_defs init_state_def exact_div_def)
  then obtain c1 where c1: "RecordFailure exact_div
       (canary_run exact_div c0 [CSetMin 1, CRecordClone ''gpu'' Candidate]) ''gpu'' Candidate = (True, c1)" ..
  from canary_revert_sticks [OF c0 c1, of "[CRecordClone ''gpu'' Candidate]" _ 10007] c0 c1
  show ?thesis by auto
qed

lemma hashMod100_range: "0 \<le> hashMod100 vmid \<and> hashMod100 vmid < 100"
proof -
  have "uint (w mod 100) < 100" for w :: "64 word" by (simp add: uint_mod)
  then show ?thesis by (simp add: hashMod100_def)
qed

text \<open>
  \<^verbatim>\<open>Pick\<close> respects the live share: with no candidate or a share of zero it returns the
  stable template, at 100 percent with a candidate it always returns the candidate, and in between
  it returns the candidate exactly for the VMIDs whose hash, a number below 100, is under the share.
\<close>

theorem canary_pick_share:
  assumes "ctlProfiles c p = Some ps" and "wf_state ps"
  shows "Pick c p vmid = Inr
      (if candidate ps \<noteq> 0 \<and> hashMod100 vmid < percent ps
       then \<lparr>TemplateVMID = candidate ps, PickTemplate = Candidate\<rparr>
       else \<lparr>TemplateVMID = stable ps, PickTemplate = Stable\<rparr>) \<and>
    (percent ps = 100 \<and> candidate ps \<noteq> 0 \<longrightarrow> map_sum id PickTemplate (Pick c p vmid) = Inr Candidate) \<and>
    0 \<le> hashMod100 vmid \<and> hashMod100 vmid < 100"
  using assms hashMod100_range [of vmid] by (auto simp: Pick_def)

theorem canary_pick_share_witness:
  "\<exists>c. canary_New ex_canary = Inr c \<and> map_sum id PickTemplate (Pick c ''gpu'' 12345) = Inr Candidate"
proof -
  obtain c where c: "canary_New ex_canary = Inr c" and ps: "ctlProfiles c ''gpu'' = Some (init_state (hd ex_canary))"
    by (simp add: canary_New_def ex_canary_def)
  have "wf_state (init_state (hd ex_canary))" by (simp add: wf_state_def init_state_def ex_canary_def)
  from canary_pick_share [OF ps this, of 12345] c show ?thesis
    by (simp add: init_state_def ex_canary_def)
qed

end
