(* ===== verification/Schedule.thy ===== *)
theory Schedule
  imports Base "HOL-Library.AList" "HOL-Library.Char_ord" "HOL-Library.List_Lexorder"
begin

text \<open>
  Cron-keyed overrides of the pool sizes (\<^verbatim>\<open>internal/schedule/schedule.go\<close>). The parsed cron
  schedule is third-party code: \<open>Cron\<close> is the function \<open>\<lambda>t. e.Cron.Next(t.In(e.Location))\<close>,
  and \<open>cron_law\<close> is its documented behaviour. The active windows are an association list, the
  effects (apply calls and metrics) are the list of events a handler emits, and one pass of the loop
  of \<^verbatim>\<open>Run\<close> is a function of its two clock readings.
\<close>

record Entry =
  entryName :: string
  entryProfile :: string
  Cron :: "(time \<Rightarrow> time) option"
  Duration :: duration
  schedHot :: int
  schedWarm :: int
  BaselineHot :: int
  BaselineWarm :: int

datatype schedule_error = ErrProfileRequired nat | ErrCronRequired nat | ErrDurationNotPositive nat

fun NewRunner_check :: "nat \<Rightarrow> Entry list \<Rightarrow> schedule_error option" where
  "NewRunner_check i [] = None"
| "NewRunner_check i (e # es) =
     (if entryProfile e = '''' then Some (ErrProfileRequired i)
      else if Cron e = None then Some (ErrCronRequired i)
      else if Duration e \<le> 0 then Some (ErrDurationNotPositive i)
      else NewRunner_check (Suc i) es)"

definition NewRunner :: "Entry list \<Rightarrow> schedule_error + Entry list" where
  "NewRunner es = (case NewRunner_check 0 es of Some e \<Rightarrow> Inl e | None \<Rightarrow> Inr es)"

record activation =
  actEntry :: Entry
  firedAt :: time
  activeUntil :: time

type_synonym windows = "(string \<times> activation) list"

datatype sched_event =
    IncFire string string
  | SetActive string string
  | Apply string int int

section \<open>Start-up replay\<close>

text \<open>
  The loop over \<^verbatim>\<open>Cron.Next\<close> ends only when \<^verbatim>\<open>Next\<close> passes \<open>now\<close>; a run that
  does not end is \<open>None\<close>.
\<close>

partial_function (option) last_fire :: "(time \<Rightarrow> time) \<Rightarrow> time \<Rightarrow> time \<Rightarrow> time \<Rightarrow> time option" where
  "last_fire cron_next now t lastFire =
     (if t > now then Some lastFire else last_fire cron_next now (cron_next t) t)"

definition cronNext :: "Entry \<Rightarrow> time \<Rightarrow> time" where
  "cronNext e = (case Cron e of Some f \<Rightarrow> f | None \<Rightarrow> (\<lambda>t. 0))"

definition entry_last_fire :: "Entry \<Rightarrow> time \<Rightarrow> time option" where
  "entry_last_fire e now = last_fire (cronNext e) now (cronNext e (now + (- 2 * Duration e))) 0"

fun replay_loop :: "time \<Rightarrow> windows \<Rightarrow> Entry list \<Rightarrow> windows option" where
  "replay_loop now active [] = Some active"
| "replay_loop now active (e # es) =
     (case entry_last_fire e now of
        None \<Rightarrow> None
      | Some lastFire \<Rightarrow>
          if lastFire = 0 \<or> now - lastFire \<ge> Duration e then replay_loop now active es
          else
            (let a = \<lparr>actEntry = e, firedAt = lastFire, activeUntil = lastFire + Duration e\<rparr> in
             case map_of active (entryProfile e) of
               None \<Rightarrow> replay_loop now (AList.update (entryProfile e) a active) es
             | Some cur \<Rightarrow>
                 if lastFire > firedAt cur then replay_loop now (AList.update (entryProfile e) a active) es
                 else replay_loop now active es))"

definition replayActiveAtStartup :: "Entry list \<Rightarrow> time \<Rightarrow> windows option" where
  "replayActiveAtStartup entries now = replay_loop now [] entries"

definition startup_events :: "windows \<Rightarrow> sched_event list" where
  "startup_events active = concat (map (\<lambda>(prof, a).
     [SetActive prof (entryName (actEntry a)), Apply prof (schedHot (actEntry a)) (schedWarm (actEntry a))]) active)"

section \<open>The event loop\<close>

fun next_fire_loop :: "time \<Rightarrow> (time \<times> Entry) option \<Rightarrow> Entry list \<Rightarrow> (time \<times> Entry) option" where
  "next_fire_loop now best [] = best"
| "next_fire_loop now best (e # es) =
     (let t = cronNext e now in
      next_fire_loop now
        (case best of
           None \<Rightarrow> Some (t, e)
         | Some (soonest, which) \<Rightarrow> if t < soonest then Some (t, e) else best) es)"

definition nextFireAfter :: "Entry list \<Rightarrow> time \<Rightarrow> (time \<times> Entry) option" where
  "nextFireAfter entries now = next_fire_loop now None entries"

fun next_expiry_loop :: "windows \<Rightarrow> time \<times> string \<Rightarrow> string list \<Rightarrow> time \<times> string" where
  "next_expiry_loop active best [] = best"
| "next_expiry_loop active (soonest, which) (p # ps) =
     (case map_of active p of
        None \<Rightarrow> next_expiry_loop active (soonest, which) ps
      | Some a \<Rightarrow>
          if which = '''' \<or> activeUntil a < soonest then next_expiry_loop active (activeUntil a, p) ps
          else next_expiry_loop active (soonest, which) ps)"

definition nextExpiry :: "windows \<Rightarrow> time \<times> string" where
  "nextExpiry active = next_expiry_loop active (0, '''') (sort (map fst active))"

definition handleFire :: "Entry \<Rightarrow> time \<Rightarrow> windows \<Rightarrow> windows \<times> sched_event list" where
  "handleFire e now active =
     (let new = \<lparr>actEntry = e, firedAt = now, activeUntil = now + Duration e\<rparr>;
          cur = map_of active (entryProfile e);
          active' = AList.update (entryProfile e) new active in
      if cur = None \<or> schedHot (actEntry (the cur)) \<noteq> schedHot e \<or> schedWarm (actEntry (the cur)) \<noteq> schedWarm e
      then (active', [IncFire (entryProfile e) (entryName e), SetActive (entryProfile e) (entryName e),
              Apply (entryProfile e) (schedHot e) (schedWarm e)])
      else (active', [IncFire (entryProfile e) (entryName e)]))"

definition handleExpire :: "string \<Rightarrow> time \<Rightarrow> windows \<Rightarrow> windows \<times> sched_event list" where
  "handleExpire profile now active =
     (case map_of active profile of
        None \<Rightarrow> (active, [])
      | Some cur \<Rightarrow>
          if now < activeUntil cur then (active, [])
          else (AList.delete profile active,
                [SetActive profile '''', Apply profile (BaselineHot (actEntry cur)) (BaselineWarm (actEntry cur))]))"

text \<open>
  One pass of \<^verbatim>\<open>Run\<close>: the choice is made on the reading \<open>now\<close>, the handler runs on the
  reading \<open>now'\<close> after the wait.
\<close>

definition run_pass :: "Entry list \<Rightarrow> windows \<Rightarrow> time \<Rightarrow> time \<Rightarrow> windows \<times> sched_event list" where
  "run_pass entries active now now' =
     (let (nextExpire, expireProfile) = nextExpiry active in
      case nextFireAfter entries now of
        Some (nextFire, fireEntry) \<Rightarrow>
          if expireProfile = '''' \<or> \<not> nextFire > nextExpire then handleFire fireEntry now' active
          else handleExpire expireProfile now' active
      | None \<Rightarrow> if expireProfile = '''' then (active, []) else handleExpire expireProfile now' active)"

fun run_passes :: "Entry list \<Rightarrow> windows \<times> sched_event list \<Rightarrow> (time \<times> time) list \<Rightarrow> windows \<times> sched_event list" where
  "run_passes entries (active, evs) [] = (active, evs)"
| "run_passes entries (active, evs) ((now, now') # rs) =
     (let (active', evs') = run_pass entries active now now' in
      run_passes entries (active', evs @ evs') rs)"

text \<open>\<^verbatim>\<open>Run\<close> on the clock readings of a start and of the passes after it.\<close>

definition Run :: "Entry list \<Rightarrow> time \<Rightarrow> (time \<times> time) list \<Rightarrow> (windows \<times> sched_event list) option" where
  "Run entries start rs =
     (if entries = [] then Some ([], [])
      else case replayActiveAtStartup entries start of
             None \<Rightarrow> None
           | Some active \<Rightarrow> Some (run_passes entries (active, startup_events active) rs))"

section \<open>What the replay finds\<close>

text \<open>
  The documented behaviour of \<^verbatim>\<open>cron.Schedule.Next\<close> for a schedule with fire instants
  \<open>F\<close>: the next instant of \<open>F\<close> strictly after the given time.
\<close>

definition cron_law :: "(time \<Rightarrow> time) \<Rightarrow> time set \<Rightarrow> bool" where
  "cron_law cron_next F \<longleftrightarrow>
     (\<forall>t. t < cron_next t \<and> cron_next t \<in> F \<and> (\<forall>f \<in> F. t < f \<longrightarrow> cron_next t \<le> f))"

lemma last_fire_spec:
  assumes "cron_law cron_next F" and "t \<in> F"
  shows "\<exists>lf. last_fire cron_next now t l = Some lf \<and>
    (t > now \<and> lf = l \<or> lf \<in> F \<and> lf \<le> now \<and> now < cron_next lf)"
  using assms(2)
proof (induction "nat (now - t + 1)" arbitrary: t l rule: less_induct)
  case less
  have n: "t < cron_next t" "cron_next t \<in> F" using assms(1) by (auto simp: cron_law_def)
  show ?case
  proof (cases "t > now")
    case True
    then show ?thesis by (subst last_fire.simps) simp
  next
    case False
    then have "nat (now - cron_next t + 1) < nat (now - t + 1)" using n(1) by simp
    from less.hyps [OF this n(2), of t] False less.prems show ?thesis
      by (subst last_fire.simps) auto
  qed
qed

abbreviation window_open :: "time \<Rightarrow> Entry \<Rightarrow> time \<Rightarrow> bool" where
  "window_open now e f \<equiv> f \<le> now \<and> now < f + Duration e"

lemma entry_last_fire_spec:
  assumes "cron_law (cronNext e) F" and "0 < Duration e" and "\<forall>f \<in> F. 0 < f"
  shows "\<exists>lf. entry_last_fire e now = Some lf \<and>
    (lf = 0 \<and> (\<forall>f \<in> F. \<not> window_open now e f) \<or> lf \<in> F \<and> lf \<le> now \<and> (\<forall>f \<in> F. f \<le> now \<longrightarrow> f \<le> lf))"
proof -
  let ?s = "now + - 2 * Duration e"
  have s: "cronNext e ?s \<in> F" "\<And>f. f \<in> F \<Longrightarrow> ?s < f \<Longrightarrow> cronNext e ?s \<le> f"
    using assms(1) unfolding cron_law_def by blast+
  obtain lf where lf: "entry_last_fire e now = Some lf"
    "cronNext e ?s > now \<and> lf = 0 \<or> lf \<in> F \<and> lf \<le> now \<and> now < cronNext e lf"
    using last_fire_spec [OF assms(1) s(1), of now 0] unfolding entry_last_fire_def by blast
  from lf(2) show ?thesis
  proof
    assume a: "cronNext e ?s > now \<and> lf = 0"
    have "\<not> window_open now e f" if "f \<in> F" for f
      using s(2) [OF that] a assms(2) by linarith
    with lf(1) a show ?thesis by blast
  next
    assume a: "lf \<in> F \<and> lf \<le> now \<and> now < cronNext e lf"
    have "f \<le> lf" if "f \<in> F" "f \<le> now" for f
      using assms(1) a that unfolding cron_law_def by (meson leD le_less_trans not_less)
    with lf(1) a show ?thesis by blast
  qed
qed

definition most_recent :: "(Entry \<Rightarrow> time set) \<Rightarrow> time \<Rightarrow> Entry set \<Rightarrow> string \<Rightarrow> activation option \<Rightarrow> bool" where
  "most_recent F now es p r =
     (case r of
        None \<Rightarrow> \<forall>e \<in> es. entryProfile e = p \<longrightarrow> (\<forall>f \<in> F e. \<not> window_open now e f)
      | Some a \<Rightarrow> actEntry a \<in> es \<and> entryProfile (actEntry a) = p \<and> firedAt a \<in> F (actEntry a) \<and>
          window_open now (actEntry a) (firedAt a) \<and> activeUntil a = firedAt a + Duration (actEntry a) \<and>
          (\<forall>e \<in> es. entryProfile e = p \<longrightarrow> (\<forall>f \<in> F e. window_open now e f \<longrightarrow> f \<le> firedAt a)))"

lemma most_recent_skip:
  assumes "most_recent F now es p r"
    and "entryProfile e = p \<Longrightarrow> \<forall>f \<in> F e. window_open now e f \<longrightarrow> (\<exists>a. r = Some a \<and> f \<le> firedAt a)"
  shows "most_recent F now (insert e es) p r"
  using assms by (auto simp: most_recent_def split: option.splits)

lemma most_recent_new:
  assumes "most_recent F now es (entryProfile e) r"
    and "lf \<in> F e" "window_open now e lf" "\<forall>f \<in> F e. f \<le> now \<longrightarrow> f \<le> lf"
    and "r = None \<or> lf > firedAt (the r)"
  shows "most_recent F now (insert e es) (entryProfile e)
    (Some \<lparr>actEntry = e, firedAt = lf, activeUntil = lf + Duration e\<rparr>)"
  using assms by (fastforce simp: most_recent_def split: option.splits)

lemma replay_loop_spec:
  assumes "\<forall>e \<in> set es. cron_law (cronNext e) (F e) \<and> 0 < Duration e \<and> (\<forall>f \<in> F e. 0 < f)"
    and "\<forall>p. most_recent F now done p (map_of active p)"
  shows "\<exists>active'. replay_loop now active es = Some active' \<and>
    (\<forall>p. most_recent F now (done \<union> set es) p (map_of active' p))"
  using assms
proof (induction es arbitrary: active "done")
  case Nil
  then show ?case by simp
next
  case (Cons e es)
  let ?p = "entryProfile e"
  have c: "cron_law (cronNext e) (F e)" "0 < Duration e" "\<forall>f \<in> F e. 0 < f" using Cons.prems(1) by auto
  obtain lf where lf: "entry_last_fire e now = Some lf"
    "lf = 0 \<and> (\<forall>f \<in> F e. \<not> window_open now e f) \<or> lf \<in> F e \<and> lf \<le> now \<and> (\<forall>f \<in> F e. f \<le> now \<longrightarrow> f \<le> lf)"
    using entry_last_fire_spec [OF c, of now] by blast
  let ?a = "\<lparr>actEntry = e, firedAt = lf, activeUntil = lf + Duration e\<rparr>"
  let ?skip = "lf = 0 \<or> now - lf \<ge> Duration e \<or> (\<exists>cur. map_of active ?p = Some cur \<and> \<not> lf > firedAt cur)"
  define active1 where "active1 = (if ?skip then active else AList.update ?p ?a active)"
  have step: "replay_loop now active (e # es) = replay_loop now active1 es"
    by (auto simp: active1_def lf(1) Let_def split: option.splits)
  have pos: "lf \<in> F e \<Longrightarrow> 0 < lf" for lf using Cons.prems(1) by simp
  have "most_recent F now (insert e done) p (map_of active1 p)" for p
  proof (cases ?skip)
    case True
    have "\<exists>a. map_of active p = Some a \<and> f \<le> firedAt a"
      if "entryProfile e = p" "f \<in> F e" "window_open now e f" for f
      using True lf(2) that pos [of lf] by fastforce
    with most_recent_skip [OF Cons.prems(2) [rule_format, of p]] show ?thesis
      using True by (simp add: active1_def)
  next
    case False
    have a1: "active1 = AList.update ?p ?a active" unfolding active1_def by (rule if_not_P [OF False])
    from False lf(2) have *: "lf \<in> F e" "window_open now e lf" "\<forall>f \<in> F e. f \<le> now \<longrightarrow> f \<le> lf" by auto
    show ?thesis
    proof (cases "p = ?p")
      case True
      have "most_recent F now (insert e done) ?p (Some ?a)"
        by (rule most_recent_new [OF Cons.prems(2) [rule_format, of ?p] *]) (use False in \<open>cases "map_of active (entryProfile e)"; simp\<close>)
      with True show ?thesis by (simp add: a1 update_conv')
    next
      case other: False
      from most_recent_skip [OF Cons.prems(2) [rule_format, of p]] other show ?thesis
        by (auto simp: a1 update_conv')
    qed
  qed
  with Cons.IH [of "insert e done" active1] Cons.prems(1) show ?case unfolding step by simp
qed

text \<open>
  C33. Restart inside a window: for entries with well-behaved cron schedules the start-up replay
  ends, and for each profile it finds the window open now with the most recent fire, or none exactly
  when no entry of the profile has a window open.
\<close>

theorem replay_most_recent:
  assumes "\<forall>e \<in> set entries. cron_law (cronNext e) (F e) \<and> 0 < Duration e \<and> (\<forall>f \<in> F e. 0 < f)"
  shows "\<exists>active. replayActiveAtStartup entries now = Some active \<and>
    (\<forall>p. most_recent F now (set entries) p (map_of active p))"
  using replay_loop_spec [OF assms, of now "{}" "[]"]
  by (simp add: replayActiveAtStartup_def most_recent_def)

text \<open>A schedule that fires every ten ticks, with windows of four.\<close>

definition every_ten :: "time \<Rightarrow> time" where
  "every_ten t = (if t < 0 then 10 else (t div 10 + 1) * 10)"

definition tens :: "time set" where
  "tens = {f. 0 < f \<and> f mod 10 = 0}"

lemma every_ten_law: "cron_law every_ten tens"
proof -
  have "t < every_ten t \<and> every_ten t \<in> tens" for t
    by (simp add: every_ten_def tens_def) presburger
  moreover have "every_ten t \<le> f" if "f \<in> tens" "t < f" for t f
    using that by (simp add: every_ten_def tens_def) presburger
  ultimately show ?thesis by (auto simp: cron_law_def)
qed

definition ex_entry :: "string \<Rightarrow> string \<Rightarrow> Entry" where
  "ex_entry n p = \<lparr>entryName = n, entryProfile = p, Cron = Some every_ten, Duration = 4,
     schedHot = 8, schedWarm = 2, BaselineHot = 1, BaselineWarm = 0\<rparr>"

lemma ex_entry_cron [simp]: "cronNext (ex_entry n p) = every_ten" "Duration (ex_entry n p) = 4"
  "entryProfile (ex_entry n p) = p"
  by (simp_all add: cronNext_def ex_entry_def)

theorem replay_most_recent_witness:
  "\<exists>active. replayActiveAtStartup [ex_entry ''night'' ''gpu''] 23 = Some active \<and>
    (\<forall>p. most_recent (\<lambda>_. tens) 23 {ex_entry ''night'' ''gpu''} p (map_of active p)) \<and>
    map_option firedAt (map_of active ''gpu'') = Some 20"
proof -
  have "\<forall>f \<in> tens. 0 < f" by (simp add: tens_def)
  then have "\<forall>e \<in> set [ex_entry ''night'' ''gpu'']. cron_law (cronNext e) tens \<and> 0 < Duration e \<and> (\<forall>f \<in> tens. 0 < f)"
    by (simp add: every_ten_law)
  from replay_most_recent [OF this, of 23] obtain active where
    a: "replayActiveAtStartup [ex_entry ''night'' ''gpu''] 23 = Some active"
    "\<forall>p. most_recent (\<lambda>_. tens) 23 {ex_entry ''night'' ''gpu''} p (map_of active p)" by auto
  have "most_recent (\<lambda>_. tens) 23 {ex_entry ''night'' ''gpu''} ''gpu'' (map_of active ''gpu'')" using a(2) ..
  moreover have "20 \<in> tens" by (simp add: tens_def)
  moreover have "f \<le> 20" if "f \<in> tens" "f \<le> 23" for f using that by (simp add: tens_def) presburger
  ultimately have "map_option firedAt (map_of active ''gpu'') = Some 20"
    by (force simp: most_recent_def split: option.splits)
  with a show ?thesis by blast
qed

section \<open>The applied sizes follow the active window\<close>

definition last_applied :: "sched_event list \<Rightarrow> string \<Rightarrow> (int \<times> int) option" where
  "last_applied evs = foldl (\<lambda>m ev. case ev of Apply p h w \<Rightarrow> m(p \<mapsto> (h, w)) | _ \<Rightarrow> m) Map.empty evs"

fun entry_sizes :: "Entry \<Rightarrow> int \<times> int" where
  "entry_sizes e = (schedHot e, schedWarm e)"

fun entry_baseline :: "Entry \<Rightarrow> int \<times> int" where
  "entry_baseline e = (BaselineHot e, BaselineWarm e)"

definition tracks_at :: "Entry list \<Rightarrow> string \<Rightarrow> activation option \<Rightarrow> (int \<times> int) option \<Rightarrow> bool" where
  "tracks_at entries p r l =
     (case r of
        Some a \<Rightarrow> actEntry a \<in> set entries \<and> entryProfile (actEntry a) = p \<and> l = Some (entry_sizes (actEntry a))
      | None \<Rightarrow> l = None \<or> (\<exists>e \<in> set entries. entryProfile e = p \<and> l = Some (entry_baseline e)))"

definition tracks :: "Entry list \<Rightarrow> windows \<Rightarrow> sched_event list \<Rightarrow> bool" where
  "tracks entries active evs \<longleftrightarrow> (\<forall>p. tracks_at entries p (map_of active p) (last_applied evs p))"

lemma last_applied_snoc [simp]:
  "last_applied [] = Map.empty"
  "last_applied (evs @ [Apply p h w]) = (last_applied evs)(p \<mapsto> (h, w))"
  "last_applied (evs @ [IncFire p n]) = last_applied evs"
  "last_applied (evs @ [SetActive p n]) = last_applied evs"
  by (simp_all add: last_applied_def)

lemma last_applied_more [simp]:
  "last_applied (evs @ [SetActive q n, Apply p h w]) = (last_applied evs)(p \<mapsto> (h, w))"
  "last_applied (evs @ [IncFire q' n', SetActive q n, Apply p h w]) = (last_applied evs)(p \<mapsto> (h, w))"
  by (simp_all add: last_applied_def)

lemma tracksD:
  "tracks entries active evs \<Longrightarrow> map_of active p = Some a \<Longrightarrow>
     actEntry a \<in> set entries \<and> entryProfile (actEntry a) = p \<and>
     last_applied evs p = Some (entry_sizes (actEntry a))"
  unfolding tracks_def by (drule spec [of _ p]) (simp add: tracks_at_def)

lemma handleFire_tracks:
  assumes "tracks entries active evs" and "e \<in> set entries" and "handleFire e now active = (active', evs')"
  shows "tracks entries active' (evs @ evs')"
proof -
  let ?new = "\<lparr>actEntry = e, firedAt = now, activeUntil = now + Duration e\<rparr>"
  have act: "map_of active' = (map_of active)(entryProfile e \<mapsto> ?new)"
    using assms(3) by (auto simp: handleFire_def Let_def update_conv' split: if_splits)
  have "last_applied (evs @ evs') = (last_applied evs)(entryProfile e \<mapsto> entry_sizes e)"
  proof (cases "evs' = [IncFire (entryProfile e) (entryName e)]")
    case True
    then obtain cur where "map_of active (entryProfile e) = Some cur" "entry_sizes (actEntry cur) = entry_sizes e"
      using assms(3) by (auto simp: handleFire_def Let_def split: if_splits)
    with tracksD [OF assms(1)] True show ?thesis by (simp add: fun_upd_idem)
  next
    case False
    then show ?thesis using assms(3) by (auto simp: handleFire_def Let_def split: if_splits)
  qed
  with act assms(1,2) show ?thesis by (simp add: tracks_def tracks_at_def [of _ "entryProfile e" "Some _"])
qed

lemma handleExpire_tracks:
  assumes "tracks entries active evs" and "handleExpire p now active = (active', evs')"
  shows "tracks entries active' (evs @ evs')"
proof (cases "evs' = []")
  case True
  with assms show ?thesis by (auto simp: handleExpire_def split: option.splits if_splits)
next
  case False
  with assms(2) obtain cur where "map_of active p = Some cur" "active' = AList.delete p active"
    "evs' = [SetActive p '''', Apply p (BaselineHot (actEntry cur)) (BaselineWarm (actEntry cur))]"
    by (auto simp: handleExpire_def split: option.splits if_splits)
  moreover from this(1) tracksD [OF assms(1)] have "actEntry cur \<in> set entries \<and> entryProfile (actEntry cur) = p"
    by blast
  then have "tracks_at entries p None (Some (BaselineHot (actEntry cur), BaselineWarm (actEntry cur)))"
    by (auto simp: tracks_at_def)
  ultimately show ?thesis
    using assms(1) by (simp add: tracks_def delete_conv')
qed

lemma next_fire_loop_in:
  "next_fire_loop now best es = Some (t, e) \<Longrightarrow> best = Some (t, e) \<or> e \<in> set es \<and> t = cronNext e now"
  by (induction now best es rule: next_fire_loop.induct)
    (auto simp: Let_def split: option.splits if_splits)

lemma run_pass_tracks:
  assumes "tracks entries active evs" and "run_pass entries active now now' = (active', evs')"
  shows "tracks entries active' (evs @ evs')"
proof -
  obtain x p where xp: "nextExpiry active = (x, p)" by fastforce
  show ?thesis
  proof (cases "nextFireAfter entries now")
    case None
    with assms xp handleExpire_tracks show ?thesis
      by (auto simp: run_pass_def split: if_splits)
  next
    case (Some te)
    then obtain t e where te: "nextFireAfter entries now = Some (t, e)" by (cases te) auto
    then have "e \<in> set entries" using next_fire_loop_in by (fastforce simp: nextFireAfter_def)
    with assms xp te handleFire_tracks handleExpire_tracks show ?thesis
      by (auto simp: run_pass_def split: if_splits)
  qed
qed

lemma run_passes_tracks:
  "tracks entries (fst s) (snd s) \<Longrightarrow> run_passes entries s rs = (active', evs') \<Longrightarrow> tracks entries active' evs'"
proof (induction entries s rs rule: run_passes.induct)
  case (2 entries active evs now now' rs)
  obtain a1 e1 where p: "run_pass entries active now now' = (a1, e1)" by fastforce
  with 2 run_pass_tracks show ?case by (simp add: Let_def)
qed simp

lemma replay_loop_keys:
  assumes "replay_loop now active es = Some active'" and "distinct (map fst active)"
    and "\<forall>p a. map_of active p = Some a \<longrightarrow> actEntry a \<in> S \<and> entryProfile (actEntry a) = p" and "set es \<subseteq> S"
  shows "distinct (map fst active') \<and>
    (\<forall>p a. map_of active' p = Some a \<longrightarrow> actEntry a \<in> S \<and> entryProfile (actEntry a) = p)"
  using assms
proof (induction now active es rule: replay_loop.induct)
  case (2 now active e es)
  let ?new = "\<lambda>lf. AList.update (entryProfile e) \<lparr>actEntry = e, firedAt = lf, activeUntil = lf + Duration e\<rparr> active"
  have new: "distinct (map fst (?new lf))"
    "\<forall>p a. map_of (?new lf) p = Some a \<longrightarrow> actEntry a \<in> S \<and> entryProfile (actEntry a) = p" for lf
    using 2(6-8) by (simp_all add: distinct_update update_conv')
  from 2(5) obtain lf where lf: "entry_last_fire e now = Some lf" by (auto split: option.splits)
  consider "replay_loop now active es = Some active'" "lf = 0 \<or> Duration e \<le> now - lf"
    | "replay_loop now active es = Some active'" "\<not> (lf = 0 \<or> Duration e \<le> now - lf)"
      "\<exists>cur. map_of active (entryProfile e) = Some cur \<and> \<not> lf > firedAt cur"
    | "replay_loop now (?new lf) es = Some active'" "\<not> (lf = 0 \<or> Duration e \<le> now - lf)"
      "map_of active (entryProfile e) = None"
    | "replay_loop now (?new lf) es = Some active'" "\<not> (lf = 0 \<or> Duration e \<le> now - lf)"
      "\<exists>cur. map_of active (entryProfile e) = Some cur \<and> lf > firedAt cur"
    using 2(5) lf by (auto simp: Let_def split: option.splits if_splits)
  then show ?case
  proof cases
    case 1
    from 2(1) [OF lf 1(2,1)] 2(6-8) show ?thesis by simp
  next
    case 2
    then show ?thesis using "2.IH"(4) [OF lf _ refl] "2.prems" by auto
  next
    case 3
    then show ?thesis using "2.IH"(2) [OF lf _ refl] "2.prems" new by auto
  next
    case 4
    then show ?thesis using "2.IH"(3) [OF lf _ refl] "2.prems" new by auto
  qed
qed simp

lemma last_applied_startup:
  assumes "distinct (map fst active)"
  shows "last_applied (evs @ startup_events active) =
    last_applied evs ++ (\<lambda>p. map_option (entry_sizes \<circ> actEntry) (map_of active p))"
  using assms
proof (induction active arbitrary: evs)
  case (Cons pa active)
  obtain p a where pa: "pa = (p, a)" by (cases pa)
  let ?e = "[SetActive p (entryName (actEntry a)), Apply p (schedHot (actEntry a)) (schedWarm (actEntry a))]"
  have "last_applied (evs @ startup_events (pa # active)) = last_applied ((evs @ ?e) @ startup_events active)"
    by (simp add: startup_events_def pa)
  also have "\<dots> = last_applied (evs @ ?e) ++ (\<lambda>p. map_option (entry_sizes \<circ> actEntry) (map_of active p))"
    by (rule Cons.IH) (use Cons.prems in simp)
  moreover have "map_of active p = None" using Cons.prems by (simp add: pa map_of_eq_None_iff)
  ultimately show ?case by (auto simp: pa fun_eq_iff map_add_def split: option.split)
qed (simp add: startup_events_def map_add_def)

text \<open>
  C34. The pool sizes follow the windows: at every moment of a run, whatever the clock readings, the
  sizes last applied to a profile are those of its active window, the one that fired last, and a profile
  with no active window was last set to its baseline (or never set), even where a window that fired
  earlier would still be open. Skipping the apply call when a fire keeps the sizes is sound.
\<close>

theorem schedule_sizes_follow_window:
  assumes "Run entries start rs = Some (active, evs)"
  shows "case map_of active p of
      Some a \<Rightarrow> actEntry a \<in> set entries \<and> entryProfile (actEntry a) = p \<and>
        last_applied evs p = Some (schedHot (actEntry a), schedWarm (actEntry a))
    | None \<Rightarrow> last_applied evs p = None \<or>
        (\<exists>e \<in> set entries. entryProfile e = p \<and> last_applied evs p = Some (BaselineHot e, BaselineWarm e))"
proof (cases "entries = []")
  case True
  with assms show ?thesis by (simp add: Run_def)
next
  case False
  with assms obtain a0 where a0: "replay_loop start [] entries = Some a0"
    "run_passes entries (a0, startup_events a0) rs = (active, evs)"
    by (auto simp: Run_def replayActiveAtStartup_def split: option.splits)
  from replay_loop_keys [OF a0(1), of "set entries"] have k: "distinct (map fst a0)"
    "\<forall>p a. map_of a0 p = Some a \<longrightarrow> actEntry a \<in> set entries \<and> entryProfile (actEntry a) = p" by simp_all
  have "tracks entries a0 (startup_events a0)"
    using k last_applied_startup [OF k(1), of "[]"]
    by (auto simp: tracks_def tracks_at_def map_add_def split: option.split)
  then have "tracks entries active evs" using run_passes_tracks a0(2) by fastforce
  then have "tracks_at entries p (map_of active p) (last_applied evs p)" by (simp add: tracks_def)
  then show ?thesis by (auto simp: tracks_at_def split: option.splits)
qed

text \<open>
  A window that fires over a longer one replaces it for good: when it expires, the profile goes back to
  its baseline although the longer window is still open.
\<close>

theorem expiry_ignores_open_window:
  assumes "entryProfile e = p" "entryProfile e' = p" "t' + Duration e' < t + Duration e"
    and "handleFire e t active = (active1, evs1)" "handleFire e' t' active1 = (active2, evs2)"
  shows "t' + Duration e' < activeUntil (the (map_of active1 p)) \<and>
    (\<exists>active3. handleExpire p (t' + Duration e') active2 =
       (active3, [SetActive p '''', Apply p (BaselineHot e') (BaselineWarm e')]) \<and> map_of active3 p = None)"
proof -
  have "map_of active1 p = Some \<lparr>actEntry = e, firedAt = t, activeUntil = t + Duration e\<rparr>"
    using assms(1,4) by (auto simp: handleFire_def Let_def update_conv' split: if_splits)
  moreover have "map_of active2 p = Some \<lparr>actEntry = e', firedAt = t', activeUntil = t' + Duration e'\<rparr>"
    using assms(2,5) by (auto simp: handleFire_def Let_def update_conv' split: if_splits)
  ultimately show ?thesis using assms(3) by (simp add: handleExpire_def delete_conv')
qed

lemma ex_replay: "replayActiveAtStartup [ex_entry ''night'' ''gpu''] 25 = Some []"
  by (simp add: replayActiveAtStartup_def entry_last_fire_def every_ten_def last_fire.simps)

theorem schedule_sizes_follow_window_witness:
  "\<exists>active evs. Run [ex_entry ''night'' ''gpu''] 25 [(25, 30), (30, 34)] = Some (active, evs) \<and>
     (case map_of active ''gpu'' of
        Some a \<Rightarrow> last_applied evs ''gpu'' = Some (schedHot (actEntry a), schedWarm (actEntry a))
      | None \<Rightarrow> last_applied evs ''gpu'' = None \<or> last_applied evs ''gpu'' = Some (1, 0))"
proof -
  have "\<exists>active evs. Run [ex_entry ''night'' ''gpu''] 25 [(25, 30), (30, 34)] = Some (active, evs)"
    by (simp add: Run_def ex_replay)
  then obtain active evs where r: "Run [ex_entry ''night'' ''gpu''] 25 [(25, 30), (30, 34)] = Some (active, evs)"
    by blast
  from schedule_sizes_follow_window [OF r, of "''gpu''"] r show ?thesis
    by (auto simp: ex_entry_def split: option.splits)
qed

lemma next_fire_loop_None: "next_fire_loop now best es = None \<longleftrightarrow> best = None \<and> es = []"
  by (induction now best es rule: next_fire_loop.induct) (auto simp: Let_def split: option.splits)

text \<open>
  A fire that coincides with another entry's is lost: when two entries of different profiles are
  due at the same instant \<open>T\<close>, one pass handles the first of them, and every later pass looks
  for fires strictly after its clock reading, which is \<open>T\<close> or later; so the second entry's
  override is not applied for that window.
\<close>

theorem simultaneous_fire_lost:
  assumes "cron_law (cronNext e1) F1" and "cron_law (cronNext e2) F2"
    and "cronNext e1 now = T" and "cronNext e2 now = T" and "entryProfile e1 \<noteq> entryProfile e2"
    and "T \<le> now'"
  shows "T \<in> F2 \<and>
    (case run_pass [e1, e2] [] now now' of
       (active, evs) \<Rightarrow> map_of active (entryProfile e2) = None \<and> last_applied evs (entryProfile e2) = None \<and>
         last_applied evs (entryProfile e1) = Some (schedHot e1, schedWarm e1)) \<and>
    (\<forall>n \<ge> now'. \<exists>t e. nextFireAfter [e1, e2] n = Some (t, e) \<and> T < t)"
proof -
  have "nextFireAfter [e1, e2] now = Some (T, e1)"
    using assms(3,4) by (simp add: nextFireAfter_def Let_def)
  then have p: "run_pass [e1, e2] [] now now' = handleFire e1 now' []"
    by (simp add: run_pass_def nextExpiry_def)
  have "\<exists>t e. nextFireAfter [e1, e2] n = Some (t, e) \<and> T < t" if "now' \<le> n" for n
  proof -
    obtain t e where te: "nextFireAfter [e1, e2] n = Some (t, e)"
      using next_fire_loop_None [of n None "[e1, e2]"] unfolding nextFireAfter_def by fastforce
    then have "e \<in> {e1, e2} \<and> t = cronNext e n"
      using next_fire_loop_in [of n None "[e1, e2]" t e] by (simp add: nextFireAfter_def)
    moreover have "n < cronNext e1 n" "n < cronNext e2 n" using assms(1,2) by (simp_all add: cron_law_def)
    ultimately show ?thesis using te that assms(6) by fastforce
  qed
  moreover have "T \<in> F2" using assms(2,4) by (auto simp: cron_law_def)
  ultimately show ?thesis
    using p assms(5) last_applied_more(2) [of "[]"] by (simp add: handleFire_def Let_def)
qed

theorem simultaneous_fire_lost_witness:
  "40 \<in> tens \<and> (\<exists>t e. nextFireAfter [ex_entry ''a'' ''gpu'', ex_entry ''b'' ''cpu''] 45 = Some (t, e) \<and> 40 < t) \<and>
   last_applied (snd (run_pass [ex_entry ''a'' ''gpu'', ex_entry ''b'' ''cpu''] [] 35 41)) ''cpu'' = None"
  using simultaneous_fire_lost
    [of "ex_entry ''a'' ''gpu''" tens "ex_entry ''b'' ''cpu''" tens 35 40 41] every_ten_law
  by (simp add: every_ten_def split: prod.splits)

lemma last_fire_stuck:
  "last_fire cron_next now t l = Some y \<Longrightarrow> cron_next = (\<lambda>_. 0) \<Longrightarrow> 0 \<le> now \<Longrightarrow> now < t"
proof -
  assume l: "last_fire cron_next now t l = Some y" and c: "cron_next = (\<lambda>_. 0)" "0 \<le> now"
  have "cron_next = (\<lambda>_. 0) \<longrightarrow> 0 \<le> now \<longrightarrow> now < t"
    by (rule last_fire.raw_induct [OF _ l]) (fastforce split: if_splits)
  with c show ?thesis by simp
qed

text \<open>
  C35. A schedule that never fires hangs the runner: \<^verbatim>\<open>cron.Schedule.Next\<close> returns the zero
  time when no instant satisfies the expression, and then the start-up replay of its entry does not
  return; the other entries are never scheduled.
\<close>

theorem unsatisfiable_cron_hangs:
  assumes "e \<in> set entries" and "Cron e = Some (\<lambda>_. 0)" and "0 \<le> start"
  shows "Run entries start rs = None"
proof -
  have "entry_last_fire e start = None"
    using last_fire_stuck [of "\<lambda>_. 0" start 0 0] assms(2,3)
    by (cases "entry_last_fire e start") (auto simp: entry_last_fire_def cronNext_def)
  then have "replay_loop start active entries = None" for active
    using assms(1)
    by (induction entries arbitrary: active) (auto simp: Let_def split: option.splits)
  with assms(1) show ?thesis by (auto simp: Run_def replayActiveAtStartup_def)
qed

theorem unsatisfiable_cron_hangs_witness:
  "Run [ex_entry ''ok'' ''gpu'', (ex_entry ''feb30'' ''cpu'')\<lparr>Cron := Some (\<lambda>_. 0)\<rparr>] 1000 [] = None"
  by (rule unsatisfiable_cron_hangs [of "(ex_entry ''feb30'' ''cpu'')\<lparr>Cron := Some (\<lambda>_. 0)\<rparr>"]) simp_all

end
