(* ===== verification/NodeCap.thy ===== *)
theory NodeCap
  imports Base Tags
begin

text \<open>
  The capacity accountant (\<^verbatim>\<open>internal/nodecap/nodecap.go\<close>). Byte counts are integers; the
  places where \<^verbatim>\<open>uint64\<close> or \<^verbatim>\<open>int64\<close> arithmetic may wrap are written with
  \<open>u64\<close> and \<open>i64\<close>. The two floating-point products of the code are functions of the
  options: \<open>reserveFraction total\<close> is \<^verbatim>\<open>uint64(float64(total) * ReserveFraction)\<close> and
  \<open>overcommitLimit cores\<close> is \<^verbatim>\<open>int(float64(cores) * CPUOvercommit)\<close>. The reservations
  are the values of the map \<^verbatim>\<open>res\<close>; the mutex makes each method one step. What the Proxmox
  API and the TTL cache return are arguments.
\<close>

definition u64 :: "int \<Rightarrow> int" where
  "u64 n = n mod 18446744073709551616"

definition i64 :: "int \<Rightarrow> int" where
  "i64 n = (n + 9223372036854775808) mod 18446744073709551616 - 9223372036854775808"

record Shape =
  MemoryBytes :: int
  VCPUs :: int

record NodeState =
  TotalBytes :: int
  ReserveBytesOf :: int
  CommittedBytes :: int
  AvailableBytes :: int
  CPUGated :: bool
  LimitVCPU :: int
  CommittedVCPU :: int
  AvailableVCPU :: int

record VMIDRange =
  rangeMin :: int
  rangeMax :: int

record Options =
  Nodes :: "string list"
  ReserveBytes :: int
  reserveFraction :: "int \<Rightarrow> int"
  cpuOvercommitSet :: bool
  overcommitLimit :: "int \<Rightarrow> int"
  ReservationTTL :: duration
  OwnedVMIDs :: "VMIDRange list"
  OwnerScaleSets :: "string list"

record nodeTotals =
  memBytes :: int
  nodeVCPUs :: int
  sumMem :: int
  sumVCPU :: int

record snapshot =
  snapNodes :: "string \<rightharpoonup> nodeTotals"
  guestMem :: "int \<rightharpoonup> int"
  guestVCPU :: "int \<rightharpoonup> int"

record reservation =
  resId :: int
  resNode :: string
  shape :: Shape
  resVmid :: int
  freeing :: "int list"
  expires :: time

record Accountant =
  opts :: Options
  cached :: "snapshot option"
  lastFresh :: "snapshot option"
  res :: "reservation list"
  nextRes :: int

datatype nodecap_error = ErrNoSnapshot | ErrFetch

section \<open>Reservation handles\<close>

definition Bind :: "Accountant \<Rightarrow> int \<Rightarrow> int \<Rightarrow> Accountant" where
  "Bind a rid vmid =
     a\<lparr>res := map (\<lambda>r. if resId r = rid then r\<lparr>resVmid := vmid\<rparr> else r) (res a)\<rparr>"

definition Release :: "Accountant \<Rightarrow> int \<Rightarrow> Accountant" where
  "Release a rid = a\<lparr>res := filter (\<lambda>r. resId r \<noteq> rid) (res a)\<rparr>"

section \<open>The ledger\<close>

definition map_get :: "('k \<rightharpoonup> int) \<Rightarrow> 'k \<Rightarrow> int" where
  "map_get m k = (case m k of None \<Rightarrow> 0 | Some v \<Rightarrow> v)"

definition saturatingSub :: "int \<Rightarrow> int \<Rightarrow> int" where
  "saturatingSub x y = (if y > x then 0 else x - y)"

definition addClamped :: "int \<Rightarrow> int \<Rightarrow> int" where
  "addClamped base delta =
     (if delta \<ge> 0 then u64 (base + delta) else saturatingSub base (u64 (- delta)))"

definition vcpuLimit :: "Accountant \<Rightarrow> int \<Rightarrow> int" where
  "vcpuLimit a cores = overcommitLimit (opts a) cores"

definition reserveFor :: "Accountant \<Rightarrow> int \<Rightarrow> int" where
  "reserveFor a totalMem =
     (let frac = reserveFraction (opts a) totalMem in
      if frac > ReserveBytes (opts a) then frac else ReserveBytes (opts a))"

definition owns :: "Accountant \<Rightarrow> string \<Rightarrow> int \<Rightarrow> bool" where
  "owns a guestTags vmid =
     ((\<exists>name \<in> set (OwnerScaleSets (opts a)). IsOwnedBy guestTags name) \<or>
      (\<exists>r \<in> set (OwnedVMIDs (opts a)). vmid \<ge> rangeMin r \<and> vmid \<le> rangeMax r))"

definition guestStopped :: string where
  "guestStopped = ''stopped''"

definition holdsMemory :: "Accountant \<Rightarrow> string \<Rightarrow> string \<Rightarrow> int \<Rightarrow> bool" where
  "holdsMemory a status guestTags vmid = (if status \<noteq> guestStopped then True else owns a guestTags vmid)"

definition observedMem :: "snapshot \<Rightarrow> reservation \<Rightarrow> int" where
  "observedMem snap r = (if resVmid r \<noteq> 0 then map_get (guestMem snap) (resVmid r) else 0)"

definition observedVCPUs :: "snapshot \<Rightarrow> reservation \<Rightarrow> int" where
  "observedVCPUs snap r = (if resVmid r \<noteq> 0 then map_get (guestVCPU snap) (resVmid r) else 0)"

text \<open>One turn of the loop of \<^verbatim>\<open>stateLocked\<close> over the reservations.\<close>

definition ledger_step :: "snapshot \<Rightarrow> string \<Rightarrow> int \<times> int \<Rightarrow> reservation \<Rightarrow> int \<times> int" where
  "ledger_step snap node acc r =
     (case acc of (delta, deltaVCPU) \<Rightarrow>
       if resNode r \<noteq> node then (delta, deltaVCPU)
       else
         (let observed = observedMem snap r;
              observedVCPU = observedVCPUs snap r;
              d1 = (if MemoryBytes (shape r) > observed
                    then i64 (delta + i64 (MemoryBytes (shape r) - observed)) else delta);
              v1 = (if VCPUs (shape r) > observedVCPU
                    then deltaVCPU + (VCPUs (shape r) - observedVCPU) else deltaVCPU) in
          (foldl (\<lambda>d v. i64 (d - i64 (map_get (guestMem snap) v))) d1 (freeing r),
           foldl (\<lambda>d v. d - map_get (guestVCPU snap) v) v1 (freeing r))))"

definition no_totals :: nodeTotals where
  "no_totals = \<lparr>memBytes = 0, nodeVCPUs = 0, sumMem = 0, sumVCPU = 0\<rparr>"

definition stateLocked :: "Accountant \<Rightarrow> snapshot \<Rightarrow> string \<Rightarrow> NodeState" where
  "stateLocked a snap node =
     (let totals = (case snapNodes snap node of None \<Rightarrow> no_totals | Some t \<Rightarrow> t);
          (delta, deltaVCPU) = foldl (ledger_step snap node) (0, 0) (res a);
          committed = addClamped (sumMem totals) delta;
          committedVCPU = max 0 (sumVCPU totals + deltaVCPU);
          reserve = reserveFor a (memBytes totals);
          usable = saturatingSub (memBytes totals) reserve;
          gated = cpuOvercommitSet (opts a);
          limit = (if gated then vcpuLimit a (nodeVCPUs totals) else 0) in
      \<lparr>TotalBytes = memBytes totals, ReserveBytesOf = reserve, CommittedBytes = committed,
       AvailableBytes = (if usable > committed then usable - committed else 0),
       CPUGated = gated, LimitVCPU = limit, CommittedVCPU = committedVCPU,
       AvailableVCPU = (if gated \<and> limit > committedVCPU then limit - committedVCPU else 0)\<rparr>)"

definition fitsLocked :: "Accountant \<Rightarrow> snapshot \<Rightarrow> string \<Rightarrow> Shape \<Rightarrow> int list \<Rightarrow> bool" where
  "fitsLocked a snap node sh extraFreeing =
     (case snapNodes snap node of
        None \<Rightarrow> False
      | Some totals \<Rightarrow>
          (let st = stateLocked a snap node;
               credit = foldl (\<lambda>c v. u64 (c + map_get (guestMem snap) v)) 0 extraFreeing;
               avail = u64 (AvailableBytes st + credit) in
           if MemoryBytes sh > avail then False
           else if cpuOvercommitSet (opts a) then
             (let vcpuCredit = sum_list (map (map_get (guestVCPU snap)) extraFreeing) in
              \<not> CommittedVCPU st - vcpuCredit + VCPUs sh > vcpuLimit a (nodeVCPUs totals))
           else True))"

section \<open>Snapshots\<close>

definition sweep_one :: "snapshot \<Rightarrow> time \<Rightarrow> reservation \<Rightarrow> reservation option" where
  "sweep_one snap now r =
     (if now > expires r then None
      else if resVmid r \<noteq> 0 \<and> map_get (guestMem snap) (resVmid r) \<ge> MemoryBytes (shape r) then None
      else Some (r\<lparr>freeing := filter (\<lambda>v. guestMem snap v \<noteq> None) (freeing r)\<rparr>))"

definition sweepLocked :: "Accountant \<Rightarrow> snapshot \<Rightarrow> time \<Rightarrow> Accountant" where
  "sweepLocked a snap now = a\<lparr>res := List.map_filter (sweep_one snap now) (res a)\<rparr>"

record ClusterResource =
  Type :: string
  rNode :: string
  rStatus :: string
  MaxMem :: int
  MaxCPU :: int
  rVMID :: int
  rTemplate :: int
  rTags :: string

definition want :: "Accountant \<Rightarrow> string \<Rightarrow> bool" where
  "want a name = (length (Nodes (opts a)) = 0 \<or> name \<in> set (Nodes (opts a)))"

definition fetch_row ::
  "Accountant \<Rightarrow> snapshot \<times> (string \<rightharpoonup> int \<times> int) \<Rightarrow> ClusterResource \<Rightarrow> snapshot \<times> (string \<rightharpoonup> int \<times> int)" where
  "fetch_row a acc r =
     (case acc of (snap, sums) \<Rightarrow>
       if Type r = ''node'' then
         (if \<not> want a (rNode r) \<or> (rStatus r \<noteq> '''' \<and> rStatus r \<noteq> ''online'') then (snap, sums)
          else (snap\<lparr>snapNodes := (snapNodes snap)(rNode r \<mapsto>
                  no_totals\<lparr>memBytes := MaxMem r, nodeVCPUs := MaxCPU r\<rparr>)\<rparr>, sums))
       else if Type r = ''qemu'' \<or> Type r = ''lxc'' then
         (if \<not> want a (rNode r) \<or> rTemplate r \<noteq> 0 then (snap, sums)
          else if \<not> holdsMemory a (rStatus r) (rTags r) (rVMID r) then (snap, sums)
          else
            (let (m, c) = (case sums (rNode r) of None \<Rightarrow> (0, 0) | Some mc \<Rightarrow> mc) in
             (snap\<lparr>guestMem := (guestMem snap)(rVMID r \<mapsto> MaxMem r),
                   guestVCPU := (guestVCPU snap)(rVMID r \<mapsto> MaxCPU r)\<rparr>,
              sums(rNode r \<mapsto> (u64 (m + MaxMem r), c + MaxCPU r)))))
       else (snap, sums))"

definition fetch :: "Accountant \<Rightarrow> ClusterResource list \<Rightarrow> snapshot" where
  "fetch a rs =
     (let (snap, sums) = foldl (fetch_row a)
            (\<lparr>snapNodes = Map.empty, guestMem = Map.empty, guestVCPU = Map.empty\<rparr>, Map.empty) rs in
      snap\<lparr>snapNodes := (\<lambda>n. map_option (\<lambda>t.
         (case sums n of None \<Rightarrow> t\<lparr>sumMem := 0, sumVCPU := 0\<rparr>
          | Some (m, c) \<Rightarrow> t\<lparr>sumMem := m, sumVCPU := c\<rparr>)) (snapNodes snap n))\<rparr>)"

text \<open>
  \<^verbatim>\<open>resources\<close>: \<open>hit\<close> says whether the TTL cache still serves its entry, \<open>reply\<close>
  what the API call returns when it does not.
\<close>

definition resources ::
  "Accountant \<Rightarrow> bool \<Rightarrow> ClusterResource list option \<Rightarrow> (nodecap_error + snapshot) \<times> Accountant" where
  "resources a hit reply =
     (case (if hit then cached a else None) of
        Some snap \<Rightarrow> (Inr snap, a)
      | None \<Rightarrow>
          (case reply of
             Some rs \<Rightarrow> (let fresh = fetch a rs in (Inr fresh, a\<lparr>cached := Some fresh, lastFresh := Some fresh\<rparr>))
           | None \<Rightarrow>
               (case lastFresh a of
                  Some prev \<Rightarrow> (Inr prev, a)
                | None \<Rightarrow> (Inl ErrNoSnapshot, a))))"

section \<open>Admission\<close>

type_synonym env = "bool \<times> ClusterResource list option \<times> time"

definition Snapshot :: "Accountant \<Rightarrow> env \<Rightarrow> (nodecap_error + (string \<rightharpoonup> NodeState)) \<times> Accountant" where
  "Snapshot a env =
     (case env of (hit, reply, now) \<Rightarrow>
       (case resources a hit reply of
          (Inl e, a1) \<Rightarrow> (Inl e, a1)
        | (Inr snap, a1) \<Rightarrow>
            (let a2 = sweepLocked a1 snap now in
             (Inr (\<lambda>n. map_option (\<lambda>_. stateLocked a2 snap n) (snapNodes snap n)), a2))))"

definition Fits :: "Accountant \<Rightarrow> env \<Rightarrow> Shape \<Rightarrow> string list \<Rightarrow> (nodecap_error + (string \<rightharpoonup> bool)) \<times> Accountant" where
  "Fits a env sh candidates =
     (case env of (hit, reply, now) \<Rightarrow>
       (case resources a hit reply of
          (Inl e, a1) \<Rightarrow> (Inl e, a1)
        | (Inr snap, a1) \<Rightarrow>
            (let a2 = sweepLocked a1 snap now in
             (Inr (map_of (map (\<lambda>n. (n, fitsLocked a2 snap n sh [])) candidates)), a2))))"

definition ReserveFreeing ::
  "Accountant \<Rightarrow> env \<Rightarrow> string \<Rightarrow> Shape \<Rightarrow> int list \<Rightarrow> (nodecap_error + reservation option) \<times> Accountant" where
  "ReserveFreeing a env node sh frees =
     (case env of (hit, reply, now) \<Rightarrow>
       (case resources a hit reply of
          (Inl e, a1) \<Rightarrow> (Inl e, a1)
        | (Inr snap, a1) \<Rightarrow>
            (let a2 = sweepLocked a1 snap now in
             if \<not> fitsLocked a2 snap node sh frees then (Inr None, a2)
             else
               (let nid = u64 (nextRes a2 + 1);
                    r = \<lparr>resId = nid, resNode = node, shape = sh, resVmid = 0, freeing = frees,
                         expires = now + ReservationTTL (opts a2)\<rparr> in
                (Inr (Some r), a2\<lparr>nextRes := nid, res := res a2 @ [r]\<rparr>)))))"

definition Reserve ::
  "Accountant \<Rightarrow> env \<Rightarrow> string \<Rightarrow> Shape \<Rightarrow> (nodecap_error + reservation option) \<times> Accountant" where
  "Reserve a env node sh = ReserveFreeing a env node sh []"

section \<open>The ledger without wrap-around\<close>

text \<open>The net claim of a reservation in the documented formula for \<open>committed(N)\<close>.\<close>

definition res_mem :: "snapshot \<Rightarrow> reservation \<Rightarrow> int" where
  "res_mem snap r = max 0 (MemoryBytes (shape r) - observedMem snap r) -
     sum_list (map (map_get (guestMem snap)) (freeing r))"

definition res_vcpu :: "snapshot \<Rightarrow> reservation \<Rightarrow> int" where
  "res_vcpu snap r = max 0 (VCPUs (shape r) - observedVCPUs snap r) -
     sum_list (map (map_get (guestVCPU snap)) (freeing r))"

definition ledger_mem :: "snapshot \<Rightarrow> string \<Rightarrow> reservation list \<Rightarrow> int" where
  "ledger_mem snap node rs = sum_list (map (res_mem snap) (filter (\<lambda>r. resNode r = node) rs))"

definition ledger_vcpu :: "snapshot \<Rightarrow> string \<Rightarrow> reservation list \<Rightarrow> int" where
  "ledger_vcpu snap node rs = sum_list (map (res_vcpu snap) (filter (\<lambda>r. resNode r = node) rs))"

text \<open>
  The code's own assumption (its G115 annotations): the byte counts involved add up to far less than
  \<open>2 ^ 63\<close>. \<open>weight\<close> bounds what one reservation contributes in either direction.
\<close>

definition weight :: "snapshot \<Rightarrow> reservation \<Rightarrow> int" where
  "weight snap r = MemoryBytes (shape r) + sum_list (map (map_get (guestMem snap)) (freeing r))"

definition nonneg :: "('k \<rightharpoonup> int) \<Rightarrow> bool" where
  "nonneg m \<longleftrightarrow> (\<forall>k v. m k = Some v \<longrightarrow> 0 \<le> v)"

definition bounded :: "snapshot \<Rightarrow> reservation list \<Rightarrow> int \<Rightarrow> bool" where
  "bounded snap rs base \<longleftrightarrow> nonneg (guestMem snap) \<and> 0 \<le> base \<and> (\<forall>r \<in> set rs. 0 \<le> MemoryBytes (shape r)) \<and>
     base + sum_list (map (weight snap) rs) < 4611686018427387904"

lemma map_get_nonneg: "nonneg m \<Longrightarrow> 0 \<le> map_get m k"
  by (auto simp: nonneg_def map_get_def split: option.split)

lemma sum_get_nonneg: "nonneg m \<Longrightarrow> 0 \<le> sum_list (map (map_get m) vs)"
  by (induction vs) (auto simp: map_get_nonneg)

lemma i64_id: "\<bar>n\<bar> < 9223372036854775808 \<Longrightarrow> i64 n = n"
  by (simp add: i64_def)

lemma u64_id: "0 \<le> n \<Longrightarrow> n < 18446744073709551616 \<Longrightarrow> u64 n = n"
  by (simp add: u64_def)

lemma foldl_credit:
  assumes "nonneg m" and "\<bar>d\<bar> + sum_list (map (map_get m) vs) < 9223372036854775808"
  shows "foldl (\<lambda>d v. i64 (d - i64 (map_get m v))) d vs = d - sum_list (map (map_get m) vs)"
  using assms(2)
proof (induction vs arbitrary: d)
  case (Cons v vs)
  have v: "0 \<le> map_get m v" "0 \<le> sum_list (map (map_get m) vs)"
    using assms(1) by (simp_all add: map_get_nonneg sum_get_nonneg)
  with Cons.prems have "i64 (d - i64 (map_get m v)) = d - map_get m v" by (simp add: i64_id)
  moreover have "\<bar>d - map_get m v\<bar> + sum_list (map (map_get m) vs) < 9223372036854775808"
    using Cons.prems v by simp
  ultimately show ?case using Cons.IH by simp
qed simp

lemma foldl_minus: "foldl (\<lambda>d v. d - f v) (d :: int) vs = d - sum_list (map f vs)"
  by (induction vs arbitrary: d) auto

lemma weight_nonneg:
  assumes "nonneg (guestMem snap)" and "0 \<le> MemoryBytes (shape r)"
  shows "\<bar>res_mem snap r\<bar> \<le> weight snap r \<and> 0 \<le> weight snap r"
  using sum_get_nonneg [OF assms(1), of "freeing r"] map_get_nonneg [OF assms(1), of "resVmid r"] assms(2)
  by (auto simp: weight_def res_mem_def observedMem_def)

lemma ledger_step_exact:
  assumes "nonneg (guestMem snap)" and "0 \<le> MemoryBytes (shape r)"
    and "\<bar>d\<bar> + weight snap r < 4611686018427387904"
  shows "ledger_step snap node (d, v) r =
    (if resNode r = node then (d + res_mem snap r, v + res_vcpu snap r) else (d, v))"
proof -
  let ?fr = "sum_list (map (map_get (guestMem snap)) (freeing r))"
  let ?o = "observedMem snap r"
  have n: "0 \<le> ?fr" "0 \<le> ?o" using assms(1) by (simp_all add: sum_get_nonneg observedMem_def map_get_nonneg)
  define d1 where "d1 = (if MemoryBytes (shape r) > ?o then i64 (d + i64 (MemoryBytes (shape r) - ?o)) else d)"
  have d1: "d1 = d + max 0 (MemoryBytes (shape r) - ?o)"
    using n assms(2,3) by (auto simp: d1_def weight_def i64_id)
  moreover have "foldl (\<lambda>d v. i64 (d - i64 (map_get (guestMem snap) v))) d1 (freeing r) = d1 - ?fr"
    by (rule foldl_credit [OF assms(1)]) (use d1 n assms(2,3) in \<open>auto simp: weight_def\<close>)
  ultimately show ?thesis
    by (simp add: ledger_step_def Let_def res_mem_def res_vcpu_def foldl_minus flip: d1_def)
qed

lemma ledger_exact:
  assumes "nonneg (guestMem snap)" and "\<forall>r \<in> set rs. 0 \<le> MemoryBytes (shape r)"
    and "\<bar>d\<bar> + sum_list (map (weight snap) rs) < 4611686018427387904"
  shows "foldl (ledger_step snap node) (d, v) rs = (d + ledger_mem snap node rs, v + ledger_vcpu snap node rs)"
  using assms(2,3)
proof (induction rs arbitrary: d v)
  case Nil
  then show ?case by (simp add: ledger_mem_def ledger_vcpu_def)
next
  case (Cons r rs)
  have w: "\<bar>res_mem snap r\<bar> \<le> weight snap r" "0 \<le> weight snap r" "0 \<le> sum_list (map (weight snap) rs)"
    using weight_nonneg [OF assms(1)] Cons.prems(1) by (auto intro!: sum_list_nonneg)
  have s: "ledger_step snap node (d, v) r =
    (if resNode r = node then (d + res_mem snap r, v + res_vcpu snap r) else (d, v))"
    by (rule ledger_step_exact [OF assms(1)]) (use Cons.prems w in auto)
  show ?case
  proof (cases "resNode r = node")
    case True
    have "\<bar>d + res_mem snap r\<bar> + sum_list (map (weight snap) rs) < 4611686018427387904"
      using Cons.prems(2) w by simp
    from Cons.IH [OF _ this] Cons.prems(1) True s show ?thesis
      by (simp add: ledger_mem_def ledger_vcpu_def)
  next
    case False
    have "\<bar>d\<bar> + sum_list (map (weight snap) rs) < 4611686018427387904" using Cons.prems(2) w by simp
    from Cons.IH [OF _ this] Cons.prems(1) False s show ?thesis
      by (simp add: ledger_mem_def ledger_vcpu_def)
  qed
qed

definition usable :: "Accountant \<Rightarrow> nodeTotals \<Rightarrow> int" where
  "usable a t = saturatingSub (memBytes t) (reserveFor a (memBytes t))"

lemma ledger_mem_bound:
  assumes "bounded snap rs base"
  shows "\<bar>ledger_mem snap node rs\<bar> \<le> sum_list (map (weight snap) rs)"
proof -
  have "\<bar>ledger_mem snap node rs\<bar> \<le> sum_list (map (weight snap) rs)"
    if "\<forall>r \<in> set rs. 0 \<le> MemoryBytes (shape r)" "nonneg (guestMem snap)" for rs
    using that(1)
  proof (induction rs)
    case (Cons r rs)
    with weight_nonneg [OF that(2), of r] show ?case by (auto simp: ledger_mem_def)
  qed (simp add: ledger_mem_def)
  with assms show ?thesis by (simp add: bounded_def)
qed

lemma stateLocked_exact:
  assumes "bounded snap (res a) (sumMem t)" and "snapNodes snap node = Some t"
  shows "CommittedBytes (stateLocked a snap node) = max 0 (sumMem t + ledger_mem snap node (res a))"
    and "AvailableBytes (stateLocked a snap node) =
      max 0 (usable a t - CommittedBytes (stateLocked a snap node))"
    and "CommittedVCPU (stateLocked a snap node) = max 0 (sumVCPU t + ledger_vcpu snap node (res a))"
proof -
  have f: "foldl (ledger_step snap node) (0, 0) (res a) =
    (ledger_mem snap node (res a), ledger_vcpu snap node (res a))"
    using assms(1) ledger_exact [of snap "res a" 0 node 0] by (simp add: bounded_def)
  have "addClamped (sumMem t) (ledger_mem snap node (res a)) = max 0 (sumMem t + ledger_mem snap node (res a))"
    using ledger_mem_bound [OF assms(1), of node] assms(1)
    by (auto simp: addClamped_def saturatingSub_def u64_id bounded_def)
  with f assms(2) show "CommittedBytes (stateLocked a snap node) = max 0 (sumMem t + ledger_mem snap node (res a))"
    "AvailableBytes (stateLocked a snap node) = max 0 (usable a t - CommittedBytes (stateLocked a snap node))"
    "CommittedVCPU (stateLocked a snap node) = max 0 (sumVCPU t + ledger_vcpu snap node (res a))"
    by (auto simp: stateLocked_def Let_def usable_def)
qed

section \<open>Properties of admission\<close>

lemma reserve_Some:
  assumes "ReserveFreeing a (hit, reply, now) node sh frees = (Inr (Some r), a')"
  obtains snap a1 a2 where "resources a hit reply = (Inr snap, a1)" and "a2 = sweepLocked a1 snap now"
    and "fitsLocked a2 snap node sh frees"
    and "r = \<lparr>resId = u64 (nextRes a2 + 1), resNode = node, shape = sh, resVmid = 0, freeing = frees,
      expires = now + ReservationTTL (opts a2)\<rparr>"
    and "a' = a2\<lparr>nextRes := u64 (nextRes a2 + 1), res := res a2 @ [r]\<rparr>"
  using assms
  by (auto simp: ReserveFreeing_def Let_def split: prod.splits sum.splits if_splits)

lemma ledger_append:
  "ledger_mem snap node (rs @ [r]) = ledger_mem snap node rs + (if resNode r = node then res_mem snap r else 0)"
  "ledger_vcpu snap node (rs @ [r]) = ledger_vcpu snap node rs + (if resNode r = node then res_vcpu snap r else 0)"
  by (simp_all add: ledger_mem_def ledger_vcpu_def)

lemma bounded_butlast: "bounded snap (rs @ [r]) base \<Longrightarrow> bounded snap rs base"
  using weight_nonneg [of snap r] by (auto simp: bounded_def)

lemma credit_exact:
  assumes "nonneg m" and "0 \<le> c" and "c + sum_list (map (map_get m) vs) < 18446744073709551616"
  shows "foldl (\<lambda>c v. u64 (c + map_get m v)) c vs = c + sum_list (map (map_get m) vs)"
  using assms(2,3)
proof (induction vs arbitrary: c)
  case (Cons v vs)
  have v: "0 \<le> map_get m v" "0 \<le> sum_list (map (map_get m) vs)"
    using assms(1) by (simp_all add: map_get_nonneg sum_get_nonneg)
  with Cons.prems have "u64 (c + map_get m v) = c + map_get m v" by (simp add: u64_id)
  with Cons.IH [of "c + map_get m v"] Cons.prems v show ?case by simp
qed simp

text \<open>
  What a fit check guarantees in exact arithmetic: the shape fits in what is available plus the
  credit, and the vCPU ceiling holds.
\<close>

lemma fits_exact:
  assumes "fitsLocked a snap node sh frees" and "snapNodes snap node = Some t"
    and "bounded snap (res a) (sumMem t)" and "nonneg (guestMem snap)"
    and "usable a t + sum_list (map (map_get (guestMem snap)) frees) < 18446744073709551616" and "0 \<le> usable a t"
  shows "MemoryBytes sh \<le> max 0 (usable a t - max 0 (sumMem t + ledger_mem snap node (res a))) +
      sum_list (map (map_get (guestMem snap)) frees)"
    and "cpuOvercommitSet (opts a) \<Longrightarrow>
      max 0 (sumVCPU t + ledger_vcpu snap node (res a)) - sum_list (map (map_get (guestVCPU snap)) frees) +
        VCPUs sh \<le> vcpuLimit a (nodeVCPUs t)"
proof -
  let ?credit = "sum_list (map (map_get (guestMem snap)) frees)"
  let ?avail = "AvailableBytes (stateLocked a snap node)"
  note st = stateLocked_exact [OF assms(3,2)]
  have av: "?avail \<le> usable a t" "0 \<le> ?avail" using st(1,2) assms(6) by auto
  have "foldl (\<lambda>c v. u64 (c + map_get (guestMem snap) v)) 0 frees = ?credit"
    using credit_exact [OF assms(4), of 0 frees] assms(5,6) by simp
  moreover have "u64 (?avail + ?credit) = ?avail + ?credit"
    by (rule u64_id) (use av assms(5) sum_get_nonneg [OF assms(4), of frees] in auto)
  ultimately have "MemoryBytes sh \<le> ?avail + ?credit"
    using assms(1,2) by (simp add: fitsLocked_def Let_def split: if_splits)
  with st(1,2) show "MemoryBytes sh \<le> max 0 (usable a t - max 0 (sumMem t + ledger_mem snap node (res a))) + ?credit"
    by simp
  assume "cpuOvercommitSet (opts a)"
  with assms(1,2) st(3)
  show "max 0 (sumVCPU t + ledger_vcpu snap node (res a)) - sum_list (map (map_get (guestVCPU snap)) frees) +
        VCPUs sh \<le> vcpuLimit a (nodeVCPUs t)"
    by (simp add: fitsLocked_def Let_def split: if_splits)
qed

text \<open>
  C26. No double spend: when \<^verbatim>\<open>ReserveFreeing\<close> grants a claim on a node that is not already
  over its limit (in particular whenever \<^verbatim>\<open>Reserve\<close> grants one), then in the state it leaves
  the guests' allocations plus all outstanding reservations minus the credits of the VMs being freed
  stay within the node's memory less the host reserve, and within the vCPU ceiling when CPU is gated;
  no other node's ledger changes. The byte counts are assumed far below the word size, as the code
  does.
\<close>

theorem reserve_no_overcommit:
  assumes "resources a hit reply = (Inr snap, a1)" and "a2 = sweepLocked a1 snap now"
    and "ReserveFreeing a (hit, reply, now) node sh frees = (Inr (Some r), a')"
    and "snapNodes snap node = Some t" and "bounded snap (res a') (sumMem t)"
    and "0 \<le> usable a2 t" and "usable a2 t < 4611686018427387904"
    and "frees = [] \<or> sumMem t + ledger_mem snap node (res a2) \<le> usable a2 t" and "0 < MemoryBytes sh"
  shows "sumMem t + ledger_mem snap node (res a') \<le> usable a2 t \<and>
    CommittedBytes (stateLocked a' snap node) \<le> usable a2 t \<and>
    (cpuOvercommitSet (opts a2) \<and> 0 \<le> VCPUs sh \<longrightarrow>
      sumVCPU t + ledger_vcpu snap node (res a') \<le> vcpuLimit a2 (nodeVCPUs t)) \<and>
    (\<forall>n. n \<noteq> node \<longrightarrow> ledger_mem snap n (res a') = ledger_mem snap n (res a2))"
proof -
  have f: "fitsLocked a2 snap node sh frees" and a': "res a' = res a2 @ [r]"
    and r: "shape r = sh" "resVmid r = 0" "freeing r = frees" "resNode r = node"
    using assms(1-3) by (auto elim!: reserve_Some)
  let ?credit = "sum_list (map (map_get (guestMem snap)) frees)"
  have b: "bounded snap (res a2) (sumMem t)" and nn: "nonneg (guestMem snap)"
    using assms(5) bounded_butlast by (auto simp: a' bounded_def)
  have "0 \<le> sum_list (map (weight snap) (res a2))"
    using b weight_nonneg [OF nn] by (auto simp: bounded_def intro!: sum_list_nonneg)
  then have c: "?credit < 4611686018427387904" "0 \<le> ?credit"
    using assms(5,9) sum_get_nonneg [OF nn] by (auto simp: a' r bounded_def weight_def)
  note fit = fits_exact [OF f assms(4) b nn _ assms(6)]
  have mem: "res_mem snap r = MemoryBytes sh - ?credit" using assms(9) by (simp add: res_mem_def observedMem_def r)
  have vcpu: "0 \<le> VCPUs sh \<Longrightarrow> res_vcpu snap r = VCPUs sh - sum_list (map (map_get (guestVCPU snap)) frees)"
    by (simp add: res_vcpu_def observedVCPUs_def r)
  have m: "sumMem t + ledger_mem snap node (res a') \<le> usable a2 t"
    using fit(1) assms(6-9) c mem by (auto simp: a' ledger_append r)
  moreover have "CommittedBytes (stateLocked a' snap node) \<le> usable a2 t"
    using stateLocked_exact(1) [OF assms(5,4)] m assms(6) by simp
  moreover have "cpuOvercommitSet (opts a2) \<and> 0 \<le> VCPUs sh \<longrightarrow>
      sumVCPU t + ledger_vcpu snap node (res a') \<le> vcpuLimit a2 (nodeVCPUs t)"
    using fit(2) assms(7) c vcpu by (auto simp: a' ledger_append r)
  ultimately show ?thesis by (simp add: a' ledger_append r)
qed

definition ex_opts :: Options where
  "ex_opts = \<lparr>Nodes = [], ReserveBytes = 10, reserveFraction = (\<lambda>n. n div 20), cpuOvercommitSet = True,
     overcommitLimit = (\<lambda>c. 4 * c), ReservationTTL = 300, OwnedVMIDs = [], OwnerScaleSets = []\<rparr>"

definition ex_acct :: Accountant where
  "ex_acct = \<lparr>opts = ex_opts, cached = None, lastFresh = None, res = [], nextRes = 0\<rparr>"

definition ex_node :: ClusterResource where
  "ex_node = \<lparr>Type = ''node'', rNode = ''pve1'', rStatus = ''online'', MaxMem = 100, MaxCPU = 8, rVMID = 0,
     rTemplate = 0, rTags = ''''\<rparr>"

definition ex_guest :: "int \<Rightarrow> int \<Rightarrow> ClusterResource" where
  "ex_guest vmid mem = \<lparr>Type = ''qemu'', rNode = ''pve1'', rStatus = ''running'', MaxMem = mem, MaxCPU = 2,
     rVMID = vmid, rTemplate = 0, rTags = ''''\<rparr>"

definition ex_snap :: "int \<Rightarrow> snapshot" where
  "ex_snap mem = \<lparr>snapNodes = [''pve1'' \<mapsto> \<lparr>memBytes = 100, nodeVCPUs = 8, sumMem = mem + 50, sumVCPU = 4\<rparr>],
     guestMem = [500 \<mapsto> mem, 501 \<mapsto> 50], guestVCPU = [500 \<mapsto> 2, 501 \<mapsto> 2]\<rparr>"

lemma ex_fetch:
  assumes "0 \<le> mem" and "mem < 1000"
  shows "fetch ex_acct [ex_guest 500 mem, ex_node, ex_guest 501 50] = ex_snap mem"
  using assms
  by (simp add: fetch_def fetch_row_def ex_guest_def ex_node_def ex_acct_def ex_opts_def want_def
      holdsMemory_def guestStopped_def no_totals_def u64_def ex_snap_def fun_eq_iff)

definition ex_after :: "int \<Rightarrow> Accountant" where
  "ex_after mem = ex_acct\<lparr>cached := Some (ex_snap mem), lastFresh := Some (ex_snap mem)\<rparr>"

lemma ex_resources:
  assumes "0 \<le> mem" and "mem < 1000"
  shows "resources ex_acct False (Some [ex_guest 500 mem, ex_node, ex_guest 501 50]) =
    (Inr (ex_snap mem), ex_after mem)"
  by (simp add: resources_def ex_fetch [OF assms] Let_def ex_after_def)

lemma ex_sweep: "sweepLocked (ex_after mem) (ex_snap mem) now = ex_after mem"
  by (simp add: sweepLocked_def ex_after_def ex_acct_def List.map_filter_def)

lemma ex_usable: "usable (ex_after mem) \<lparr>memBytes = 100, nodeVCPUs = 8, sumMem = s, sumVCPU = v\<rparr> = 90"
  by (simp add: usable_def reserveFor_def ex_after_def ex_acct_def ex_opts_def saturatingSub_def)

definition ex_res :: "int \<Rightarrow> int list \<Rightarrow> reservation" where
  "ex_res mem frees = \<lparr>resId = 1, resNode = ''pve1'', shape = \<lparr>MemoryBytes = mem, VCPUs = 2\<rparr>, resVmid = 0,
     freeing = frees, expires = 300\<rparr>"

lemma ex_state:
  "stateLocked (ex_after mem) (ex_snap mem) ''pve1'' =
     \<lparr>TotalBytes = 100, ReserveBytesOf = 10, CommittedBytes = u64 (mem + 50),
      AvailableBytes = (if 90 > u64 (mem + 50) then 90 - u64 (mem + 50) else 0), CPUGated = True,
      LimitVCPU = 32, CommittedVCPU = 4, AvailableVCPU = 28\<rparr>"
  by (simp add: stateLocked_def Let_def ex_after_def ex_acct_def ex_opts_def ex_snap_def addClamped_def
      reserveFor_def saturatingSub_def vcpuLimit_def)

lemma ex_reserve:
  assumes "0 \<le> mem" and "mem < 1000"
    and "fitsLocked (ex_after mem) (ex_snap mem) ''pve1'' \<lparr>MemoryBytes = m, VCPUs = 2\<rparr> frees"
  shows "ReserveFreeing ex_acct (False, Some [ex_guest 500 mem, ex_node, ex_guest 501 50], 0) ''pve1''
    \<lparr>MemoryBytes = m, VCPUs = 2\<rparr> frees =
    (Inr (Some (ex_res m frees)), (ex_after mem)\<lparr>nextRes := 1, res := [ex_res m frees]\<rparr>)"
  using assms(3)
  by (simp add: ReserveFreeing_def ex_resources [OF assms(1,2)] ex_sweep Let_def ex_res_def)
    (simp add: ex_after_def ex_acct_def ex_opts_def u64_def)

lemma ex_fits:
  assumes "mem = 10 \<and> m = 30 \<and> frees = [] \<or> mem = 60 \<and> m = 45 \<and> frees = [501]"
  shows "fitsLocked (ex_after mem) (ex_snap mem) ''pve1'' \<lparr>MemoryBytes = m, VCPUs = 2\<rparr> frees"
proof -
  have "snapNodes (ex_snap mem) ''pve1'' = Some \<lparr>memBytes = 100, nodeVCPUs = 8, sumMem = mem + 50, sumVCPU = 4\<rparr>"
    "opts (ex_after mem) = ex_opts" "guestMem (ex_snap mem) 501 = Some 50" "guestVCPU (ex_snap mem) 501 = Some 2"
    by (simp_all add: ex_snap_def ex_after_def ex_acct_def)
  then show ?thesis
    using assms by (auto simp: fitsLocked_def ex_state Let_def u64_def map_get_def vcpuLimit_def ex_opts_def)
qed

theorem reserve_no_overcommit_witness:
  "\<exists>r a'. ReserveFreeing ex_acct (False, Some [ex_guest 500 10, ex_node, ex_guest 501 50], 0) ''pve1''
      \<lparr>MemoryBytes = 30, VCPUs = 2\<rparr> [] = (Inr (Some r), a') \<and>
    CommittedBytes (stateLocked a' (ex_snap 10) ''pve1'') \<le> 90"
proof -
  let ?t = "\<lparr>memBytes = 100, nodeVCPUs = 8, sumMem = 60, sumVCPU = 4\<rparr>"
  have R: "ReserveFreeing ex_acct (False, Some [ex_guest 500 10, ex_node, ex_guest 501 50], 0) ''pve1''
      \<lparr>MemoryBytes = 30, VCPUs = 2\<rparr> [] =
    (Inr (Some (ex_res 30 [])), (ex_after 10)\<lparr>nextRes := 1, res := [ex_res 30 []]\<rparr>)"
    by (rule ex_reserve) (simp_all add: ex_fits)
  have t: "snapNodes (ex_snap 10) ''pve1'' = Some ?t" by (simp add: ex_snap_def)
  have b: "bounded (ex_snap 10) [ex_res 30 []] 60"
    by (auto simp: bounded_def nonneg_def ex_snap_def ex_res_def weight_def split: if_splits)
  show ?thesis
    using reserve_no_overcommit [OF ex_resources [of 10] refl R t] b R
    by (simp add: ex_sweep ex_usable)
qed

text \<open>
  On a node that is already over its limit the credit for freed VMs hides the deficit: the
  available bytes are floored at zero before the credit is added, so \<^verbatim>\<open>ReserveFreeing\<close> can
  grant a claim after which the ledger is still above the node's memory less the reserve, by the
  accountant's own formula.
\<close>

theorem reserve_freeing_hides_deficit:
  "\<exists>a reply node sh frees r a' snap t.
     fst (resources a False (Some reply)) = Inr snap \<and> snapNodes snap node = Some t \<and>
     ReserveFreeing a (False, Some reply, 0) node sh frees = (Inr (Some r), a') \<and>
     usable a' t < sumMem t + ledger_mem snap node (res a') \<and>
     usable a' t < CommittedBytes (stateLocked a' snap node)"
proof -
  let ?t = "\<lparr>memBytes = 100, nodeVCPUs = 8, sumMem = 110, sumVCPU = 4\<rparr>"
  let ?a' = "(ex_after 60)\<lparr>nextRes := 1, res := [ex_res 45 [501]]\<rparr>"
  have R: "ReserveFreeing ex_acct (False, Some [ex_guest 500 60, ex_node, ex_guest 501 50], 0) ''pve1''
      \<lparr>MemoryBytes = 45, VCPUs = 2\<rparr> [501] = (Inr (Some (ex_res 45 [501])), ?a')"
    by (rule ex_reserve) (simp_all add: ex_fits)
  have t: "snapNodes (ex_snap 60) ''pve1'' = Some ?t" by (simp add: ex_snap_def)
  have b: "bounded (ex_snap 60) (res ?a') (sumMem ?t)"
    by (auto simp: bounded_def nonneg_def ex_snap_def ex_res_def weight_def map_get_def split: if_splits)
  have u: "usable ?a' ?t = 90"
    by (simp add: usable_def reserveFor_def ex_after_def ex_acct_def ex_opts_def saturatingSub_def)
  have l: "ledger_mem (ex_snap 60) ''pve1'' (res ?a') = - 5"
    by (simp add: ledger_mem_def res_mem_def observedMem_def ex_res_def ex_snap_def map_get_def)
  have "CommittedBytes (stateLocked ?a' (ex_snap 60) ''pve1'') = 105"
    using stateLocked_exact(1) [OF b t] l by simp
  with R t u l show ?thesis
    using ex_resources [of 60] by (intro exI [of _ ex_acct] exI) auto
qed

text \<open>The guest rows that count against a node.\<close>

definition counts :: "Accountant \<Rightarrow> string \<Rightarrow> ClusterResource \<Rightarrow> bool" where
  "counts a node r \<longleftrightarrow> (Type r = ''qemu'' \<or> Type r = ''lxc'') \<and> rNode r = node \<and> want a node \<and> rTemplate r = 0 \<and>
     (rStatus r \<noteq> ''stopped'' \<or> owns a (rTags r) (rVMID r))"

lemma u64_add: "u64 (u64 x + y) = u64 (x + y)"
  by (simp add: u64_def mod_add_left_eq)

lemma fetch_fold:
  fixes node :: string
  assumes "foldl (fetch_row a) (\<lparr>snapNodes = Map.empty, guestMem = Map.empty, guestVCPU = Map.empty\<rparr>, Map.empty) rs
    = (snap, sums)"
  shows "(case sums node of None \<Rightarrow> (0, 0) | Some mc \<Rightarrow> mc) =
      (u64 (sum_list (map MaxMem (filter (counts a node) rs))), sum_list (map MaxCPU (filter (counts a node) rs))) \<and>
    (snapNodes snap node \<noteq> None \<longrightarrow>
      (\<exists>r \<in> set rs. Type r = ''node'' \<and> rNode r = node \<and> want a node \<and> (rStatus r = '''' \<or> rStatus r = ''online'')))"
  using assms
proof (induction rs arbitrary: snap sums rule: rev_induct)
  case Nil
  then show ?case by (auto simp: u64_def)
next
  case (snoc r rs)
  obtain snap0 sums0 where p: "foldl (fetch_row a)
    (\<lparr>snapNodes = Map.empty, guestMem = Map.empty, guestVCPU = Map.empty\<rparr>, Map.empty) rs = (snap0, sums0)"
    by fastforce
  from snoc.prems p have e: "fetch_row a (snap0, sums0) r = (snap, sums)" by simp
  note IH = snoc.IH [OF p]
  show ?case
  proof (cases "counts a node r")
    case True
    then have "sums node = (case sums0 node of None \<Rightarrow> Some (u64 (0 + MaxMem r), 0 + MaxCPU r)
        | Some (m, c) \<Rightarrow> Some (u64 (m + MaxMem r), c + MaxCPU r))" "snapNodes snap = snapNodes snap0"
      using e by (auto simp: fetch_row_def counts_def holdsMemory_def guestStopped_def split: option.splits if_splits)
    then have "(case sums node of None \<Rightarrow> (0, 0) | Some mc \<Rightarrow> mc) =
        (case (case sums0 node of None \<Rightarrow> (0, 0) | Some mc \<Rightarrow> mc) of (m, c) \<Rightarrow> (u64 (m + MaxMem r), c + MaxCPU r))"
      "snapNodes snap node = snapNodes snap0 node"
      by (auto split: option.splits)
    with IH True show ?thesis by (auto simp: u64_add)
  next
    case False
    then have "sums node = sums0 node"
      using e by (auto simp: fetch_row_def counts_def holdsMemory_def guestStopped_def split: if_splits option.splits)
    moreover have "snapNodes snap node \<noteq> None \<longrightarrow> snapNodes snap0 node \<noteq> None \<or>
      Type r = ''node'' \<and> rNode r = node \<and> want a node \<and> (rStatus r = '''' \<or> rStatus r = ''online'')"
      using e by (auto simp: fetch_row_def split: if_splits option.splits)
    ultimately show ?thesis using IH False by auto
  qed
qed

text \<open>
  What a snapshot charges to a node: the configured memory and vCPUs of exactly the guests on it
  that are not templates and either are not stopped or belong to this orchestrator, by owner tag or
  by VMID range; and a node is in the snapshot only when it is declared and not reported offline, so
  nothing is admitted to any other node.
\<close>

theorem fetch_counts_held_memory:
  assumes "snapNodes (fetch a rs) node = Some t"
  shows "sumMem t = u64 (sum_list (map MaxMem (filter (counts a node) rs))) \<and>
    sumVCPU t = sum_list (map MaxCPU (filter (counts a node) rs)) \<and>
    (\<exists>r \<in> set rs. Type r = ''node'' \<and> rNode r = node \<and> want a node \<and> (rStatus r = '''' \<or> rStatus r = ''online''))"
proof -
  obtain snap sums where p: "foldl (fetch_row a)
    (\<lparr>snapNodes = Map.empty, guestMem = Map.empty, guestVCPU = Map.empty\<rparr>, Map.empty) rs = (snap, sums)"
    by fastforce
  with assms fetch_fold [OF p, of node] show ?thesis
    by (auto simp: fetch_def split: option.splits)
qed

theorem fetch_counts_held_memory_witness:
  "\<exists>t. snapNodes (fetch ex_acct [ex_guest 500 60, ex_node, ex_guest 501 50]) ''pve1'' = Some t \<and>
     sumMem t = u64 (sum_list (map MaxMem (filter (counts ex_acct ''pve1'')
       [ex_guest 500 60, ex_node, ex_guest 501 50])))"
proof -
  obtain t where "snapNodes (fetch ex_acct [ex_guest 500 60, ex_node, ex_guest 501 50]) ''pve1'' = Some t"
    by (simp add: ex_fetch ex_snap_def)
  with fetch_counts_held_memory show ?thesis by blast
qed

lemma sweep_one_res:
  assumes "sweep_one snap now r = Some r'"
  shows "resNode r' = resNode r \<and> res_mem snap r' = res_mem snap r \<and> shape r' = shape r"
proof -
  have "sum_list (map (map_get m) (filter (\<lambda>v. m v \<noteq> None) vs)) = sum_list (map (map_get m) vs)"
    for m :: "int \<rightharpoonup> int" and vs by (induction vs) (auto simp: map_get_def)
  moreover have "r' = r\<lparr>freeing := filter (\<lambda>v. guestMem snap v \<noteq> None) (freeing r)\<rparr>"
    using assms by (auto simp: sweep_one_def split: if_splits)
  ultimately show ?thesis by (simp add: res_mem_def observedMem_def)
qed

text \<open>
  Retiring reservations never frees capacity: a sweep that drops no expired reservation leaves
  every node's ledger at least where it was: a reservation goes only when the row of its own guest
  carries the whole claim, and a dropped freeing credit was no longer worth anything.
\<close>

theorem sweep_conservative:
  assumes "nonneg (guestMem snap)" and "\<forall>r \<in> set (res a). now \<le> expires r"
  shows "ledger_mem snap node (res a) \<le> ledger_mem snap node (res (sweepLocked a snap now))"
proof -
  have "ledger_mem snap node rs \<le> ledger_mem snap node (List.map_filter (sweep_one snap now) rs)"
    if "\<forall>r \<in> set rs. now \<le> expires r" for rs
    using that
  proof (induction rs)
    case (Cons r rs)
    show ?case
    proof (cases "sweep_one snap now r")
      case None
      then have "res_mem snap r \<le> 0"
        using Cons.prems sum_get_nonneg [OF assms(1), of "freeing r"]
        by (auto simp: sweep_one_def res_mem_def observedMem_def split: if_splits)
      with None Cons show ?thesis by (auto simp: ledger_mem_def List.map_filter_simps)
    next
      case (Some r')
      with sweep_one_res [OF Some] Cons show ?thesis by (auto simp: ledger_mem_def List.map_filter_simps)
    qed
  qed (simp add: ledger_mem_def List.map_filter_simps)
  with assms(2) show ?thesis by (simp add: sweepLocked_def)
qed

theorem sweep_conservative_witness:
  "ledger_mem (ex_snap 60) ''pve1'' [(ex_res 45 [])\<lparr>resVmid := 501\<rparr>, ex_res 20 [777]] \<le>
     ledger_mem (ex_snap 60) ''pve1'' (res (sweepLocked
       (ex_acct\<lparr>res := [(ex_res 45 [])\<lparr>resVmid := 501\<rparr>, ex_res 20 [777]]\<rparr>) (ex_snap 60) 7))"
  using sweep_conservative [of "ex_snap 60" "ex_acct\<lparr>res := [(ex_res 45 [])\<lparr>resVmid := 501\<rparr>, ex_res 20 [777]]\<rparr>" 7]
  by (simp add: nonneg_def ex_snap_def ex_res_def)

end
