(* ===== verification/NodeSelector.thy ===== *)
theory NodeSelector
  imports NodeCap Complex_Main "HOL-Library.AList"
begin

text \<open>
  Placement (\<^verbatim>\<open>internal/nodeselector/nodeselector.go\<close>): the three base strategies and the
  affinity and capacity wrappers around them. A selector is a function of what its environment
  returns, its state and the hint; it returns a node or an error, and the new state. The locale
  \<open>selector\<close> is the contract of \<^verbatim>\<open>Select\<close>: the node it returns is one it knows and is
  not to be avoided. A load score (\<^verbatim>\<open>float64\<close>) is the rational it denotes and its computation
  the parameter \<open>load\<close>; the Go map of scores is an association list in whatever order the range
  loop visits it.
\<close>

record ExistingVM =
  existingNode :: string
  existingProfile :: string

record Hint =
  Avoid :: "string list"
  hintProfile :: string
  ExistingVMs :: "ExistingVM list"
  hintShape :: Shape

datatype selector_error =
    ErrEmptyNode | ErrNoNodes | ErrAllAvoided | ErrNoEligibleNodes | ErrFetchScores
  | ErrAffinityRequireUnsatisfiable | ErrAffinityNoNode | ErrNoCapacity | ErrNoUniverse

type_synonym ('e, 's) sel = "'e \<Rightarrow> 's \<Rightarrow> Hint \<Rightarrow> (selector_error + string) \<times> 's"

section \<open>Single\<close>

definition NewSingle :: "string \<Rightarrow> selector_error + string" where
  "NewSingle node = (if node = '''' then Inl ErrEmptyNode else Inr node)"

definition single_Select :: "(unit, string) sel" where
  "single_Select e s hint = (if s \<in> set (Avoid hint) then (Inl ErrAllAvoided, s) else (Inr s, s))"

section \<open>Round robin\<close>

record roundRobin =
  rrNodes :: "string list"
  rrNext :: nat

definition NewRoundRobin :: "string list \<Rightarrow> selector_error + roundRobin" where
  "NewRoundRobin nodes =
     (if length nodes = 0 then Inl ErrNoNodes else Inr \<lparr>rrNodes = nodes, rrNext = 0\<rparr>)"

fun rr_loop :: "nat \<Rightarrow> roundRobin \<Rightarrow> Hint \<Rightarrow> (selector_error + string) \<times> roundRobin" where
  "rr_loop 0 r hint = (Inl ErrAllAvoided, r)"
| "rr_loop (Suc k) r hint =
     (let node = rrNodes r ! rrNext r;
          r' = r\<lparr>rrNext := (rrNext r + 1) mod length (rrNodes r)\<rparr> in
      if node \<notin> set (Avoid hint) then (Inr node, r') else rr_loop k r' hint)"

definition rr_Select :: "(unit, roundRobin) sel" where
  "rr_Select e r hint = rr_loop (length (rrNodes r)) r hint"

section \<open>Least loaded\<close>

record NodeStatus =
  nsNode :: string
  nsCPU :: rat
  nsMem :: int
  nsMaxMem :: int

type_synonym scores = "(string \<times> rat) list"

definition Fetch :: "(NodeStatus \<Rightarrow> rat) \<Rightarrow> string list \<Rightarrow> NodeStatus list \<Rightarrow> scores" where
  "Fetch load nodes statuses =
     foldl (\<lambda>out ns. if length nodes = 0 \<or> nsNode ns \<in> set nodes
                      then AList.update (nsNode ns) (load ns) out else out) [] statuses"

record leastLoaded =
  llLoad :: "NodeStatus \<Rightarrow> rat"
  llNodes :: "string list"
  llCache :: "scores option"
  llLastFresh :: "scores option"

text \<open>\<^verbatim>\<open>scores\<close>: \<open>hit\<close> says whether the TTL cache still serves its entry, \<open>reply\<close> is the API's answer.\<close>

definition ll_scores ::
  "bool \<times> NodeStatus list option \<Rightarrow> leastLoaded \<Rightarrow> (selector_error + scores) \<times> leastLoaded" where
  "ll_scores e l =
     (case (if fst e then llCache l else None) of
        Some sc \<Rightarrow> (Inr sc, l)
      | None \<Rightarrow>
          (case snd e of
             Some statuses \<Rightarrow>
               (let fresh = Fetch (llLoad l) (llNodes l) statuses in
                (Inr fresh, l\<lparr>llCache := Some fresh, llLastFresh := Some fresh\<rparr>))
           | None \<Rightarrow>
               (case llLastFresh l of
                  Some prev \<Rightarrow> (Inr prev, l)
                | None \<Rightarrow> (Inl ErrFetchScores, l))))"

fun best_node :: "Hint \<Rightarrow> string \<times> rat \<Rightarrow> scores \<Rightarrow> string" where
  "best_node hint (bestNode, bestScore) [] = bestNode"
| "best_node hint (bestNode, bestScore) ((node, score) # rest) =
     (if node \<in> set (Avoid hint) then best_node hint (bestNode, bestScore) rest
      else if bestNode = '''' \<or> score < bestScore then best_node hint (node, score) rest
      else best_node hint (bestNode, bestScore) rest)"

definition ll_Select :: "(bool \<times> NodeStatus list option, leastLoaded) sel" where
  "ll_Select e l hint =
     (case ll_scores e l of
        (Inl err, l') \<Rightarrow> (Inl err, l')
      | (Inr sc, l') \<Rightarrow>
          if length sc = 0 then (Inl ErrNoEligibleNodes, l')
          else
            (let n = best_node hint ('''', 0) sc in
             if n = '''' then (Inl ErrAllAvoided, l') else (Inr n, l')))"

section \<open>Affinity wrapper\<close>

record AffinityRule =
  matchProfile :: string
  PreferNodes :: "string list"
  Require :: bool
  AntiAffinityWith :: string

definition matchingRule :: "AffinityRule list \<Rightarrow> string \<Rightarrow> AffinityRule option" where
  "matchingRule rules profile = find (\<lambda>r. matchProfile r = '''' \<or> matchProfile r = profile) rules"

definition eligibleFrom :: "string list \<Rightarrow> string set \<Rightarrow> string set \<Rightarrow> string set" where
  "eligibleFrom candidates excluded avoid = set (filter (\<lambda>n. n \<notin> excluded \<and> n \<notin> avoid) candidates)"

definition affinity_excluded :: "AffinityRule \<Rightarrow> Hint \<Rightarrow> string set" where
  "affinity_excluded rule hint =
     (if AntiAffinityWith rule \<noteq> ''''
      then existingNode ` set (filter (\<lambda>vm. existingProfile vm = AntiAffinityWith rule) (ExistingVMs hint))
      else {})"

definition affinity_Select :: "('e, 's) sel \<Rightarrow> AffinityRule list \<Rightarrow> string list \<Rightarrow> ('e, 's) sel" where
  "affinity_Select underlying rules allNodes e s hint =
     (case matchingRule rules (hintProfile hint) of
        None \<Rightarrow> underlying e s hint
      | Some rule \<Rightarrow>
          (let excluded = affinity_excluded rule hint;
               preExistingAvoid = set (Avoid hint);
               eligible = (if length (PreferNodes rule) > 0
                           then eligibleFrom (PreferNodes rule) excluded preExistingAvoid
                           else eligibleFrom allNodes excluded preExistingAvoid);
               delegate = (\<lambda>el. underlying e s
                 (hint\<lparr>Avoid := Avoid hint @ filter (\<lambda>n. n \<notin> el) allNodes\<rparr>)) in
           if eligible = {} then
             (if Require rule then (Inl ErrAffinityRequireUnsatisfiable, s)
              else
                (let eligible' = eligibleFrom allNodes excluded preExistingAvoid in
                 if eligible' = {} then (Inl ErrAffinityNoNode, s) else delegate eligible'))
           else delegate eligible))"

text \<open>\<^verbatim>\<open>NewAffinity\<close>: without rules the underlying selector is used as it is.\<close>

definition NewAffinity :: "('e, 's) sel \<Rightarrow> AffinityRule list \<Rightarrow> string list \<Rightarrow> selector_error + ('e, 's) sel" where
  "NewAffinity underlying rules allNodes =
     (if length rules = 0 then Inr underlying
      else if length allNodes = 0 then Inl ErrNoUniverse
      else Inr (affinity_Select underlying rules allNodes))"

section \<open>Capacity wrapper\<close>

definition capacity_Select :: "('e, 's) sel \<Rightarrow> string list \<Rightarrow> (env \<times> 'e, Accountant \<times> 's) sel" where
  "capacity_Select underlying allNodes e s hint =
     (case (e, s) of ((cenv, ue), (acct, us)) \<Rightarrow>
       (let delegate = (\<lambda>acct' h. case underlying ue us h of (r, us') \<Rightarrow> (r, (acct', us'))) in
        if MemoryBytes (hintShape hint) = 0 \<and> VCPUs (hintShape hint) = 0 then delegate acct hint
        else
          (let candidates = filter (\<lambda>n. n \<notin> set (Avoid hint)) allNodes in
           if length candidates = 0 then delegate acct hint
           else
             case Fits acct cenv (hintShape hint) candidates of
               (Inl _, acct') \<Rightarrow> (Inl ErrNoCapacity, (acct', us))
             | (Inr fits, acct') \<Rightarrow>
                 (let full = filter (\<lambda>n. fits n \<noteq> Some True) candidates in
                  if length full = length candidates then (Inl ErrNoCapacity, (acct', us))
                  else delegate acct' (hint\<lparr>Avoid := Avoid hint @ full\<rparr>)))))"

section \<open>The contract of Select\<close>

locale selector =
  fixes inv :: "'s \<Rightarrow> bool"
    and univ :: "'s \<Rightarrow> string set"
    and select :: "'e \<Rightarrow> 's \<Rightarrow> Hint \<Rightarrow> (selector_error + string) \<times> 's"
  assumes select_sound: "inv s \<Longrightarrow> select e s h = (Inr n, s') \<Longrightarrow> n \<in> univ s \<and> n \<notin> set (Avoid h)"
    and select_inv: "inv s \<Longrightarrow> select e s h = (r, s') \<Longrightarrow> inv s' \<and> univ s' = univ s"

text \<open>An affinity wrapper over a selector that knows only declared nodes.\<close>

definition obeys :: "AffinityRule list \<Rightarrow> Hint \<Rightarrow> string \<Rightarrow> bool" where
  "obeys rules h n \<longleftrightarrow>
     (\<forall>rule. matchingRule rules (hintProfile h) = Some rule \<longrightarrow>
        (Require rule \<and> PreferNodes rule \<noteq> [] \<longrightarrow> n \<in> set (PreferNodes rule)) \<and>
        (AntiAffinityWith rule \<noteq> '''' \<longrightarrow>
          (\<forall>vm \<in> set (ExistingVMs h). existingProfile vm = AntiAffinityWith rule \<longrightarrow> existingNode vm \<noteq> n)))"

locale affinity_over = selector inv univ select
  for inv :: "'s \<Rightarrow> bool" and univ :: "'s \<Rightarrow> string set"
    and select :: "'e \<Rightarrow> 's \<Rightarrow> Hint \<Rightarrow> (selector_error + string) \<times> 's" +
  fixes rules :: "AffinityRule list" and allNodes :: "string list"
begin

lemma delegate_sound:
  assumes "inv s" and "univ s \<subseteq> set allNodes"
    and "select e s (h\<lparr>Avoid := Avoid h @ filter (\<lambda>n. n \<notin> el) allNodes\<rparr>) = (Inr n, s')"
  shows "n \<in> univ s \<and> n \<notin> set (Avoid h) \<and> n \<in> el"
  using select_sound [OF assms(1,3)] assms(2) by auto

lemma affinity_sound:
  assumes "inv s" and "univ s \<subseteq> set allNodes"
    and "affinity_Select select rules allNodes e s h = (Inr n, s')"
  shows "n \<in> univ s \<and> n \<notin> set (Avoid h) \<and> obeys rules h n"
proof (cases "matchingRule rules (hintProfile h)")
  case None
  with assms select_sound [OF assms(1)] show ?thesis by (simp add: affinity_Select_def obeys_def)
next
  case (Some rule)
  let ?ex = "affinity_excluded rule h"
  let ?el = "if length (PreferNodes rule) > 0 then eligibleFrom (PreferNodes rule) ?ex (set (Avoid h))
    else eligibleFrom allNodes ?ex (set (Avoid h))"
  from assms(3) Some obtain el where
    d: "select e s (h\<lparr>Avoid := Avoid h @ filter (\<lambda>n. n \<notin> el) allNodes\<rparr>) = (Inr n, s')"
    and el: "el = ?el \<or> \<not> Require rule \<and> el = eligibleFrom allNodes ?ex (set (Avoid h))"
    by (auto simp: affinity_Select_def Let_def split: if_splits)
  have n: "n \<in> univ s" "n \<notin> set (Avoid h)" "n \<in> el" using delegate_sound [OF assms(1,2) d] by auto
  with el have "n \<notin> ?ex" "Require rule \<and> PreferNodes rule \<noteq> [] \<longrightarrow> n \<in> set (PreferNodes rule)"
    by (auto simp: eligibleFrom_def split: if_splits)
  with n Some show ?thesis by (auto simp: obeys_def affinity_excluded_def)
qed

lemma affinity_inv:
  assumes "inv s" and "affinity_Select select rules allNodes e s h = (r, s')"
  shows "inv s' \<and> univ s' = univ s"
  using assms select_inv [OF assms(1)]
  by (auto simp: affinity_Select_def Let_def split: option.splits if_splits)

end

sublocale affinity_over \<subseteq> aff: selector "\<lambda>s. inv s \<and> univ s \<subseteq> set allNodes" univ
  "affinity_Select select rules allNodes"
  by unfold_locales (use affinity_sound affinity_inv in blast)+

text \<open>The capacity wrapper over any selector that knows only declared nodes.\<close>

definition fits_now :: "Accountant \<Rightarrow> env \<Rightarrow> Shape \<Rightarrow> string \<Rightarrow> bool" where
  "fits_now acct cenv sh n \<longleftrightarrow> (\<exists>fits. fst (Fits acct cenv sh [n]) = Inr fits \<and> fits n = Some True)"

lemma Fits_at:
  assumes "Fits acct cenv sh candidates = (Inr fits, acct')" and "n \<in> set candidates"
  shows "fits n = Some True \<longleftrightarrow> fits_now acct cenv sh n"
  using assms
  by (auto simp: Fits_def fits_now_def Let_def map_of_map_restrict split: prod.splits sum.splits)

locale capacity_over = selector inv univ select
  for inv :: "'s \<Rightarrow> bool" and univ :: "'s \<Rightarrow> string set"
    and select :: "'e \<Rightarrow> 's \<Rightarrow> Hint \<Rightarrow> (selector_error + string) \<times> 's" +
  fixes allNodes :: "string list"
begin

lemma capacity_delegates:
  assumes "capacity_Select select allNodes (cenv, ue) (acct, us) h = (Inr n, (acct', us'))"
  obtains av where "select ue us (h\<lparr>Avoid := Avoid h @ av\<rparr>) = (Inr n, us')"
    and "(MemoryBytes (hintShape h) = 0 \<and> VCPUs (hintShape h) = 0) \<or>
      (\<forall>m \<in> set allNodes. m \<notin> set (Avoid h @ av) \<longrightarrow> fits_now acct cenv (hintShape h) m)"
proof (cases "MemoryBytes (hintShape h) = 0 \<and> VCPUs (hintShape h) = 0")
  case True
  with assms that [of "[]"] show ?thesis by (auto simp: capacity_Select_def Let_def split: prod.splits)
next
  case False
  let ?c = "filter (\<lambda>n. n \<notin> set (Avoid h)) allNodes"
  show ?thesis
  proof (cases "?c = []")
    case True
    with assms that [of "[]"] False show ?thesis
      by (auto simp: capacity_Select_def Let_def filter_empty_conv split: prod.splits)
  next
    case ne: False
    obtain r acct1 where F: "Fits acct cenv (hintShape h) ?c = (r, acct1)" by fastforce
    with assms False ne obtain fits where r: "r = Inr fits"
      and s: "select ue us (h\<lparr>Avoid := Avoid h @ filter (\<lambda>n. fits n \<noteq> Some True) ?c\<rparr>) = (Inr n, us')"
      by (auto simp: capacity_Select_def Let_def split: prod.splits sum.splits if_splits)
    have "fits_now acct cenv (hintShape h) m" if "m \<in> set allNodes"
      "m \<notin> set (Avoid h @ filter (\<lambda>n. fits n \<noteq> Some True) ?c)" for m
      using that Fits_at [OF F [unfolded r], of m] by auto
    with that [OF s] show ?thesis by blast
  qed
qed

lemma capacity_inv:
  assumes "inv us" and "capacity_Select select allNodes (cenv, ue) (acct, us) h = (r, (acct', us'))"
  shows "inv us' \<and> univ us' = univ us"
  using assms select_inv [OF assms(1)]
  by (auto simp: capacity_Select_def Let_def split: prod.splits sum.splits if_splits)

end

text \<open>The production layering, capacity over affinity over a base strategy.\<close>

sublocale affinity_over \<subseteq> cap: capacity_over "\<lambda>s. inv s \<and> univ s \<subseteq> set allNodes" univ
  "affinity_Select select rules allNodes" allNodes
  by unfold_locales

lemma obeys_Avoid [simp]: "obeys rules (h\<lparr>Avoid := av\<rparr>) n = obeys rules h n"
  by (simp add: obeys_def)

context affinity_over
begin

lemma stack_sound:
  assumes "inv us" and "univ us \<subseteq> set allNodes"
    and "capacity_Select (affinity_Select select rules allNodes) allNodes (cenv, ue) (acct, us) h =
      (Inr n, (acct', us'))"
  shows "n \<in> univ us \<and> n \<notin> set (Avoid h) \<and> obeys rules h n \<and>
    (MemoryBytes (hintShape h) = 0 \<and> VCPUs (hintShape h) = 0 \<or> fits_now acct cenv (hintShape h) n)"
proof -
  obtain av where s: "affinity_Select select rules allNodes ue us (h\<lparr>Avoid := Avoid h @ av\<rparr>) = (Inr n, us')"
    and f: "(MemoryBytes (hintShape h) = 0 \<and> VCPUs (hintShape h) = 0) \<or>
      (\<forall>m \<in> set allNodes. m \<notin> set (Avoid h @ av) \<longrightarrow> fits_now acct cenv (hintShape h) m)"
    using cap.capacity_delegates [OF assms(3)] by blast
  from affinity_sound [OF assms(1,2) s] assms(2) f show ?thesis by auto
qed

end

section \<open>The base strategies\<close>

interpretation single: selector "\<lambda>s. s \<noteq> ''''" "\<lambda>s. {s}" single_Select
  by unfold_locales (auto simp: single_Select_def split: if_splits)

definition wf_rr :: "roundRobin \<Rightarrow> bool" where
  "wf_rr r \<longleftrightarrow> rrNext r < length (rrNodes r)"

text \<open>The loop visits the nodes in cyclic order from the cursor and leaves it behind the one it returns.\<close>

definition rr_at :: "roundRobin \<Rightarrow> nat \<Rightarrow> string" where
  "rr_at r j = rrNodes r ! ((rrNext r + j) mod length (rrNodes r))"

lemma find_map: "find P (map f xs) = map_option f (find (P \<circ> f) xs)"
  by (induction xs) auto

lemma rr_loop_spec:
  assumes "wf_rr r"
  shows "rr_loop k r h =
    (case find (\<lambda>j. rr_at r j \<notin> set (Avoid h)) [0..<k] of
       None \<Rightarrow> (Inl ErrAllAvoided, r\<lparr>rrNext := (rrNext r + k) mod length (rrNodes r)\<rparr>)
     | Some j \<Rightarrow> (Inr (rr_at r j), r\<lparr>rrNext := (rrNext r + j + 1) mod length (rrNodes r)\<rparr>))"
  using assms
proof (induction k arbitrary: r)
  case 0
  then show ?case by (simp add: wf_rr_def)
next
  case (Suc k)
  let ?r = "r\<lparr>rrNext := (rrNext r + 1) mod length (rrNodes r)\<rparr>"
  have z: "rr_at r 0 = rrNodes r ! rrNext r" using Suc.prems by (simp add: rr_at_def wf_rr_def)
  have "length (rrNodes r) \<noteq> 0" using Suc.prems by (auto simp: wf_rr_def)
  then have wf: "wf_rr ?r" by (simp add: wf_rr_def)
  have at: "rr_at ?r j = rr_at r (Suc j)" for j by (simp add: rr_at_def mod_add_left_eq)
  have nxt: "(rrNext ?r + j) mod length (rrNodes r) = (rrNext r + Suc j) mod length (rrNodes r)" for j
    by (simp add: mod_add_left_eq)
  have "[0..<Suc k] = 0 # map Suc [0..<k]" by (simp add: map_Suc_upt upt_conv_Cons)
  with Suc.IH [OF wf] z at nxt [of k] nxt [of "Suc _"] show ?case
    by (auto simp: Let_def find_map comp_def split: option.split)
qed

lemma rr_loop_sound:
  assumes "wf_rr r" and "rr_loop k r h = (q, r')"
  shows "wf_rr r' \<and> rrNodes r' = rrNodes r \<and> (\<forall>n. q = Inr n \<longrightarrow> n \<in> set (rrNodes r) \<and> n \<notin> set (Avoid h))"
proof -
  have "length (rrNodes r) \<noteq> 0" using assms(1) by (auto simp: wf_rr_def)
  then have "rr_at r j \<in> set (rrNodes r)" for j by (simp add: rr_at_def)
  with assms(2) \<open>length (rrNodes r) \<noteq> 0\<close> show ?thesis
    unfolding rr_loop_spec [OF assms(1)]
    by (auto simp: wf_rr_def split: option.splits dest: find_SomeD)
qed

interpretation rr: selector wf_rr "\<lambda>r. set (rrNodes r)" rr_Select
  by unfold_locales (auto simp: rr_Select_def dest: rr_loop_sound)

definition ll_univ :: "leastLoaded \<Rightarrow> string set" where
  "ll_univ l = (if llNodes l = [] then UNIV else set (llNodes l))"

definition nodes_in :: "scores \<Rightarrow> string set \<Rightarrow> bool" where
  "nodes_in sc U \<longleftrightarrow> (\<forall>p \<in> set sc. fst p \<in> U)"

definition wf_ll :: "leastLoaded \<Rightarrow> bool" where
  "wf_ll l \<longleftrightarrow> (\<forall>sc. llCache l = Some sc \<or> llLastFresh l = Some sc \<longrightarrow> nodes_in sc (ll_univ l))"

lemma update_set: "set (AList.update k v al) \<subseteq> insert (k, v) (set al)"
  by (induction al) auto

lemma Fetch_nodes: "nodes_in (Fetch load nodes sts) (if nodes = [] then UNIV else set nodes)"
proof (induction sts rule: rev_induct)
  case Nil
  then show ?case by (simp add: Fetch_def nodes_in_def)
next
  case (snoc ns sts)
  let ?old = "Fetch load nodes sts"
  have F: "Fetch load nodes (sts @ [ns]) =
    (if length nodes = 0 \<or> nsNode ns \<in> set nodes then AList.update (nsNode ns) (load ns) ?old else ?old)"
    by (simp add: Fetch_def)
  have "fst p \<in> (if nodes = [] then UNIV else set nodes)" if "p \<in> set (Fetch load nodes (sts @ [ns]))" for p
    using that snoc update_set [of "nsNode ns" "load ns" ?old]
    by (auto simp: F nodes_in_def split: if_splits)
  then show ?case by (simp add: nodes_in_def)
qed

lemma ll_scores_wf:
  assumes "wf_ll l" and "ll_scores e l = (q, l')"
  shows "wf_ll l' \<and> ll_univ l' = ll_univ l \<and> (\<forall>sc. q = Inr sc \<longrightarrow> nodes_in sc (ll_univ l))"
  using assms Fetch_nodes [of "llLoad l" "llNodes l"]
  by (auto simp: ll_scores_def wf_ll_def ll_univ_def Let_def split: option.splits if_splits)

lemma best_node_sound:
  "best_node h (b, s) sc = b \<or>
    (best_node h (b, s) sc \<in> fst ` set sc \<and> best_node h (b, s) sc \<notin> set (Avoid h))"
proof (induction h "(b, s)" sc arbitrary: b s rule: best_node.induct)
  case (2 hint b s node score rest)
  then show ?case by (cases "node \<in> set (Avoid hint)"; cases "b = '''' \<or> score < s") auto
qed simp

lemma ll_Select_sound:
  assumes "wf_ll l" and "ll_Select e l h = (q, l')"
  shows "wf_ll l' \<and> ll_univ l' = ll_univ l \<and> (\<forall>n. q = Inr n \<longrightarrow> n \<in> ll_univ l \<and> n \<notin> set (Avoid h))"
proof -
  obtain r l1 where s: "ll_scores e l = (r, l1)" by fastforce
  have "best_node h ([], 0) sc \<in> ll_univ l \<and> best_node h ([], 0) sc \<notin> set (Avoid h)"
    if "r = Inr sc" "best_node h ([], 0) sc \<noteq> []" for sc
    using ll_scores_wf [OF assms(1) s] that best_node_sound [of h "[]" 0 sc] by (auto simp: nodes_in_def)
  with ll_scores_wf [OF assms(1) s] assms(2) s show ?thesis
    by (auto simp: ll_Select_def Let_def split: sum.splits if_splits)
qed

interpretation ll: selector wf_ll ll_univ ll_Select
  by unfold_locales (use ll_Select_sound in blast)+

interpretation ll_stack: affinity_over wf_ll ll_univ ll_Select rules allNodes
  for rules allNodes
  by unfold_locales

interpretation rr_stack: affinity_over wf_rr "\<lambda>r. set (rrNodes r)" rr_Select rules allNodes
  for rules allNodes
  by unfold_locales

text \<open>
  C27. Placement is safe: a node chosen by the production selector (capacity over affinity over
  least-loaded) is one of the declared nodes, is not in the hint's avoid list, satisfies the matching
  affinity rule (a required pin is honoured and no VM of the anti-affinity profile runs there), and has
  room for the shape according to the accountant when the shape is not empty.
\<close>

theorem placement_sound:
  assumes "wf_ll l" and "ll_univ l \<subseteq> set allNodes"
    and "capacity_Select (affinity_Select ll_Select rules allNodes) allNodes (cenv, lenv) (acct, l) hint =
      (Inr node, st')"
  shows "node \<in> set allNodes \<and> node \<notin> set (Avoid hint) \<and> obeys rules hint node \<and>
    (MemoryBytes (hintShape hint) = 0 \<and> VCPUs (hintShape hint) = 0 \<or> fits_now acct cenv (hintShape hint) node)"
proof -
  obtain a' l' where st: "st' = (a', l')" by (cases st')
  from ll_stack.stack_sound [OF assms(1,2) assms(3) [unfolded st]] assms(2) show ?thesis by auto
qed

definition ex_ll :: leastLoaded where
  "ex_ll = \<lparr>llLoad = nsCPU, llNodes = [''pve1'', ''pve2''], llCache = Some [(''pve2'', 1/10), (''pve1'', 1/2)],
     llLastFresh = None\<rparr>"

definition ex_hint :: Hint where
  "ex_hint = \<lparr>Avoid = [], hintProfile = ''pr'',
     ExistingVMs = [\<lparr>existingNode = ''pve2'', existingProfile = ''prod''\<rparr>], hintShape = \<lparr>MemoryBytes = 0, VCPUs = 0\<rparr>\<rparr>"

definition ex_rules :: "AffinityRule list" where
  "ex_rules = [\<lparr>matchProfile = ''pr'', PreferNodes = [], Require = False, AntiAffinityWith = ''prod''\<rparr>]"

lemma ex_select:
  "capacity_Select (affinity_Select ll_Select ex_rules [''pve1'', ''pve2'']) [''pve1'', ''pve2'']
     ((True, None, 0), (True, None)) (ex_acct, ex_ll) ex_hint = (Inr ''pve1'', (ex_acct, ex_ll))"
  by (simp add: capacity_Select_def affinity_Select_def ll_Select_def ll_scores_def ex_ll_def ex_hint_def
      ex_rules_def matchingRule_def affinity_excluded_def eligibleFrom_def Let_def)

theorem placement_sound_witness:
  "''pve1'' \<in> set [''pve1'', ''pve2''] \<and> obeys ex_rules ex_hint ''pve1''"
proof -
  have "wf_ll ex_ll" "ll_univ ex_ll \<subseteq> set [''pve1'', ''pve2'']"
    by (simp_all add: wf_ll_def nodes_in_def ll_univ_def ex_ll_def)
  from placement_sound [OF this ex_select] show ?thesis by blast
qed

lemma rr_surj:
  assumes "wf_rr r" and "n \<in> set (rrNodes r)"
  shows "\<exists>j < length (rrNodes r). rr_at r j = n"
proof -
  let ?len = "length (rrNodes r)"
  from assms(2) obtain i where i: "i < ?len" "rrNodes r ! i = n" by (auto simp: in_set_conv_nth)
  have lt: "rrNext r < ?len" using assms(1) by (simp add: wf_rr_def)
  define j where "j = (if rrNext r \<le> i then i - rrNext r else ?len + i - rrNext r)"
  have "j < ?len" "(rrNext r + j) mod ?len = i" using i(1) lt by (auto simp: j_def)
  with i(2) show ?thesis by (auto simp: rr_at_def)
qed

text \<open>
  Round robin is complete and rotates: \<^verbatim>\<open>Select\<close> fails only when every node is to be
  avoided; otherwise it returns the first node, in cyclic order from the cursor, that is not to be
  avoided, and moves the cursor just past it.
\<close>

theorem round_robin_rotates:
  assumes "NewRoundRobin nodes = Inr r0" and "r = r0\<lparr>rrNext := i\<rparr>" and "i < length nodes"
  shows "(fst (rr_Select () r h) = Inl ErrAllAvoided \<and> set nodes \<subseteq> set (Avoid h)) \<or>
    (\<exists>j < length nodes. rr_Select () r h =
        (Inr (nodes ! ((i + j) mod length nodes)), r\<lparr>rrNext := (i + j + 1) mod length nodes\<rparr>) \<and>
      nodes ! ((i + j) mod length nodes) \<notin> set (Avoid h) \<and>
      (\<forall>k < j. nodes ! ((i + k) mod length nodes) \<in> set (Avoid h)))"
proof -
  have r: "rrNodes r = nodes" "rrNext r = i" and wf: "wf_rr r"
    using assms by (auto simp: NewRoundRobin_def wf_rr_def split: if_splits)
  note S = rr_loop_spec [OF wf, of "length nodes" h]
  show ?thesis
  proof (cases "find (\<lambda>j. rr_at r j \<notin> set (Avoid h)) [0..<length nodes]")
    case None
    then have "\<forall>j < length nodes. rr_at r j \<in> set (Avoid h)" by (simp add: find_None)
    with rr_surj [OF wf] r have "set nodes \<subseteq> set (Avoid h)" by fastforce
    with S None show ?thesis by (simp add: rr_Select_def r)
  next
    case (Some j)
    then obtain m where m: "m < length nodes" "rr_at r m \<notin> set (Avoid h)"
      "\<forall>k < m. rr_at r k \<in> set (Avoid h)" "j = m"
      by (auto simp: find_Some_iff)
    with S Some show ?thesis by (intro disjI2 exI [of _ j]) (auto simp: rr_Select_def rr_at_def r)
  qed
qed

theorem round_robin_rotates_witness:
  "\<exists>n. fst (rr_Select () \<lparr>rrNodes = [''a'', ''b''], rrNext = 1\<rparr> (ex_hint\<lparr>Avoid := [''b'']\<rparr>)) = Inr n \<and> n \<noteq> ''b''"
  using round_robin_rotates [of "[''a'', ''b'']" "\<lparr>rrNodes = [''a'', ''b''], rrNext = 0\<rparr>"
      "\<lparr>rrNodes = [''a'', ''b''], rrNext = 1\<rparr>" 1 "ex_hint\<lparr>Avoid := [''b'']\<rparr>"]
  by (auto simp: NewRoundRobin_def)

end
