(* ===== verification/Pool.thy ===== *)
theory Pool
  imports Store NodeCap Canary
begin

text \<open>
  The pool's data and its pure sizing code (\<^verbatim>\<open>internal/pool/pool.go\<close> and the sizing functions
  of \<^verbatim>\<open>internal/pool/manager.go\<close>): statistics, profile settings and their validation, the
  clone-need computation and its recycle credit, the split of the demand signal, and the lowest-free
  VMID search.
\<close>

section \<open>Statistics and settings (pool.go)\<close>

datatype pool_error =
    PoolErrNoneAvailable | PoolErrAtCapacity | PoolErrPreemptRefused | PoolErrUnknownProfile
  | PoolErrStore store_error | PoolErrSizesNegative | PoolErrMaxNotPositive | PoolErrSizesExceedMax
  | PoolErrProfileName | PoolErrNodesRequired | PoolErrRangeExhausted | PoolErrCancelled | PoolErrListOwned

record PoolStats =
  Provisioning :: int
  Warm :: int
  Booting :: int
  Hot :: int
  Assigned :: int
  Running :: int
  Recycling :: int
  Draining :: int
  Destroying :: int
  Poison :: int

definition Total :: "PoolStats \<Rightarrow> int" where
  "Total s = Provisioning s + Warm s + Booting s + Hot s + Assigned s + Running s + Recycling s +
     Draining s + Destroying s + Poison s"

definition Available :: "PoolStats \<Rightarrow> int" where
  "Available s = Hot s + Booting s"

definition Busy :: "PoolStats \<Rightarrow> int" where
  "Busy s = Assigned s + Running s"

definition LiveWarm :: "PoolStats \<Rightarrow> int" where
  "LiveWarm s = Warm s"

record poolVM =
  vmVMID :: int
  vmNode :: string
  vmName :: string
  vmProfile :: string

record RowSnapshot =
  snapVMID :: int
  snapNode :: string
  snapName :: string
  snapProfile :: string
  snapState :: State
  snapJobID :: int
  snapRunnerID :: int
  snapRecycleCount :: int
  snapStateSince :: time
  snapCreatedAt :: time

record RunnerInfo =
  riID :: int
  riOnline :: bool
  riBusy :: bool

record JobMetadata =
  metaOrg :: string
  metaRepo :: string
  metaPriorityClass :: string

definition Unlimited :: int where
  "Unlimited = 2147483647"

definition validateConfig :: "int \<Rightarrow> int \<Rightarrow> int \<Rightarrow> pool_error option" where
  "validateConfig hotSize warmSize maxConcurrent =
     (if hotSize < 0 \<or> warmSize < 0 then Some PoolErrSizesNegative
      else if maxConcurrent \<le> 0 then Some PoolErrMaxNotPositive
      else if hotSize + warmSize > maxConcurrent then Some PoolErrSizesExceedMax
      else None)"

section \<open>Profiles (manager.go)\<close>

record ProfileSettings =
  psName :: string
  psHotSize :: int
  psWarmSize :: int
  psMaxConcurrentRunners :: int
  psBootMaxAttempts :: int
  psVMMaxAge :: duration
  psTemplateVMID :: int
  psCPUCores :: int
  psMemoryMB :: int
  psHasIPAM :: bool

record PoolConfig =
  HotSize :: int
  WarmSize :: int
  MaxConcurrentRunners :: int
  VMMaxAge :: duration
  BootMaxAttempts :: int
  Profiles :: "ProfileSettings list"
  SnapshotRollbackMode :: bool
  VMNamePrefix :: string
  VMIDMin :: int
  VMIDMax :: int
  VMIDReuseCooldown :: duration
  LinkedClones :: bool
  TemplateNode :: string
  EvictIdleForDemand :: bool
  ConfigNodes :: "string list"
  HasOrphanCallback :: bool

definition normaliseProfiles :: "PoolConfig \<Rightarrow> ProfileSettings list" where
  "normaliseProfiles cfg =
     (if length (Profiles cfg) = 0 then
        [\<lparr>psName = DefaultProfileName, psHotSize = HotSize cfg, psWarmSize = WarmSize cfg,
          psMaxConcurrentRunners = MaxConcurrentRunners cfg, psBootMaxAttempts = BootMaxAttempts cfg,
          psVMMaxAge = VMMaxAge cfg, psTemplateVMID = 0, psCPUCores = 0, psMemoryMB = 0, psHasIPAM = False\<rparr>]
      else
        map (\<lambda>p. p\<lparr>psHotSize := (if psHotSize p = 0 then HotSize cfg else psHotSize p),
                  psWarmSize := (if psWarmSize p = 0 then WarmSize cfg else psWarmSize p),
                  psMaxConcurrentRunners :=
                    (if psMaxConcurrentRunners p = 0 then MaxConcurrentRunners cfg else psMaxConcurrentRunners p),
                  psBootMaxAttempts := (if psBootMaxAttempts p = 0 then BootMaxAttempts cfg else psBootMaxAttempts p),
                  psVMMaxAge := (if psVMMaxAge p = 0 then VMMaxAge cfg else psVMMaxAge p)\<rparr>)
          (Profiles cfg))"

section \<open>Clone needs (manager.go)\<close>

definition statsFromRaw :: "(State \<rightharpoonup> int) \<Rightarrow> PoolStats" where
  "statsFromRaw raw =
     \<lparr>Provisioning = map_get raw StateProvisioning, Warm = map_get raw StateWarm,
      Booting = map_get raw StateBooting, Hot = map_get raw StateHot, Assigned = map_get raw StateAssigned,
      Running = map_get raw StateRunning, Recycling = map_get raw StateRecycling,
      Draining = map_get raw StateDraining, Destroying = map_get raw StateDestroying,
      Poison = map_get raw StatePoison\<rparr>"

record returningCredit =
  creditBusy :: int
  creditRecycling :: int

definition burstDeficit :: "PoolStats \<Rightarrow> int \<Rightarrow> int \<Rightarrow> int \<Rightarrow> returningCredit \<Rightarrow> int" where
  "burstDeficit stats inflight hotProv desired credit =
     (let base = Available stats + hotProv + inflight in
      desired - (base + creditRecycling credit + Busy stats))"

definition computeCloneNeeds ::
  "PoolStats \<Rightarrow> int \<Rightarrow> int \<Rightarrow> int \<Rightarrow> int \<Rightarrow> int \<Rightarrow> int \<Rightarrow> int \<Rightarrow> returningCredit \<Rightarrow> int \<times> int" where
  "computeCloneNeeds stats inflight hotProv warmProv hotSize warmSize desired profileMax credit =
     (let base = Available stats + hotProv + inflight;
          busy = Busy stats;
          returning = creditBusy credit + creditRecycling credit;
          hotCredit0 = (if hotSize - base > returning then returning else hotSize - base);
          hotCredit = (if hotCredit0 < 0 then 0 else hotCredit0);
          warmCredit = returning - hotCredit;
          needIdle = hotSize - base - hotCredit;
          needBurst = burstDeficit stats inflight hotProv desired credit;
          need1 = (if needBurst > needIdle then needBurst else needIdle);
          need2 = (if need1 < 0 then 0 else need1);
          occupied = Available stats + Recycling stats + hotProv + inflight + busy;
          room = profileMax - occupied;
          need3 = (if room < need2 then room else need2);
          needHot = (if need3 < 0 then 0 else need3);
          warmInflight = LiveWarm stats + warmProv + warmCredit;
          needWarm0 = warmSize - warmInflight;
          needWarm = (if needWarm0 < 0 then 0 else needWarm0) in
      (needHot, needWarm))"

section \<open>Demand split and target sizes (manager.go)\<close>

text \<open>The per-profile share that \<^verbatim>\<open>SetDesiredCount\<close> stores for the \<open>i\<close>-th of \<open>k\<close> profiles.\<close>

definition desired_share :: "int \<Rightarrow> nat \<Rightarrow> nat \<Rightarrow> int" where
  "desired_share n k i =
     (let share = n div int k; remainder = n mod int k in
      to_int32 (if int i < remainder then share + 1 else share))"

text \<open>The clamping of \<^verbatim>\<open>SetTargetSizes\<close> against the profile's cap.\<close>

definition clamp_sizes :: "int \<Rightarrow> int \<Rightarrow> int \<Rightarrow> int \<times> int" where
  "clamp_sizes cap hot0 warm0 =
     (let hot = (if hot0 < 0 then 0 else hot0);
          warm = (if warm0 < 0 then 0 else warm0) in
      if hot + warm > cap then (if hot > cap then (cap, 0) else (hot, cap - hot))
      else (hot, warm))"

section \<open>VMID allocation (manager.go)\<close>

text \<open>
  The search of \<^verbatim>\<open>allocateVMID\<close>: \<open>cancelled i\<close> is \<^verbatim>\<open>ctx.Err()\<close> observed before the
  \<open>i\<close>-th candidate, \<open>recent\<close> is the provisioner's \<^verbatim>\<open>IsRecentlyDestroyed\<close>.
\<close>

function vmid_search :: "(int \<Rightarrow> bool) \<Rightarrow> int set \<Rightarrow> (int \<Rightarrow> bool) \<Rightarrow> int \<Rightarrow> int \<Rightarrow> pool_error + int" where
  "vmid_search cancelled used recent i maxID =
     (if i > maxID then Inl PoolErrRangeExhausted
      else if cancelled i then Inl PoolErrCancelled
      else if i \<in> used then vmid_search cancelled used recent (i + 1) maxID
      else if recent i then vmid_search cancelled used recent (i + 1) maxID
      else Inr i)"
  by pat_completeness auto
termination
  by (relation "measure (\<lambda>(c, u, r, i, m). nat (m - i + 1))") auto

declare vmid_search.simps [simp del]

definition allocateVMID ::
  "(VM list \<Rightarrow> VM list) \<Rightarrow> (int \<Rightarrow> bool) \<Rightarrow> (int \<Rightarrow> bool) \<Rightarrow> PoolConfig \<Rightarrow> table \<Rightarrow> pool_error + int" where
  "allocateVMID ord cancelled recent cfg T =
     (if cancelled (VMIDMin cfg) then Inl PoolErrCancelled
      else vmid_search cancelled (UsedVMIDs ord T (VMIDMin cfg) (VMIDMax cfg)) recent (VMIDMin cfg) (VMIDMax cfg))"


section \<open>Properties of the sizing code\<close>

text \<open>The needs in closed form, with the clamps as \<open>min\<close> and \<open>max\<close>.\<close>

definition sizing_base :: "PoolStats \<Rightarrow> int \<Rightarrow> int \<Rightarrow> int" where
  "sizing_base stats inflight hotProv = Available stats + hotProv + inflight"

definition sizing_room :: "PoolStats \<Rightarrow> int \<Rightarrow> int \<Rightarrow> int \<Rightarrow> int" where
  "sizing_room stats inflight hotProv profileMax =
     profileMax - (Available stats + Recycling stats + hotProv + inflight + Busy stats)"

definition hot_credit :: "int \<Rightarrow> int \<Rightarrow> int" where
  "hot_credit deficit returning = max (min returning deficit) 0"

lemma if_min: "(if x < y then x else y) = min x (y::int)"
  by (simp add: min_def)

lemma if_max: "(if x < y then y else x) = max x (y::int)"
  by (simp add: max_def)

lemma computeCloneNeeds_closed:
  fixes stats inflight hotProv credit
  defines "b \<equiv> sizing_base stats inflight hotProv"
    and "returning \<equiv> creditBusy credit + creditRecycling credit"
  shows "computeCloneNeeds stats inflight hotProv warmProv hotSize warmSize desired profileMax credit =
    (max (min (sizing_room stats inflight hotProv profileMax)
       (max (max (hotSize - b - hot_credit (hotSize - b) returning)
                 (desired - (b + creditRecycling credit + Busy stats))) 0)) 0,
     max (warmSize - (Warm stats + warmProv + (returning - hot_credit (hotSize - b) returning))) 0)"
  by (simp only: computeCloneNeeds_def burstDeficit_def Let_def if_min if_max sizing_room_def hot_credit_def
      LiveWarm_def b_def returning_def sizing_base_def)

lemma needs_arith:
  fixes room idle burst :: int
  defines "h \<equiv> max (min room (max (max idle burst) 0)) 0"
  shows "0 \<le> h" "h \<le> max 0 room" "h < room \<Longrightarrow> idle \<le> h \<and> burst \<le> h" "0 < h \<Longrightarrow> h \<le> max idle burst"
  unfolding h_def by auto

lemma drop_burst: "b \<le> 0 \<Longrightarrow> max (max a b) 0 = max (a::int) 0"
  by linarith

lemma clamp_lipschitz:
  fixes x y r :: int
  assumes "x \<le> y"
  shows "max (min r (max x 0)) 0 \<le> max (min r (max y 0)) 0"
    and "max (min r (max y 0)) 0 - max (min r (max x 0)) 0 \<le> y - x"
  using assms by (auto simp: max_def min_def)

lemma hot_credit_bounds:
  "0 \<le> returning \<Longrightarrow> 0 \<le> hot_credit d returning \<and> hot_credit d returning \<le> returning"
  by (simp add: hot_credit_def)

text \<open>
  C36. The clone-need computation never asks for a negative number of clones, never asks for more hot
  clones than the profile's concurrency cap leaves room for, and never more warm clones than the warm
  target is short of. Unless that room stops it, the hot clones it asks for cover both the idle
  baseline (counting every VM that will come back) and the queued demand; and it never overshoots
  both targets.\<close>

theorem clone_needs_sound:
  assumes "computeCloneNeeds stats inflight hotProv warmProv hotSize warmSize desired profileMax credit = (h, w)"
    and "0 \<le> creditBusy credit" and "0 \<le> creditRecycling credit"
  shows "0 \<le> h \<and> 0 \<le> w \<and>
    h \<le> max 0 (sizing_room stats inflight hotProv profileMax) \<and>
    w \<le> max 0 (warmSize - Warm stats - warmProv) \<and>
    (h < sizing_room stats inflight hotProv profileMax \<longrightarrow>
      hotSize \<le> sizing_base stats inflight hotProv + h + creditBusy credit + creditRecycling credit \<and>
      desired \<le> sizing_base stats inflight hotProv + h + creditRecycling credit + Busy stats) \<and>
    (0 < h \<longrightarrow> sizing_base stats inflight hotProv + h \<le> max hotSize (desired - Busy stats))"
proof -
  let ?b = "sizing_base stats inflight hotProv"
  let ?ret = "creditBusy credit + creditRecycling credit"
  define c where "c = hot_credit (hotSize - ?b) ?ret"
  have c: "0 \<le> c" "c \<le> ?ret" using hot_credit_bounds [of ?ret] assms(2,3) by (simp_all add: c_def)
  have h: "h = max (min (sizing_room stats inflight hotProv profileMax)
      (max (max (hotSize - ?b - c) (desired - (?b + creditRecycling credit + Busy stats))) 0)) 0"
    and w: "w = max (warmSize - (Warm stats + warmProv + (?ret - c))) 0"
    using assms(1) unfolding computeCloneNeeds_closed c_def by simp_all
  note n = needs_arith [of "sizing_room stats inflight hotProv profileMax" "hotSize - ?b - c"
      "desired - (?b + creditRecycling credit + Busy stats)", folded h]
  have "w \<le> max 0 (warmSize - Warm stats - warmProv)" "0 \<le> w" using w c by linarith+
  moreover have "0 < h \<Longrightarrow> ?b + h \<le> max hotSize (desired - Busy stats)"
    using n(4) c assms(3) by linarith
  moreover have "h < sizing_room stats inflight hotProv profileMax \<Longrightarrow>
      hotSize \<le> ?b + h + creditBusy credit + creditRecycling credit \<and>
      desired \<le> ?b + h + creditRecycling credit + Busy stats" using n(3) c by linarith
  ultimately show ?thesis using n(1,2) by blast
qed

definition ex_stats :: PoolStats where
  "ex_stats = \<lparr>Provisioning = 1, Warm = 1, Booting = 1, Hot = 1, Assigned = 0, Running = 2, Recycling = 1,
     Draining = 0, Destroying = 0, Poison = 0\<rparr>"

definition ex_credit :: returningCredit where
  "ex_credit = \<lparr>creditBusy = 1, creditRecycling = 1\<rparr>"

theorem clone_needs_sound_witness:
  "computeCloneNeeds ex_stats 0 1 0 4 3 9 20 ex_credit = (3, 1) \<and>
   (3::int) \<le> max 0 (sizing_room ex_stats 0 1 20) \<and>
   (4::int) \<le> sizing_base ex_stats 0 1 + 3 + creditBusy ex_credit + creditRecycling ex_credit \<and>
   (9::int) \<le> sizing_base ex_stats 0 1 + 3 + creditRecycling ex_credit + Busy ex_stats"
proof -
  have e: "computeCloneNeeds ex_stats 0 1 0 4 3 9 20 ex_credit = (3, 1)" by code_simp
  have c: "0 \<le> creditBusy ex_credit" "0 \<le> creditRecycling ex_credit" by (simp_all add: ex_credit_def)
  have r: "3 < sizing_room ex_stats 0 1 20" by code_simp
  show ?thesis using e clone_needs_sound [OF e c] r by simp
qed

text \<open>
  While no queued demand is unserved, a VM that is to return to the pool stands in for at most one
  clone: the credit lowers the number of clones asked for, hot and warm together, by no more than the
  number of returning VMs.\<close>

theorem credit_covers_one_clone:
  assumes "computeCloneNeeds stats inflight hotProv warmProv hotSize warmSize desired profileMax credit = (h, w)"
    and "computeCloneNeeds stats inflight hotProv warmProv hotSize warmSize desired profileMax
           \<lparr>creditBusy = 0, creditRecycling = 0\<rparr> = (h0, w0)"
    and "0 \<le> creditBusy credit" and "0 \<le> creditRecycling credit"
    and "desired \<le> sizing_base stats inflight hotProv + Busy stats"
  shows "h \<le> h0 \<and> w \<le> w0 \<and> (h0 - h) + (w0 - w) \<le> creditBusy credit + creditRecycling credit"
proof -
  let ?b = "sizing_base stats inflight hotProv"
  let ?ret = "creditBusy credit + creditRecycling credit"
  let ?room = "sizing_room stats inflight hotProv profileMax"
  define c where "c = hot_credit (hotSize - ?b) ?ret"
  have c: "0 \<le> c" "c \<le> ?ret" using hot_credit_bounds [of ?ret] assms(3,4) by (simp_all add: c_def)
  have h: "h = max (min ?room (max (max (hotSize - ?b - c) (desired - (?b + creditRecycling credit + Busy stats))) 0)) 0"
    and w: "w = max (warmSize - (Warm stats + warmProv + (?ret - c))) 0"
    using assms(1) unfolding computeCloneNeeds_closed c_def by simp_all
  have z: "hot_credit d 0 = 0" for d by (simp add: hot_credit_def)
  have h0: "h0 = max (min ?room (max (max (hotSize - ?b) (desired - (?b + Busy stats))) 0)) 0"
    and w0: "w0 = max (warmSize - (Warm stats + warmProv)) 0"
    using assms(2) unfolding computeCloneNeeds_closed by (simp_all add: z)
  have nb: "desired - (?b + creditRecycling credit + Busy stats) \<le> 0" "desired - (?b + Busy stats) \<le> 0"
    using assms(4,5) by linarith+
  have hh: "h = max (min ?room (max (hotSize - ?b - c) 0)) 0" "h0 = max (min ?room (max (hotSize - ?b) 0)) 0"
    unfolding h h0 by (simp_all only: drop_burst [OF nb(1)] drop_burst [OF nb(2)])
  have le: "hotSize - ?b - c \<le> hotSize - ?b" using c by simp
  have "h \<le> h0" "h0 - h \<le> hotSize - ?b - (hotSize - ?b - c)"
    by (simp_all only: hh clamp_lipschitz [OF le])
  moreover have "w \<le> w0" "w0 - w \<le> ?ret - c" unfolding w w0 using c by linarith+
  ultimately show ?thesis by linarith
qed

theorem credit_covers_one_clone_witness:
  "computeCloneNeeds ex_stats 0 1 0 8 3 4 20 ex_credit = (3, 2) \<and>
   computeCloneNeeds ex_stats 0 1 0 8 3 4 20 \<lparr>creditBusy = 0, creditRecycling = 0\<rparr> = (5, 2) \<and>
   (5 - 3) + (2 - 2) \<le> creditBusy ex_credit + creditRecycling ex_credit"
proof -
  have e: "computeCloneNeeds ex_stats 0 1 0 8 3 4 20 ex_credit = (3, 2)"
    and e0: "computeCloneNeeds ex_stats 0 1 0 8 3 4 20 \<lparr>creditBusy = 0, creditRecycling = 0\<rparr> = (5, 2)"
    by code_simp+
  have "0 \<le> creditBusy ex_credit" "0 \<le> creditRecycling ex_credit" by (simp_all add: ex_credit_def)
  moreover have "4 \<le> sizing_base ex_stats 0 1 + Busy ex_stats" by code_simp
  ultimately show ?thesis using e e0 credit_covers_one_clone [OF e e0] by simp
qed


lemma vmid_search_Inr:
  assumes "vmid_search cancelled used recent i maxID = Inr v"
  shows "i \<le> v \<and> v \<le> maxID \<and> v \<notin> used \<and> \<not> recent v \<and> (\<forall>j. i \<le> j \<and> j < v \<longrightarrow> j \<in> used \<or> recent j)"
  using assms
proof (induction cancelled used recent i maxID rule: vmid_search.induct)
  case (1 cancelled used recent i maxID)
  show ?case
  proof (cases "i \<in> used \<or> recent i")
    case True
    with 1 have "i + 1 \<le> v \<and> v \<le> maxID \<and> v \<notin> used \<and> \<not> recent v \<and>
        (\<forall>j. i + 1 \<le> j \<and> j < v \<longrightarrow> j \<in> used \<or> recent j)"
      by (subst (asm) vmid_search.simps) (auto split: if_splits)
    then show ?thesis using True by (metis order_le_less zless_add1_eq zle_add1_eq_le not_less order_trans less_imp_le)
  next
    case False
    with 1(3) show ?thesis by (subst (asm) vmid_search.simps) (auto split: if_splits)
  qed
qed

lemma vmid_search_finds:
  assumes "\<And>j. \<not> cancelled j" and "i \<le> v" and "v \<le> maxID" and "v \<notin> used" and "\<not> recent v"
  shows "\<exists>w. vmid_search cancelled used recent i maxID = Inr w \<and> w \<le> v"
  using assms
proof (induction cancelled used recent i maxID rule: vmid_search.induct)
  case (1 cancelled used recent i maxID)
  show ?case
  proof (cases "i \<in> used \<or> recent i")
    case True
    have np: "\<not> maxID < i" "\<not> cancelled i" using 1(3-5) by auto
    have le: "i + 1 \<le> v" using True 1(4,6,7) by (cases "i = v") auto
    have "\<exists>w. vmid_search cancelled used recent (i + 1) maxID = Inr w \<and> w \<le> v"
    proof (cases "i \<in> used")
      case u: True
      show ?thesis by (rule 1(1) [OF np u 1(3) le 1(5-7)])
    next
      case u: False
      with True have "recent i" by simp
      then show ?thesis by (rule 1(2) [OF np u _ 1(3) le 1(5-7)])
    qed
    then show ?thesis using True np by (subst vmid_search.simps) auto
  next
    case False
    with 1(3-5) show ?thesis by (subst vmid_search.simps) auto
  qed
qed


text \<open>
  C37. An allocated VMID lies in the configured range, belongs to no row, has not been destroyed within
  the reuse cooldown, and is the lowest such id; and unless the context is cancelled the allocation
  succeeds whenever such an id exists.\<close>

theorem allocate_vmid_lowest:
  assumes "row_order ord"
  shows "(allocateVMID ord cancelled recent cfg T = Inr v \<longrightarrow>
      VMIDMin cfg \<le> v \<and> v \<le> VMIDMax cfg \<and> txn_first T v = None \<and> \<not> recent v \<and>
      (\<forall>j. VMIDMin cfg \<le> j \<and> j < v \<longrightarrow> txn_first T j \<noteq> None \<or> recent j)) \<and>
    ((\<forall>j. \<not> cancelled j) \<and> VMIDMin cfg \<le> v \<and> v \<le> VMIDMax cfg \<and> txn_first T v = None \<and> \<not> recent v \<longrightarrow>
      (\<exists>w. allocateVMID ord cancelled recent cfg T = Inr w \<and> w \<le> v))"
proof (intro conjI impI)
  assume "allocateVMID ord cancelled recent cfg T = Inr v"
  then have "vmid_search cancelled (UsedVMIDs ord T (VMIDMin cfg) (VMIDMax cfg)) recent (VMIDMin cfg) (VMIDMax cfg) = Inr v"
    by (simp add: allocateVMID_def split: if_splits)
  from vmid_search_Inr [OF this]
  show "VMIDMin cfg \<le> v" "v \<le> VMIDMax cfg" "txn_first T v = None" "\<not> recent v"
    "\<forall>j. VMIDMin cfg \<le> j \<and> j < v \<longrightarrow> txn_first T j \<noteq> None \<or> recent j"
    by (auto simp: row_order.UsedVMIDs_eq [OF assms] txn_first_None)
next
  assume "(\<forall>j. \<not> cancelled j) \<and> VMIDMin cfg \<le> v \<and> v \<le> VMIDMax cfg \<and> txn_first T v = None \<and> \<not> recent v"
  then show "\<exists>w. allocateVMID ord cancelled recent cfg T = Inr w \<and> w \<le> v"
    using vmid_search_finds [of cancelled "VMIDMin cfg" v "VMIDMax cfg" "UsedVMIDs ord T (VMIDMin cfg) (VMIDMax cfg)" recent]
    by (auto simp: allocateVMID_def row_order.UsedVMIDs_eq [OF assms] txn_first_None)
qed

definition ex_cfg :: PoolConfig where
  "ex_cfg = \<lparr>HotSize = 2, WarmSize = 1, MaxConcurrentRunners = 4, VMMaxAge = 0, BootMaxAttempts = 3, Profiles = [],
     SnapshotRollbackMode = False, VMNamePrefix = ''gh-'', VMIDMin = 100, VMIDMax = 110, VMIDReuseCooldown = 0,
     LinkedClones = False, TemplateNode = '''', EvictIdleForDemand = False, ConfigNodes = [''pve1''],
     HasOrphanCallback = True\<rparr>"

theorem allocate_vmid_lowest_witness:
  "allocateVMID (sort_key VMID) (\<lambda>_. False) (\<lambda>i. i = 101) ex_cfg [new_row 100 ''pve1'' ''gh-100'' ''default'' PoolKindHot StateHot] = Inr 102 \<and>
   txn_first [new_row 100 ''pve1'' ''gh-100'' ''default'' PoolKindHot StateHot] 102 = None"
proof -
  let ?T = "[new_row 100 ''pve1'' ''gh-100'' ''default'' PoolKindHot StateHot]"
  have "allocateVMID (sort_key VMID) (\<lambda>_. False) (\<lambda>i. i = 101) ex_cfg ?T = Inr 102" by code_simp
  with allocate_vmid_lowest [OF by_vmid.row_order_axioms, of "\<lambda>_. False" "\<lambda>i. i = 101" ex_cfg ?T 102]
  show ?thesis by blast
qed

text \<open>
  A profile whose own hot size is zero does not get an empty hot pool: normalisation replaces the
  zero by the pool-wide size, so an explicit zero cannot be told from an absent value.\<close>

theorem zero_size_inherits:
  assumes "Profiles cfg = p # ps" and "psHotSize p = 0"
  shows "psHotSize (hd (normaliseProfiles cfg)) = HotSize cfg"
  using assms by (simp add: normaliseProfiles_def)

definition ex_gpu :: ProfileSettings where
  "ex_gpu = \<lparr>psName = ''gpu'', psHotSize = 0, psWarmSize = 1, psMaxConcurrentRunners = 4, psBootMaxAttempts = 3,
     psVMMaxAge = 0, psTemplateVMID = 0, psCPUCores = 4, psMemoryMB = 4096, psHasIPAM = False\<rparr>"

theorem zero_size_inherits_witness:
  "psHotSize (hd (normaliseProfiles (ex_cfg\<lparr>Profiles := [ex_gpu]\<rparr>))) = 2"
  using zero_size_inherits [of "ex_cfg\<lparr>Profiles := [ex_gpu]\<rparr>" ex_gpu "[]"] by (simp add: ex_cfg_def ex_gpu_def)

end
