(* ===== verification/Manager.thy ===== *)
theory Manager
  imports Pool
begin

text \<open>
  The pool manager's state and the handlers that move one VM through its life
  (\<^verbatim>\<open>internal/pool/manager.go\<close>): acquisition, pairing, completion, recycling and destruction.

  The \<^verbatim>\<open>manager\<close> struct is the record \<open>manager\<close>. Its goroutines are explicit: a spawned worker
  is an entry of \<open>mTasks\<close> and a queued destroy an entry of \<open>mQueue\<close>; each runs later as a
  step of its own on whatever the table has become by then. A handler is a function from the state
  to its error result and the new state. What the code learns from outside (the clock, the replies of
  the provisioner and of GitHub) is an argument. A handler that reads a row and later acts on what it
  read is split at that point, so that the second half can be applied to a state in which the row has
  changed meanwhile.
\<close>

section \<open>State\<close>

record parkedReservation =
  parkNode :: string
  parkRes :: int
  parkExpires :: time

record profile_state =
  prSettings :: ProfileSettings
  prDesired :: int
  prHotSize :: int
  prWarmSize :: int
  prPendingClones :: int
  prRefill :: bool
  prDeferredHot :: bool
  prEvicted :: "parkedReservation list"

record destroyRequest =
  drVMID :: int
  drNode :: string
  drProfile :: string

record clonePrep =
  cpProfileName :: string
  cpNode :: string
  cpVMID :: int
  cpName :: string
  cpTemplateVMID :: int
  cpTemplateClass :: string
  cpIPConfig :: string
  cpKind :: PoolKind
  cpPoweredOn :: bool
  cpClaim :: "int option"

text \<open>
  A goroutine that has been spawned and where it stands: a destroy worker, a rollback that waits for
  its slot or for the provisioner, a promoted VM's boot, and a clone that is to be admitted, that is
  in the provisioner's Clone, or whose VM is starting.
\<close>

datatype task =
    TDestroy destroyRequest
  | TRollback int string string string
  | TRolling int string string
  | TBoot VM
  | TClone string PoolKind bool
  | TCloning clonePrep
  | TCloneBoot clonePrep VM

record manager =
  mCfg :: PoolConfig
  mTable :: table
  mProfiles :: "string \<rightharpoonup> profile_state"
  mProfileOrder :: "string list"
  mRefill :: bool

  mDestroyFree :: int
  mBootFree :: int
  mDraining :: bool
  mSending :: "destroyRequest list"
  mQueue :: "destroyRequest list"
  mInHand :: "destroyRequest option"
  mTasks :: "task list"
  mWorkerCancelled :: bool
  mDesired :: int
  mPowerLog :: "int \<rightharpoonup> time"
  mAcct :: "Accountant option"
  mCanary :: "Controller option"
  mDeregistered :: "int list"
  mIPReleased :: "(string \<times> int) list"

definition destroyQueueCap :: nat where
  "destroyQueueCap = 16"

text \<open>
  \<^verbatim>\<open>NewManager\<close>: the defaulted configuration, then the record with one profile state per
  profile. The store, the accountant (nil when capacity admission is off) and the canary controller are
  handed in. Intervals that only pace the loops have no counterpart, nor has \<^verbatim>\<open>cloneSem\<close>,
  which only delays a dispatch.
\<close>

fun check_profiles :: "ProfileSettings list \<Rightarrow> pool_error option" where
  "check_profiles [] = None"
| "check_profiles (p # ps) =
     (if psName p = '''' then Some PoolErrProfileName
      else case validateConfig (psHotSize p) (psWarmSize p) (psMaxConcurrentRunners p) of
             Some e \<Rightarrow> Some e
           | None \<Rightarrow> check_profiles ps)"

definition new_profile :: "ProfileSettings \<Rightarrow> profile_state" where
  "new_profile p =
     \<lparr>prSettings = p, prDesired = 0, prHotSize = to_int32 (psHotSize p), prWarmSize = to_int32 (psWarmSize p),
      prPendingClones = 0, prRefill = False, prDeferredHot = False, prEvicted = []\<rparr>"

definition NewManager ::
  "PoolConfig \<Rightarrow> table \<Rightarrow> Accountant option \<Rightarrow> Controller option \<Rightarrow> pool_error + manager" where
  "NewManager cfg0 st acct can =
     (let cfg = cfg0\<lparr>Profiles := normaliseProfiles cfg0\<rparr> in
      case check_profiles (Profiles cfg) of
        Some e \<Rightarrow> Inl e
      | None \<Rightarrow>
          (case validateConfig (HotSize cfg) (WarmSize cfg) (MaxConcurrentRunners cfg) of
             Some e \<Rightarrow> Inl e
           | None \<Rightarrow>
               if EvictIdleForDemand cfg \<and> acct \<noteq> None \<and> length (ConfigNodes cfg) = 0
               then Inl PoolErrNodesRequired
               else
                 (let cfg1 = cfg\<lparr>BootMaxAttempts := (if BootMaxAttempts cfg \<le> 0 then 3 else BootMaxAttempts cfg),
                                 VMIDReuseCooldown :=
                                   (if VMIDReuseCooldown cfg \<le> 0 then 30 * second else VMIDReuseCooldown cfg)\<rparr> in
                  Inr \<lparr>mCfg = cfg1, mTable = st,
                       mProfiles = foldl (\<lambda>ps p. ps(psName p \<mapsto> new_profile p)) Map.empty (Profiles cfg1),
                       mProfileOrder = map psName (Profiles cfg1),
                       mRefill = False, mDestroyFree = 8, mBootFree = 16,
                       mDraining = False, mSending = [], mQueue = [], mInHand = None, mTasks = [], mWorkerCancelled = False,
                       mDesired = 0, mPowerLog = Map.empty, mAcct = acct, mCanary = can,
                       mDeregistered = [], mIPReleased = []\<rparr>)))"

definition defaultProfile :: "manager \<Rightarrow> string" where
  "defaultProfile m = hd (mProfileOrder m)"

definition profileOf :: "manager \<Rightarrow> string \<Rightarrow> profile_state option" where
  "profileOf m name = (if name = '''' then mProfiles m (defaultProfile m) else mProfiles m name)"

section \<open>Signals\<close>

text \<open>A refill channel has capacity one: it is full (\<open>True\<close>) or empty, and a send never blocks.\<close>

definition signalProfileRefill :: "manager \<Rightarrow> string \<Rightarrow> manager" where
  "signalProfileRefill m profile =
     (let key = (if profile = '''' then defaultProfile m else profile) in
      case mProfiles m key of
        None \<Rightarrow> m
      | Some ps \<Rightarrow> m\<lparr>mProfiles := (mProfiles m)(key \<mapsto> ps\<lparr>prRefill := True\<rparr>)\<rparr>)"

definition SignalRefill :: "manager \<Rightarrow> manager" where
  "SignalRefill m = foldl signalProfileRefill (m\<lparr>mRefill := True\<rparr>) (mProfileOrder m)"

section \<open>Sizes\<close>

fun store_desired :: "int \<Rightarrow> nat \<Rightarrow> nat \<Rightarrow> string list \<Rightarrow> (string \<rightharpoonup> profile_state) \<Rightarrow> string \<rightharpoonup> profile_state" where
  "store_desired n k i [] ps = ps"
| "store_desired n k i (name # names) ps =
     store_desired n k (Suc i) names
       (case ps name of None \<Rightarrow> ps | Some p \<Rightarrow> ps(name \<mapsto> p\<lparr>prDesired := desired_share n k i\<rparr>))"

definition SetDesiredCount :: "manager \<Rightarrow> int \<Rightarrow> manager" where
  "SetDesiredCount m n0 =
     (let n = (if n0 < 0 then 0 else n0) in
      SignalRefill (m\<lparr>mDesired := to_int32 n,
        mProfiles := store_desired n (length (mProfileOrder m)) 0 (mProfileOrder m) (mProfiles m)\<rparr>))"

definition SetTargetSizes :: "manager \<Rightarrow> string \<Rightarrow> int \<Rightarrow> int \<Rightarrow> pool_error option \<times> manager" where
  "SetTargetSizes m name hot0 warm0 =
     (case mProfiles m name of
        None \<Rightarrow> (Some PoolErrUnknownProfile, m)
      | Some ps \<Rightarrow>
          (let (hot, warm) = clamp_sizes (psMaxConcurrentRunners (prSettings ps)) hot0 warm0;
               m' = m\<lparr>mProfiles := (mProfiles m)(name \<mapsto> ps\<lparr>prHotSize := to_int32 hot, prWarmSize := to_int32 warm\<rparr>)\<rparr> in
           (None, if prHotSize ps \<noteq> hot \<or> prWarmSize ps \<noteq> warm then SignalRefill m' else m')))"

definition pool_Stats :: "(VM list \<Rightarrow> VM list) \<Rightarrow> manager \<Rightarrow> PoolStats" where
  "pool_Stats ord m = statsFromRaw (Stats ord (mTable m))"

definition statsForProfile :: "(VM list \<Rightarrow> VM list) \<Rightarrow> manager \<Rightarrow> string \<Rightarrow> PoolStats" where
  "statsForProfile ord m profile = statsFromRaw (StatsByProfile ord (mTable m) profile)"

definition snapshotRecycle :: "manager \<Rightarrow> bool" where
  "snapshotRecycle m = SnapshotRollbackMode (mCfg m)"

section \<open>Queues and workers\<close>

text \<open>
  \<^verbatim>\<open>destroyAsync\<close> in its two halves. Under \<^verbatim>\<open>drainMu\<close> it checks the flag and counts the request
  with \<^verbatim>\<open>wg.Add\<close>; the request is then on its way, in \<open>mSending\<close>, and the lock is free. The select that
  follows sends it to the channel if that has room and drops it if not; it is a step of its own, so that
  a shutdown or any other goroutine can come in between. What callers do after the call only signals
  refills, which neither half reads.
\<close>

definition destroyAsync :: "manager \<Rightarrow> int \<Rightarrow> string \<Rightarrow> string \<Rightarrow> manager" where
  "destroyAsync m vmid node profile =
     (if mDraining m then m
      else m\<lparr>mSending := mSending m @ [\<lparr>drVMID = vmid, drNode = node, drProfile = profile\<rparr>]\<rparr>)"

definition destroySend :: "manager \<Rightarrow> destroyRequest \<Rightarrow> manager" where
  "destroySend m req =
     (let m1 = m\<lparr>mSending := remove1 req (mSending m)\<rparr> in
      if length (mQueue m1) < destroyQueueCap then m1\<lparr>mQueue := mQueue m1 @ [req]\<rparr> else m1)"

text \<open>
  One turn of \<^verbatim>\<open>destroyDispatcher\<close>: with nothing in hand it takes the oldest request off the
  channel; with a request in hand it waits for a slot of \<^verbatim>\<open>destroySem\<close> and then spawns the
  worker. After cancellation it drops what it holds and empties the queue.
\<close>

definition drainDestroyQueueLocked :: "manager \<Rightarrow> manager" where
  "drainDestroyQueueLocked m = m\<lparr>mQueue := []\<rparr>"

definition destroyDispatcher :: "manager \<Rightarrow> manager" where
  "destroyDispatcher m =
     (if mWorkerCancelled m then drainDestroyQueueLocked (m\<lparr>mInHand := None\<rparr>)
      else case mInHand m of
             Some req \<Rightarrow>
               if mDestroyFree m > 0
               then m\<lparr>mInHand := None, mDestroyFree := mDestroyFree m - 1, mTasks := mTasks m @ [TDestroy req]\<rparr>
               else m
           | None \<Rightarrow>
               (case mQueue m of
                  [] \<Rightarrow> m
                | req # rest \<Rightarrow> m\<lparr>mQueue := rest, mInHand := Some req\<rparr>))"

text \<open>
  \<^verbatim>\<open>rollbackAsync\<close> has the same gate; after it, nothing stands between the count and the \<^verbatim>\<open>go\<close>
  statement, so that \<^const>\<open>TRollback\<close> stands for a goroutine that has been counted and is started or about to be.
\<close>

definition rollbackAsync :: "manager \<Rightarrow> int \<Rightarrow> string \<Rightarrow> string \<Rightarrow> string \<Rightarrow> manager" where
  "rollbackAsync m vmid node nm profile =
     (if mDraining m then m else m\<lparr>mTasks := mTasks m @ [TRollback vmid node nm profile]\<rparr>)"

text \<open>\<^verbatim>\<open>metricsProfile\<close> and the same clamping in \<^verbatim>\<open>destroy\<close>.\<close>

definition metricsProfile :: "string \<Rightarrow> string" where
  "metricsProfile profile = (if profile = '''' then DefaultProfileName else profile)"

text \<open>
  \<^verbatim>\<open>destroy\<close>; \<open>gone\<close> is whether the provisioner's Destroy succeeded. The calls it makes
  afterwards are recorded: the IPAM release and the runner deregistration.
\<close>

definition destroy :: "manager \<Rightarrow> bool \<Rightarrow> int \<Rightarrow> manager" where
  "destroy m gone vmid =
     (if \<not> gone then m
      else
        (let (deleted, T') = DeleteAndReturn (mTable m) vmid;
             runnerID = (case deleted of None \<Rightarrow> 0 | Some v \<Rightarrow> RunnerID v);
             destroyedProfile = (case deleted of None \<Rightarrow> DefaultProfileName | Some v \<Rightarrow> metricsProfile (Profile v));
             m1 = m\<lparr>mTable := T'\<rparr>;
             m2 = (case profileOf m1 destroyedProfile of
                     None \<Rightarrow> m1
                   | Some ps \<Rightarrow> if psHasIPAM (prSettings ps)
                               then m1\<lparr>mIPReleased := mIPReleased m1 @ [(destroyedProfile, vmid)]\<rparr> else m1) in
         if runnerID \<noteq> 0 \<and> HasOrphanCallback (mCfg m2)
         then m2\<lparr>mDeregistered := mDeregistered m2 @ [runnerID]\<rparr> else m2))"

definition destroyOrSyncFallback :: "manager \<Rightarrow> bool \<Rightarrow> int \<Rightarrow> string \<Rightarrow> string \<Rightarrow> manager" where
  "destroyOrSyncFallback m gone vmid node profile =
     (if \<not> mWorkerCancelled m then destroyAsync m vmid node profile
      else if \<not> gone then m
      else m\<lparr>mTable := Delete (mTable m) vmid\<rparr>)"


section \<open>Acquisition and pairing\<close>

definition pool_vm :: "VM \<Rightarrow> string \<Rightarrow> poolVM" where
  "pool_vm row profile = \<lparr>vmVMID = VMID row, vmNode = Node row, vmName = Name row, vmProfile = profile\<rparr>"

definition Acquire ::
  "(VM list \<Rightarrow> VM list) \<Rightarrow> manager \<Rightarrow> time \<Rightarrow> int \<Rightarrow> int \<Rightarrow> (pool_error + poolVM) \<times> manager" where
  "Acquire ord m now jobID maxBusy =
     (case AcquireHot ord (mTable m) now jobID (MaxConcurrentRunners (mCfg m)) maxBusy of
        Inl ErrAtCapacity \<Rightarrow> (Inl PoolErrAtCapacity, m)
      | Inl ErrNoneAvailable \<Rightarrow> (Inl PoolErrNoneAvailable, SignalRefill m)
      | Inl e \<Rightarrow> (Inl (PoolErrStore e), m)
      | Inr (row, T') \<Rightarrow> (Inr (pool_vm row (Profile row)), SignalRefill (m\<lparr>mTable := T'\<rparr>)))"

definition AcquireForProfile ::
  "(VM list \<Rightarrow> VM list) \<Rightarrow> manager \<Rightarrow> time \<Rightarrow> int \<Rightarrow> string \<Rightarrow> int \<Rightarrow> (pool_error + poolVM) \<times> manager" where
  "AcquireForProfile ord m now jobID profile maxBusy =
     (if profile = '''' then Acquire ord m now jobID maxBusy
      else case profileOf m profile of
             None \<Rightarrow> (Inl PoolErrUnknownProfile, m)
           | Some ps \<Rightarrow>
               (let resolved = psName (prSettings ps) in
                case AcquireHotInProfile ord (mTable m) now resolved jobID (MaxConcurrentRunners (mCfg m)) maxBusy of
                  Inl ErrAtCapacity \<Rightarrow> (Inl PoolErrAtCapacity, m)
                | Inl ErrNoneAvailable \<Rightarrow> (Inl PoolErrNoneAvailable, signalProfileRefill m resolved)
                | Inl e \<Rightarrow> (Inl (PoolErrStore e), m)
                | Inr (row, T') \<Rightarrow>
                    (Inr (pool_vm row resolved), signalProfileRefill (m\<lparr>mTable := T'\<rparr>) resolved)))"

definition SetRunnerID :: "manager \<Rightarrow> time \<Rightarrow> int \<Rightarrow> int \<Rightarrow> pool_error option \<times> manager" where
  "SetRunnerID m now vmid runnerID =
     (if runnerID \<le> 0 then (None, m)
      else case Update (mTable m) now vmid (\<lambda>v. v\<lparr>RunnerID := runnerID\<rparr>) of
             Inl ErrNotFound \<Rightarrow> (None, m)
           | Inl e \<Rightarrow> (Some (PoolErrStore e), m)
           | Inr (_, T') \<Rightarrow> (None, m\<lparr>mTable := T'\<rparr>))"

definition stamp_meta :: "JobMetadata \<Rightarrow> VM \<Rightarrow> VM" where
  "stamp_meta meta v =
     v\<lparr>Org := (if metaOrg meta \<noteq> '''' then metaOrg meta else Org v),
       Repo := (if metaRepo meta \<noteq> '''' then metaRepo meta else Repo v),
       PriorityClass := (if metaPriorityClass meta \<noteq> '''' then metaPriorityClass meta else PriorityClass v)\<rparr>"

definition StampJobMetadata :: "manager \<Rightarrow> time \<Rightarrow> int \<Rightarrow> JobMetadata \<Rightarrow> pool_error option \<times> manager" where
  "StampJobMetadata m now vmid meta =
     (if metaOrg meta = '''' \<and> metaRepo meta = '''' \<and> metaPriorityClass meta = '''' then (None, m)
      else case Update (mTable m) now vmid (stamp_meta meta) of
             Inl ErrNotFound \<Rightarrow> (None, m)
           | Inl e \<Rightarrow> (Some (PoolErrStore e), m)
           | Inr (_, T') \<Rightarrow> (None, m\<lparr>mTable := T'\<rparr>))"

definition MarkRunning :: "manager \<Rightarrow> time \<Rightarrow> int \<Rightarrow> int \<Rightarrow> pool_error option \<times> manager" where
  "MarkRunning m now vmid runnerID =
     (case UpdateState (mTable m) now vmid StateAssigned StateRunning (\<lambda>v. v\<lparr>RunnerID := runnerID\<rparr>) of
        Inl e \<Rightarrow> (Some (PoolErrStore e), m)
      | Inr None \<Rightarrow> (None, m)
      | Inr (Some T') \<Rightarrow> (None, m\<lparr>mTable := T'\<rparr>))"

definition PromoteToRunning :: "manager \<Rightarrow> time \<Rightarrow> int \<Rightarrow> int \<Rightarrow> int \<Rightarrow> pool_error option \<times> manager" where
  "PromoteToRunning m now vmid runnerID jobID =
     (case UpdateStateIn (mTable m) now vmid [StateAssigned, StateHot] StateRunning
             (\<lambda>v. v\<lparr>RunnerID := runnerID, JobID := (if jobID \<noteq> 0 then jobID else JobID v)\<rparr>) of
        Inl e \<Rightarrow> (Some (PoolErrStore e), m)
      | Inr None \<Rightarrow> (None, m)
      | Inr (Some T') \<Rightarrow> (None, m\<lparr>mTable := T'\<rparr>))"

section \<open>Teardown\<close>

definition ForceDestroy :: "manager \<Rightarrow> time \<Rightarrow> int \<Rightarrow> pool_error option \<times> manager" where
  "ForceDestroy m now vmid =
     (case UpdateStateIn (mTable m) now vmid
             [StateProvisioning, StateWarm, StateBooting, StateHot, StateAssigned, StateRunning,
              StateRecycling, StatePoison] StateDraining id of
        Inl e \<Rightarrow> (Some (PoolErrStore e), m)
      | Inr None \<Rightarrow> (None, m)
      | Inr (Some T') \<Rightarrow>
          (case txn_first T' vmid of
             None \<Rightarrow> (None, m\<lparr>mTable := T'\<rparr>)
           | Some v \<Rightarrow> (None, destroyAsync (m\<lparr>mTable := T'\<rparr>) vmid (Node v) (Profile v))))"

text \<open>\<^verbatim>\<open>Preempt\<close> from its read of the row on: \<open>target\<close> is the row as it was read.\<close>

definition Preempt_from :: "manager \<Rightarrow> time \<Rightarrow> int \<Rightarrow> VM \<Rightarrow> pool_error option \<times> manager" where
  "Preempt_from m now vmid target =
     (if StateOf target \<noteq> StateAssigned then (Some PoolErrPreemptRefused, m)
      else case UpdateState (mTable m) now vmid StateAssigned StateDraining (\<lambda>v. v\<lparr>StateSince := now\<rparr>) of
             Inl e \<Rightarrow> (Some (PoolErrStore e), m)
           | Inr None \<Rightarrow> (Some PoolErrPreemptRefused, m)
           | Inr (Some T') \<Rightarrow> (None, destroyAsync (m\<lparr>mTable := T'\<rparr>) vmid (Node target) (Profile target)))"

definition Preempt :: "manager \<Rightarrow> time \<Rightarrow> int \<Rightarrow> pool_error option \<times> manager" where
  "Preempt m now vmid =
     (case Get (mTable m) vmid of
        Inl ErrNotFound \<Rightarrow> (Some PoolErrPreemptRefused, m)
      | Inl e \<Rightarrow> (Some (PoolErrStore e), m)
      | Inr target \<Rightarrow> Preempt_from m now vmid target)"

definition snapshotExistingVMsForAffinity :: "(VM list \<Rightarrow> VM list) \<Rightarrow> manager \<Rightarrow> (string \<times> string) list" where
  "snapshotExistingVMsForAffinity ord m =
     map (\<lambda>r. (Node r, Profile r)) (ListExcludingStates ord (mTable m) [StateDraining, StateDestroying])"

definition ListRows :: "(VM list \<Rightarrow> VM list) \<Rightarrow> manager \<Rightarrow> RowSnapshot list" where
  "ListRows ord m =
     map (\<lambda>r. \<lparr>snapVMID = VMID r, snapNode = Node r, snapName = Name r, snapProfile = Profile r,
               snapState = StateOf r, snapJobID = JobID r, snapRunnerID = RunnerID r,
               snapRecycleCount = RecycleCount r, snapStateSince = StateSince r, snapCreatedAt = CreatedAt r\<rparr>)
       (ListExcludingStates ord (mTable m) [StateDraining, StateDestroying])"

definition shouldRecycle :: "manager \<Rightarrow> time \<Rightarrow> VM \<Rightarrow> bool" where
  "shouldRecycle m now row =
     (if \<not> snapshotRecycle m then False
      else if \<not> HasRecycleSnapshot row then False
      else
        (let maxAge = (case profileOf m (Profile row) of
                         None \<Rightarrow> VMMaxAge (mCfg m)
                       | Some ps \<Rightarrow> psVMMaxAge (prSettings ps)) in
         if maxAge \<le> 0 then True else now - CreatedAt row < maxAge))"

text \<open>\<^verbatim>\<open>MarkCompleted\<close> from its read of the row on.\<close>

definition MarkCompleted_from :: "manager \<Rightarrow> time \<Rightarrow> int \<Rightarrow> VM \<Rightarrow> pool_error option \<times> manager" where
  "MarkCompleted_from m now vmid target =
     (if StateOf target \<in> {StateRecycling, StateDraining, StateDestroying} then (None, SignalRefill m)
      else if StateOf target \<in> {StateProvisioning, StateWarm, StateBooting, StateHot, StatePoison} then (None, m)
      else if shouldRecycle m now target then
        (case UpdateStateIn (mTable m) now vmid [StateAssigned, StateRunning] StateRecycling (\<lambda>v. v\<lparr>StateSince := now\<rparr>) of
           Inl e \<Rightarrow> (Some (PoolErrStore e), m)
         | Inr None \<Rightarrow> (None, m)
         | Inr (Some T') \<Rightarrow>
             (None, SignalRefill (rollbackAsync (m\<lparr>mTable := T'\<rparr>) (VMID target) (Node target) (Name target) (Profile target))))
      else
        (case UpdateStateIn (mTable m) now vmid [StateAssigned, StateRunning] StateDraining (\<lambda>v. v\<lparr>StateSince := now\<rparr>) of
           Inl e \<Rightarrow> (Some (PoolErrStore e), m)
         | Inr None \<Rightarrow> (None, m)
         | Inr (Some T') \<Rightarrow>
             (None, SignalRefill (destroyAsync (m\<lparr>mTable := T'\<rparr>) (VMID target) (Node target) (Profile target)))))"

definition MarkCompleted :: "manager \<Rightarrow> time \<Rightarrow> int \<Rightarrow> pool_error option \<times> manager" where
  "MarkCompleted m now vmid =
     (case Get (mTable m) vmid of
        Inl ErrNotFound \<Rightarrow> (None, m)
      | Inl e \<Rightarrow> (Some (PoolErrStore e), m)
      | Inr target \<Rightarrow> MarkCompleted_from m now vmid target)"


section \<open>Rollback\<close>

definition fallbackDestroy :: "manager \<Rightarrow> time \<Rightarrow> int \<Rightarrow> string \<Rightarrow> string \<Rightarrow> manager" where
  "fallbackDestroy m now vmid node profile =
     (case UpdateState (mTable m) now vmid StateRecycling StateDraining (\<lambda>v. v\<lparr>StateSince := now\<rparr>) of
        Inr (Some T') \<Rightarrow> destroyAsync (m\<lparr>mTable := T'\<rparr>) vmid node profile
      | _ \<Rightarrow> m)"

definition clear_pairing :: "VM \<Rightarrow> VM" where
  "clear_pairing v = v\<lparr>RunnerID := 0, JobID := 0, Org := '''', Repo := '''', PriorityClass := ''''\<rparr>"

text \<open>
  \<^verbatim>\<open>rollback\<close> up to the provisioner call: the pairing is cleared and the runner is
  deregistered; \<open>None\<close> is the early return when the row is gone. \<open>rollback_finish\<close> is the rest,
  with the provisioner's reply.
\<close>

definition rollback_start :: "manager \<Rightarrow> time \<Rightarrow> int \<Rightarrow> manager option" where
  "rollback_start m now vmid =
     (case Update (mTable m) now vmid clear_pairing of
        Inl _ \<Rightarrow> None
      | Inr (_, T') \<Rightarrow>
          (let runnerID = (case txn_first (mTable m) vmid of None \<Rightarrow> 0 | Some v \<Rightarrow> RunnerID v);
               m1 = m\<lparr>mTable := T'\<rparr> in
           Some (if runnerID \<noteq> 0 \<and> HasOrphanCallback (mCfg m)
                 then m1\<lparr>mDeregistered := mDeregistered m1 @ [runnerID]\<rparr> else m1)))"

definition rollback_finish :: "manager \<Rightarrow> time \<Rightarrow> bool \<Rightarrow> int \<Rightarrow> string \<Rightarrow> string \<Rightarrow> manager" where
  "rollback_finish m now rolledBack vmid node profile =
     (if \<not> rolledBack then fallbackDestroy m now vmid node profile
      else case UpdateState (mTable m) now vmid StateRecycling StateWarm
                  (\<lambda>v. v\<lparr>PoolKindOf := PoolKindWarm, RecycleCount := RecycleCount v + 1, StateSince := now,
                          HasRecycleSnapshot := True\<rparr>) of
             Inr (Some T') \<Rightarrow> SignalRefill (m\<lparr>mTable := T'\<rparr>)
           | _ \<Rightarrow> m)"

definition rollback :: "manager \<Rightarrow> time \<Rightarrow> bool \<Rightarrow> int \<Rightarrow> string \<Rightarrow> string \<Rightarrow> manager" where
  "rollback m now rolledBack vmid node profile =
     (case rollback_start m now vmid of
        None \<Rightarrow> m
      | Some m1 \<Rightarrow> rollback_finish m1 now rolledBack vmid node profile)"

section \<open>Adoption\<close>

record adoptionKey =
  powerRunning :: bool
  runnerPresent :: bool
  runnerBusy :: bool

record adoptionClass =
  acState :: State
  acKind :: PoolKind
  withRunnerID :: bool

definition adoptionMatrix :: "adoptionKey \<Rightarrow> adoptionClass" where
  "adoptionMatrix k =
     (if \<not> powerRunning k then \<lparr>acState = StateWarm, acKind = PoolKindWarm, withRunnerID = False\<rparr>
      else if \<not> runnerPresent k then \<lparr>acState = StateHot, acKind = PoolKindHot, withRunnerID = False\<rparr>
      else if \<not> runnerBusy k then \<lparr>acState = StateAssigned, acKind = PoolKindHot, withRunnerID = True\<rparr>
      else \<lparr>acState = StateRunning, acKind = PoolKindHot, withRunnerID = True\<rparr>)"

text \<open>\<open>pw\<close> is the provisioner's reply for the VM, \<open>None\<close> when the query failed.\<close>

definition classifyAdoption :: "string option \<Rightarrow> poolVM \<Rightarrow> (string \<rightharpoonup> RunnerInfo) \<Rightarrow> State \<times> PoolKind \<times> int" where
  "classifyAdoption pw pv runners =
     (case pw of
        None \<Rightarrow> (StateHot, PoolKindHot, 0)
      | Some p \<Rightarrow>
          (let gr = runners (vmName pv);
               class = adoptionMatrix \<lparr>powerRunning = (p = ''running''), runnerPresent = (gr \<noteq> None),
                          runnerBusy = (case gr of None \<Rightarrow> False | Some r \<Rightarrow> riBusy r)\<rparr> in
           (acState class, acKind class,
            if withRunnerID class then (case gr of None \<Rightarrow> 0 | Some r \<Rightarrow> riID r) else 0)))"

definition adoptOne ::
  "manager \<Rightarrow> time \<Rightarrow> string option \<Rightarrow> (string \<rightharpoonup> RunnerInfo) \<Rightarrow> poolVM \<Rightarrow> manager" where
  "adoptOne m now pw runners pv =
     (let (state0, kind, runnerID0) = classifyAdoption pw pv runners;
          profile = (if vmProfile pv = '''' \<or> profileOf m (vmProfile pv) = None
                     then defaultProfile m else vmProfile pv);
          recycleOnAdopt = (snapshotRecycle m \<and> state0 = StateWarm);
          state = (if recycleOnAdopt then StateRecycling else state0);
          runnerID = (if recycleOnAdopt
                      then (case runners (vmName pv) of None \<Rightarrow> runnerID0 | Some gr \<Rightarrow> riID gr) else runnerID0);
          row = (new_row (vmVMID pv) (vmNode pv) (vmName pv) profile kind state)
                  \<lparr>RunnerID := runnerID, HasRecycleSnapshot := snapshotRecycle m\<rparr> in
      case Insert (mTable m) now row of
        Inl _ \<Rightarrow> m
      | Inr T' \<Rightarrow>
          (if recycleOnAdopt
           then rollbackAsync (m\<lparr>mTable := T'\<rparr>) (vmVMID pv) (vmNode pv) (vmName pv) profile
           else m\<lparr>mTable := T'\<rparr>))"

text \<open>
  \<^verbatim>\<open>Adopt\<close>: \<open>owned\<close> is the provisioner's list of owned VMs (\<open>None\<close> on error), \<open>listed\<close>
  the reply of the runner lister (\<open>None\<close> when there is no lister or it failed).
\<close>

definition Adopt ::
  "manager \<Rightarrow> time \<Rightarrow> poolVM list option \<Rightarrow> (int \<Rightarrow> string option) \<Rightarrow> (string \<rightharpoonup> RunnerInfo) option \<Rightarrow>
   pool_error option \<times> manager" where
  "Adopt m now owned pw listed =
     (case owned of
        None \<Rightarrow> (Some PoolErrListOwned, m)
      | Some vms \<Rightarrow>
          (let runners = (case listed of None \<Rightarrow> Map.empty | Some rs \<Rightarrow> rs) in
           (None, foldl (\<lambda>s pv. adoptOne s now (pw (vmVMID pv)) runners pv) m vms)))"

section \<open>Power poll\<close>

definition powerPollErrLogInterval :: duration where
  "powerPollErrLogInterval = 30 * second"

definition powerPoll_row :: "time \<Rightarrow> (int \<Rightarrow> string option) \<Rightarrow> manager \<Rightarrow> VM \<Rightarrow> manager" where
  "powerPoll_row now pw m row =
     (case pw (VMID row) of
        None \<Rightarrow>
          (if (case mPowerLog m (VMID row) of None \<Rightarrow> True | Some prev \<Rightarrow> now - prev \<ge> powerPollErrLogInterval)
           then m\<lparr>mPowerLog := (mPowerLog m)(VMID row \<mapsto> now)\<rparr> else m)
      | Some st \<Rightarrow>
          if st = '''' \<or> st = ''running'' then m
          else snd (MarkCompleted m now (VMID row)))"

text \<open>The loop over the rows that were listed, then the pruning of the log throttle.\<close>

definition powerPoll_rows :: "manager \<Rightarrow> time \<Rightarrow> (int \<Rightarrow> string option) \<Rightarrow> VM list \<Rightarrow> manager" where
  "powerPoll_rows m now pw rows =
     (let m1 = foldl (powerPoll_row now pw) m rows in
      m1\<lparr>mPowerLog := mPowerLog m1 |` (VMID ` set rows)\<rparr>)"

definition powerPollOnce :: "(VM list \<Rightarrow> VM list) \<Rightarrow> manager \<Rightarrow> time \<Rightarrow> (int \<Rightarrow> string option) \<Rightarrow> manager" where
  "powerPollOnce ord m now pw =
     powerPoll_rows m now pw (ListByState ord (mTable m) [StateAssigned, StateRunning])"


section \<open>What the signals and queues leave alone\<close>

text \<open>A refill signal changes nothing but the refill flags: every profile keeps its settings and sizes.\<close>

definition same_but_refill :: "manager \<Rightarrow> manager \<Rightarrow> bool" where
  "same_but_refill m m' \<longleftrightarrow>
     m'\<lparr>mRefill := False, mProfiles := map_option (\<lambda>p. p\<lparr>prRefill := False\<rparr>) \<circ> mProfiles m'\<rparr> =
     m\<lparr>mRefill := False, mProfiles := map_option (\<lambda>p. p\<lparr>prRefill := False\<rparr>) \<circ> mProfiles m\<rparr>"

lemma same_but_refill_refl [simp]: "same_but_refill m m"
  by (simp add: same_but_refill_def)

lemma same_but_refill_trans: "same_but_refill a b \<Longrightarrow> same_but_refill b c \<Longrightarrow> same_but_refill a c"
  by (simp add: same_but_refill_def)

lemma same_but_refill_signal: "same_but_refill m (signalProfileRefill m p)"
  by (auto simp: same_but_refill_def signalProfileRefill_def Let_def fun_eq_iff split: option.split)

lemma same_but_refill_SignalRefill: "same_but_refill m (SignalRefill m)"
proof -
  have "same_but_refill s (foldl signalProfileRefill s names)" for s names
    by (induction names arbitrary: s) (auto intro: same_but_refill_trans same_but_refill_signal)
  moreover have "same_but_refill m (m\<lparr>mRefill := True\<rparr>)" by (simp add: same_but_refill_def)
  ultimately show ?thesis unfolding SignalRefill_def using same_but_refill_trans by blast
qed

lemma same_but_refill_fields:
  assumes "same_but_refill m m'"
  shows "mCfg m' = mCfg m" "mTable m' = mTable m" "mProfileOrder m' = mProfileOrder m"
    "mDestroyFree m' = mDestroyFree m" "mBootFree m' = mBootFree m" "mDraining m' = mDraining m"
    "mSending m' = mSending m" "mQueue m' = mQueue m" "mInHand m' = mInHand m" "mTasks m' = mTasks m" "mWorkerCancelled m' = mWorkerCancelled m"
    "mDesired m' = mDesired m" "mPowerLog m' = mPowerLog m" "mAcct m' = mAcct m" "mCanary m' = mCanary m"
    "mDeregistered m' = mDeregistered m" "mIPReleased m' = mIPReleased m"
  using assms by (cases m, cases m', simp add: same_but_refill_def)+

lemma same_but_refill_profile:
  assumes "same_but_refill m m'"
  shows "map_option (\<lambda>p. p\<lparr>prRefill := False\<rparr>) (mProfiles m' n) = map_option (\<lambda>p. p\<lparr>prRefill := False\<rparr>) (mProfiles m n)"
  using arg_cong [where f = "\<lambda>s. mProfiles s n", OF assms [unfolded same_but_refill_def]] by simp

lemmas SignalRefill_fields [simp] = same_but_refill_fields [OF same_but_refill_SignalRefill]
lemmas signal_fields [simp] = same_but_refill_fields [OF same_but_refill_signal]

lemma SignalRefill_profile:
  "map_option f (mProfiles (SignalRefill m) n) = map_option f (mProfiles m n)"
  if "\<And>p. f p = f (p\<lparr>prRefill := False\<rparr>)"
proof -
  have "map_option (\<lambda>p. f (p\<lparr>prRefill := False\<rparr>)) (mProfiles (SignalRefill m) n) =
      map_option (\<lambda>p. f (p\<lparr>prRefill := False\<rparr>)) (mProfiles m n)"
    using arg_cong [where f = "map_option f", OF same_but_refill_profile [OF same_but_refill_SignalRefill [of m], of n]]
    by (simp add: option.map_comp comp_def)
  then show ?thesis using that by simp
qed

lemma destroyAsync_fields [simp]:
  "mCfg (destroyAsync m i n p) = mCfg m" "mTable (destroyAsync m i n p) = mTable m"
  "mProfiles (destroyAsync m i n p) = mProfiles m" "mProfileOrder (destroyAsync m i n p) = mProfileOrder m"
  "mDestroyFree (destroyAsync m i n p) = mDestroyFree m" "mBootFree (destroyAsync m i n p) = mBootFree m"
  "mDraining (destroyAsync m i n p) = mDraining m" "mTasks (destroyAsync m i n p) = mTasks m"
  "mWorkerCancelled (destroyAsync m i n p) = mWorkerCancelled m" "mInHand (destroyAsync m i n p) = mInHand m"
  "mDeregistered (destroyAsync m i n p) = mDeregistered m" "mIPReleased (destroyAsync m i n p) = mIPReleased m"
  "mAcct (destroyAsync m i n p) = mAcct m" "mCanary (destroyAsync m i n p) = mCanary m"
  "mQueue (destroyAsync m i n p) = mQueue m"
  by (simp_all add: destroyAsync_def)

lemma destroyAsync_sending:
  "mSending (destroyAsync m i n p) =
     (if mDraining m then mSending m else mSending m @ [\<lparr>drVMID = i, drNode = n, drProfile = p\<rparr>])"
  by (simp add: destroyAsync_def)

lemma destroySend_fields [simp]:
  "mTable (destroySend m r) = mTable m" "mDestroyFree (destroySend m r) = mDestroyFree m" "mBootFree (destroySend m r) = mBootFree m"
  "mDraining (destroySend m r) = mDraining m" "mTasks (destroySend m r) = mTasks m" "mSending (destroySend m r) = remove1 r (mSending m)"
  "mQueue (destroySend m r) = (if length (mQueue m) < destroyQueueCap then mQueue m @ [r] else mQueue m)"
  by (simp_all add: destroySend_def Let_def)

lemma rollbackAsync_fields [simp]:
  "mTable (rollbackAsync m i n nm p) = mTable m" "mQueue (rollbackAsync m i n nm p) = mQueue m"
  "mSending (rollbackAsync m i n nm p) = mSending m"
  "mInHand (rollbackAsync m i n nm p) = mInHand m" "mDraining (rollbackAsync m i n nm p) = mDraining m"
  "mBootFree (rollbackAsync m i n nm p) = mBootFree m" "mDestroyFree (rollbackAsync m i n nm p) = mDestroyFree m"
  "mCfg (rollbackAsync m i n nm p) = mCfg m" "mProfiles (rollbackAsync m i n nm p) = mProfiles m"
  by (simp_all add: rollbackAsync_def)


section \<open>Transitions of a row\<close>

text \<open>The two outcomes of a guarded transition with a mutation that leaves identity and state alone.\<close>

lemma cas_cases:
  assumes "wf_table T" and "benign f"
  obtains (lost) "UpdateStateIn T now i fs st f = Inr None"
      and "\<And>v. txn_first T i = Some v \<Longrightarrow> StateOf v \<notin> set fs"
  | (won) v T' where "txn_first T i = Some v" and "StateOf v \<in> set fs"
      and "UpdateStateIn T now i fs st f = Inr (Some T')"
      and "txn_first T' = (txn_first T)(i \<mapsto> f (cas_row now st v))" and "wf_table T'"
proof (cases "\<exists>v. txn_first T i = Some v \<and> StateOf v \<in> set fs")
  case True
  then obtain v where v: "txn_first T i = Some v" "StateOf v \<in> set fs" by blast
  from table_store.cas_wins [OF assms(1) v assms(2)] obtain T' where
    T': "table_cas T now i fs st f = Some T'" "wf_table T'" "txn_first T' = (txn_first T)(i \<mapsto> f (cas_row now st v))"
    by blast
  then have "UpdateStateIn T now i fs st f = Inr (Some T')"
    by (simp add: table_cas_def split: sum.splits)
  with v T' show ?thesis by (intro won) auto
next
  case False
  then show ?thesis by (intro lost) (auto simp: UpdateStateIn_lost)
qed

lemma benign_simps [simp]:
  "benign id" "benign (\<lambda>v. v\<lparr>StateSince := t\<rparr>)" "benign (\<lambda>v. v\<lparr>RunnerID := r\<rparr>)"
  "benign (\<lambda>v. v\<lparr>RunnerID := r, JobID := g v\<rparr>)" "benign (\<lambda>v. v\<lparr>PoolKindOf := k\<rparr>)"
  "benign (\<lambda>v. v\<lparr>PoolKindOf := k, RecycleCount := h v, StateSince := t, HasRecycleSnapshot := b\<rparr>)"
  by (simp_all add: benign_def)

text \<open>An update that succeeds writes one row, and its failure on an existing row is excluded for such mutations.\<close>

lemma update_cases:
  assumes "wf_table T" and "\<And>v. VMID (f v) = VMID v \<and> Profile (f v) = Profile v \<and> CreatedAt (f v) = CreatedAt v"
  obtains (missing) "Update T now i f = Inl ErrNotFound" and "txn_first T i = None"
  | (written) v T' where "txn_first T i = Some v" and "Update T now i f = Inr ((f v)\<lparr>UpdatedAt := now\<rparr>, T')"
      and "txn_first T' = (txn_first T)(i \<mapsto> (f v)\<lparr>UpdatedAt := now\<rparr>)" and "wf_table T'"
proof (cases "txn_first T i")
  case None
  then show ?thesis by (intro missing) (simp_all add: Update_def updateInTxn_def)
next
  case (Some v)
  let ?v = "(f v)\<lparr>UpdatedAt := now\<rparr>"
  have v: "VMID v = i" "0 < i" "indexable v" using txn_first_VMID [OF Some] wf_first [OF assms(1) Some] by auto
  with assms(2) [of v] have w: "VMID ?v = i" "indexable ?v" by (auto simp: indexable_def)
  then have "Update T now i f = Inr (?v, put T ?v)"
    using v Some assms(2) [of v] by (auto simp: Update_Inr indexable_def)
  moreover have "txn_first (put T ?v) = (txn_first T)(i \<mapsto> ?v)" using w by (auto simp: put_first fun_eq_iff)
  moreover have "wf_table (put T ?v)" using wf_put [OF assms(1)] w v by simp
  ultimately show ?thesis using Some by (intro written)
qed

text \<open>A destroy of the VM is queued, or its request is on its way and finds room in the queue.\<close>

definition pending :: "manager \<Rightarrow> int \<Rightarrow> bool" where
  "pending m i \<longleftrightarrow> (\<exists>r \<in> set (mQueue m). drVMID r = i) \<or>
     (\<exists>r \<in> set (mSending m). drVMID r = i \<and> r \<in> set (mQueue (destroySend m r)))"

lemma destroyAsync_pending:
  assumes "\<not> mDraining m" and "length (mQueue m) < destroyQueueCap"
  shows "pending (destroyAsync m i n p) i"
  using assms by (auto simp: pending_def destroyAsync_def)

section \<open>Properties of the handlers\<close>

text \<open>
  C38. Preemption touches a VM only while it is assigned and not yet running its job, however stale the
  row that the caller looked at: it either reports success, and then the row was assigned, is now
  draining, and a destroy request that finds room in the queue is on its way when the queue has room and
  the pool is not shutting down; or it reports an error and changes nothing. No other row changes.\<close>

theorem preempt_only_assigned:
  assumes "wf_table (mTable m)" and "Preempt_from m now vmid target = (err, m')"
  shows "(err = None \<and> StateOf target = StateAssigned \<and>
      (\<exists>v. txn_first (mTable m) vmid = Some v \<and> StateOf v = StateAssigned \<and>
        txn_first (mTable m') = (txn_first (mTable m))(vmid \<mapsto> cas_row now StateDraining v)) \<and>
      (\<not> mDraining m \<and> length (mQueue m) < destroyQueueCap \<longrightarrow> pending m' vmid)) \<or>
    (err = Some PoolErrPreemptRefused \<and> m' = m)"
proof (cases "StateOf target = StateAssigned")
  case False
  with assms(2) show ?thesis by (simp add: Preempt_from_def)
next
  case True
  show ?thesis
  proof (rule cas_cases [OF assms(1), of "\<lambda>v. v\<lparr>StateSince := now\<rparr>" now vmid "[StateAssigned]" StateDraining])
    assume "UpdateStateIn (mTable m) now vmid [StateAssigned] StateDraining (\<lambda>v. v\<lparr>StateSince := now\<rparr>) = Inr None"
    with True assms(2) show ?thesis by (simp add: Preempt_from_def UpdateState_eq)
  next
    fix v T'
    assume v: "txn_first (mTable m) vmid = Some v" "StateOf v \<in> set [StateAssigned]"
      and T': "UpdateStateIn (mTable m) now vmid [StateAssigned] StateDraining (\<lambda>v. v\<lparr>StateSince := now\<rparr>) = Inr (Some T')"
        "txn_first T' = (txn_first (mTable m))(vmid \<mapsto> (cas_row now StateDraining v)\<lparr>StateSince := now\<rparr>)"
    have m': "err = None" "m' = destroyAsync (m\<lparr>mTable := T'\<rparr>) vmid (Node target) (Profile target)"
      using True assms(2) T'(1) by (simp_all add: Preempt_from_def UpdateState_eq)
    have "(cas_row now StateDraining v)\<lparr>StateSince := now\<rparr> = cas_row now StateDraining v"
      by (simp add: cas_row_def)
    with v T'(2) m' True show ?thesis by (auto intro: destroyAsync_pending)
  qed simp
qed

definition ex_pool :: "table \<Rightarrow> manager" where
  "ex_pool T = (case NewManager ex_cfg T None None of Inr m \<Rightarrow> m | Inl _ \<Rightarrow> undefined)"

definition ex_vm :: "int \<Rightarrow> State \<Rightarrow> VM" where
  "ex_vm i st = (new_row i ''pve1'' ''gh'' ''default'' PoolKindHot st)\<lparr>CreatedAt := 5, UpdatedAt := 5, StateSince := 5\<rparr>"

theorem preempt_only_assigned_witness:
  "\<exists>m'. Preempt_from (ex_pool [ex_vm 100 StateRunning]) 9 100 (ex_vm 100 StateAssigned) = (Some PoolErrPreemptRefused, m') \<and>
     m' = ex_pool [ex_vm 100 StateRunning]"
proof -
  let ?m = "ex_pool [ex_vm 100 StateRunning]"
  have T: "mTable ?m = [ex_vm 100 StateRunning]" by code_simp
  have wf: "wf_table (mTable ?m)" unfolding T by (simp add: wf_table_def ex_vm_def indexable_def)
  obtain err m' where r: "Preempt_from ?m 9 100 (ex_vm 100 StateAssigned) = (err, m')" by force
  have "txn_first (mTable ?m) 100 = Some (ex_vm 100 StateRunning)" unfolding T by (simp add: txn_first_def ex_vm_def)
  then have "\<not> (\<exists>v. txn_first (mTable ?m) 100 = Some v \<and> StateOf v = StateAssigned)" by (simp add: ex_vm_def)
  then have "err = Some PoolErrPreemptRefused \<and> m' = ?m" using preempt_only_assigned [OF wf r] by blast
  with r show ?thesis by blast
qed


text \<open>
  C39. Completion of a job, however stale the row that was looked at, only ever moves a busy VM: its row
  goes to recycling with a rollback started, or to draining with a destroy requested, according to the
  recycle decision, and every other outcome leaves the table, the requests, the queue and the workers
  alone. No other row changes, and the handler never fails.\<close>

theorem mark_completed_only_busy:
  assumes "wf_table (mTable m)" and "VMID target = vmid" and "MarkCompleted_from m now vmid target = (err, m')"
  shows "err = None \<and>
    ((mTable m' = mTable m \<and> mSending m' = mSending m \<and> mQueue m' = mQueue m \<and> mTasks m' = mTasks m) \<or>
     (\<exists>v st. txn_first (mTable m) vmid = Some v \<and> StateOf v \<in> {StateAssigned, StateRunning} \<and>
        st = (if shouldRecycle m now target then StateRecycling else StateDraining) \<and>
        txn_first (mTable m') = (txn_first (mTable m))(vmid \<mapsto> cas_row now st v) \<and>
        (if shouldRecycle m now target
         then mSending m' = mSending m \<and> mQueue m' = mQueue m \<and>
           (\<not> mDraining m \<longrightarrow> mTasks m' = mTasks m @ [TRollback vmid (Node target) (Name target) (Profile target)])
         else mTasks m' = mTasks m \<and> (\<not> mDraining m \<and> length (mQueue m) < destroyQueueCap \<longrightarrow> pending m' vmid))))"
proof (cases "StateOf target \<in> {StateAssigned, StateRunning}")
  case False
  then have "(err, m') = (None, SignalRefill m) \<or> (err, m') = (None, m)"
    using assms(3) by (cases "StateOf target") (auto simp: MarkCompleted_from_def)
  then show ?thesis by auto
next
  case busy: True
  let ?f = "\<lambda>v. v\<lparr>StateSince := now\<rparr>"
  let ?st = "if shouldRecycle m now target then StateRecycling else StateDraining"
  have c: "?f (cas_row now st v) = cas_row now st v" for st v by (simp add: cas_row_def)
  show ?thesis
  proof (rule cas_cases [OF assms(1), of ?f now vmid "[StateAssigned, StateRunning]" ?st])
    assume "UpdateStateIn (mTable m) now vmid [StateAssigned, StateRunning] ?st ?f = Inr None"
    with busy assms(3) show ?thesis by (auto simp: MarkCompleted_from_def split: if_splits)
  next
    fix v T'
    assume v: "txn_first (mTable m) vmid = Some v" "StateOf v \<in> set [StateAssigned, StateRunning]"
      and T': "UpdateStateIn (mTable m) now vmid [StateAssigned, StateRunning] ?st ?f = Inr (Some T')"
        "txn_first T' = (txn_first (mTable m))(vmid \<mapsto> ?f (cas_row now ?st v))"
    show ?thesis
    proof (cases "shouldRecycle m now target")
      case True
      then have "err = None" "m' = SignalRefill (rollbackAsync (m\<lparr>mTable := T'\<rparr>) vmid (Node target) (Name target) (Profile target))"
        using busy T'(1) assms(2,3) by (auto simp: MarkCompleted_from_def)
      with True v T'(2) show ?thesis by (auto simp: c rollbackAsync_def)
    next
      case False
      then have "err = None" "m' = SignalRefill (destroyAsync (m\<lparr>mTable := T'\<rparr>) vmid (Node target) (Profile target))"
        using busy T'(1) assms(2,3) by (auto simp: MarkCompleted_from_def)
      with False v T'(2) show ?thesis by (auto simp: c pending_def destroyAsync_sending)
    qed
  qed simp
qed

theorem mark_completed_only_busy_witness:
  "\<exists>m'. MarkCompleted_from (ex_pool [ex_vm 100 StateRunning]) 9 100 (ex_vm 100 StateRunning) = (None, m') \<and>
     map_option StateOf (txn_first (mTable m') 100) = Some StateDraining"
proof -
  let ?m = "ex_pool [ex_vm 100 StateRunning]"
  have T: "mTable ?m = [ex_vm 100 StateRunning]" and q: "mQueue ?m = []" "\<not> mDraining ?m"
    and s: "\<not> shouldRecycle ?m 9 (ex_vm 100 StateRunning)" by code_simp+
  have wf: "wf_table (mTable ?m)" unfolding T by (simp add: wf_table_def ex_vm_def indexable_def)
  obtain err m' where r: "MarkCompleted_from ?m 9 100 (ex_vm 100 StateRunning) = (err, m')" by force
  have "mTable (snd (MarkCompleted_from ?m 9 100 (ex_vm 100 StateRunning))) \<noteq> mTable ?m" by code_simp
  then have "mTable m' \<noteq> mTable ?m" unfolding r by simp
  then show ?thesis
    using mark_completed_only_busy [OF wf _ r] r s by (fastforce simp: ex_vm_def)
qed

text \<open>
  Forcing a destroy of the same VM twice requests one destroy: after the first call on a VM that
  exists, its row is on the way out, and the second call changes nothing at all.\<close>

theorem force_destroy_once:
  assumes "wf_table (mTable m)" and "ForceDestroy m now vmid = (e1, m1)" and "ForceDestroy m1 now' vmid = (e2, m2)"
  shows "e1 = None \<and> e2 = None \<and> m2 = m1 \<and>
    (\<forall>v. txn_first (mTable m1) vmid = Some v \<longrightarrow> StateOf v \<in> {StateDraining, StateDestroying}) \<and>
    length (mSending m1) \<le> length (mSending m) + 1 \<and> mQueue m1 = mQueue m"
proof -
  let ?fs = "[StateProvisioning, StateWarm, StateBooting, StateHot, StateAssigned, StateRunning, StateRecycling, StatePoison]"
  have out: "StateOf v \<notin> set ?fs \<longleftrightarrow> StateOf v \<in> {StateDraining, StateDestroying}" for v
    by (cases "StateOf v") auto
  have first: "e1 = None \<and> (\<forall>v. txn_first (mTable m1) vmid = Some v \<longrightarrow> StateOf v \<notin> set ?fs) \<and>
      length (mSending m1) \<le> length (mSending m) + 1 \<and> mQueue m1 = mQueue m"
  proof (rule cas_cases [OF assms(1), of id now vmid ?fs StateDraining])
    assume "UpdateStateIn (mTable m) now vmid ?fs StateDraining id = Inr None"
      "\<And>v. txn_first (mTable m) vmid = Some v \<Longrightarrow> StateOf v \<notin> set ?fs"
    with assms(2) show ?thesis by (simp add: ForceDestroy_def)
  next
    fix v T'
    assume "UpdateStateIn (mTable m) now vmid ?fs StateDraining id = Inr (Some T')"
      "txn_first T' = (txn_first (mTable m))(vmid \<mapsto> id (cas_row now StateDraining v))"
    with assms(2) show ?thesis by (auto simp: ForceDestroy_def destroyAsync_sending)
  qed simp
  then have "UpdateStateIn (mTable m1) now' vmid ?fs StateDraining id = Inr None"
    by (auto simp: UpdateStateIn_lost)
  with assms(3) have "e2 = None \<and> m2 = m1" by (simp add: ForceDestroy_def)
  with first out show ?thesis by blast
qed

theorem force_destroy_once_witness:
  "snd (ForceDestroy (snd (ForceDestroy (ex_pool [ex_vm 100 StateHot]) 9 100)) 10 100) =
   snd (ForceDestroy (ex_pool [ex_vm 100 StateHot]) 9 100)"
proof -
  let ?m = "ex_pool [ex_vm 100 StateHot]"
  have T: "mTable ?m = [ex_vm 100 StateHot]" by code_simp
  have wf: "wf_table (mTable ?m)" unfolding T by (simp add: wf_table_def ex_vm_def indexable_def)
  show ?thesis
    using force_destroy_once [OF wf, of 9 100 _ "snd (ForceDestroy ?m 9 100)" 10] by (metis prod.collapse)
qed


text \<open>
  The rollback of a recycling VM makes its row anonymous: runner, job and job metadata are cleared,
  the runner it had is deregistered, and the identity of the VM and its creation time stay. If the
  provisioner rolled the VM back, the row is warm, with one more recycle counted and its snapshot known
  to exist; if not, it is draining and a destroy is requested. No other row changes.\<close>

theorem rollback_recycles:
  assumes "wf_table (mTable m)" and "txn_first (mTable m) vmid = Some v" and "StateOf v = StateRecycling"
    and "rollback m now rolledBack vmid node profile = m'"
  shows "(\<exists>w. txn_first (mTable m') = (txn_first (mTable m))(vmid \<mapsto> w) \<and>
      same_identity v w \<and> RunnerID w = 0 \<and> JobID w = 0 \<and> Org w = '''' \<and> Repo w = '''' \<and> PriorityClass w = '''' \<and>
      (if rolledBack
       then StateOf w = StateWarm \<and> PoolKindOf w = PoolKindWarm \<and> RecycleCount w = RecycleCount v + 1 \<and> HasRecycleSnapshot w
       else StateOf w = StateDraining \<and> (\<not> mDraining m \<and> length (mQueue m) < destroyQueueCap \<longrightarrow> pending m' vmid))) \<and>
    mDeregistered m' = mDeregistered m @ (if RunnerID v \<noteq> 0 \<and> HasOrphanCallback (mCfg m) then [RunnerID v] else [])"
proof -
  let ?v = "(clear_pairing v)\<lparr>UpdatedAt := now\<rparr>"
  have ben: "VMID (clear_pairing u) = VMID u \<and> Profile (clear_pairing u) = Profile u \<and> CreatedAt (clear_pairing u) = CreatedAt u"
    for u by (simp add: clear_pairing_def)
  from assms(1) ben obtain T1 where u: "Update (mTable m) now vmid clear_pairing = Inr (?v, T1)"
      "txn_first T1 = (txn_first (mTable m))(vmid \<mapsto> ?v)" "wf_table T1"
    by (cases rule: update_cases [where f = clear_pairing and now = now and i = vmid]) (use assms(2) in auto)
  define m1 where "m1 = (let s = m\<lparr>mTable := T1\<rparr> in
      if RunnerID v \<noteq> 0 \<and> HasOrphanCallback (mCfg m) then s\<lparr>mDeregistered := mDeregistered s @ [RunnerID v]\<rparr> else s)"
  have s: "rollback_start m now vmid = Some m1" unfolding rollback_start_def m1_def using u(1) assms(2) by (simp add: Let_def)
  have m1: "mTable m1 = T1" "mDraining m1 = mDraining m" "mQueue m1 = mQueue m"
      "mDeregistered m1 = mDeregistered m @ (if RunnerID v \<noteq> 0 \<and> HasOrphanCallback (mCfg m) then [RunnerID v] else [])"
    by (simp_all add: m1_def Let_def)
  have m': "m' = rollback_finish m1 now rolledBack vmid node profile" using assms(4) s by (simp add: rollback_def)
  have row: "txn_first T1 vmid = Some ?v" "StateOf ?v = StateRecycling"
    using u(2) assms(3) by (simp_all add: clear_pairing_def)
  let ?tgt = "if rolledBack then StateWarm else StateDraining"
  let ?f = "if rolledBack then (\<lambda>v. v\<lparr>PoolKindOf := PoolKindWarm, RecycleCount := RecycleCount v + 1, StateSince := now,
              HasRecycleSnapshot := True\<rparr>) else (\<lambda>v. v\<lparr>StateSince := now\<rparr>)"
  have "benign ?f" by simp
  from u(3) this obtain T2 where t2: "UpdateStateIn T1 now vmid [StateRecycling] ?tgt ?f = Inr (Some T2)"
      "txn_first T2 = (txn_first T1)(vmid \<mapsto> ?f (cas_row now ?tgt ?v))"
    by (cases rule: cas_cases [where f = ?f and now = now and i = vmid and fs = "[StateRecycling]" and st = ?tgt])
      (use row in auto)
  show ?thesis
  proof (cases rolledBack)
    case True
    then have "m' = SignalRefill (m1\<lparr>mTable := T2\<rparr>)"
      using t2(1) by (simp add: m' rollback_finish_def m1(1) UpdateState_eq)
    with True t2(2) u(2) m1 show ?thesis
      by (auto simp: same_identity_def clear_pairing_def cas_row_def intro!: exI [of _ "?f (cas_row now ?tgt ?v)"])
  next
    case False
    then have "m' = destroyAsync (m1\<lparr>mTable := T2\<rparr>) vmid node profile"
      using t2(1) by (simp add: m' rollback_finish_def fallbackDestroy_def m1(1) UpdateState_eq)
    with False t2(2) u(2) m1 show ?thesis
      by (auto simp: same_identity_def clear_pairing_def cas_row_def pending_def destroyAsync_sending
          intro!: exI [of _ "?f (cas_row now ?tgt ?v)"])
  qed
qed

theorem rollback_recycles_witness:
  "\<exists>w. txn_first (mTable (rollback (ex_pool [(ex_vm 100 StateRecycling)\<lparr>RunnerID := 7, JobID := 3\<rparr>]) 9 True 100 ''pve1'' ''default'')) 100 = Some w \<and>
     StateOf w = StateWarm \<and> RunnerID w = 0 \<and> JobID w = 0 \<and> RecycleCount w = 1"
proof -
  let ?v = "(ex_vm 100 StateRecycling)\<lparr>RunnerID := 7, JobID := 3\<rparr>"
  let ?m = "ex_pool [?v]"
  have T: "mTable ?m = [?v]" by code_simp
  have wf: "wf_table (mTable ?m)" unfolding T by (simp add: wf_table_def ex_vm_def indexable_def)
  have f: "txn_first (mTable ?m) 100 = Some ?v" unfolding T by (simp add: txn_first_def ex_vm_def)
  have st: "StateOf ?v = StateRecycling" "RecycleCount ?v = 0" by (simp_all add: ex_vm_def new_row_def)
  show ?thesis
    using rollback_recycles [OF wf f st(1), of 9 True "''pve1''" "''default''"] st(2) by auto
qed

text \<open>
  A destroy worker whose provisioner call failed changes nothing. One whose call succeeded removes
  the row of that VMID and no other, and deregisters exactly the runner that the row carried at the
  moment of its deletion.\<close>

theorem destroy_deregisters:
  assumes "destroy m gone vmid = m'"
  shows "(gone \<or> m' = m) \<and>
    (gone \<longrightarrow> txn_first (mTable m') = (txn_first (mTable m))(vmid := None) \<and>
      mDeregistered m' = mDeregistered m @
        (case txn_first (mTable m) vmid of
           Some v \<Rightarrow> if RunnerID v \<noteq> 0 \<and> HasOrphanCallback (mCfg m) then [RunnerID v] else []
         | None \<Rightarrow> []))"
proof (cases gone)
  case True
  define deleted where "deleted = txn_first (mTable m) vmid"
  have d: "DeleteAndReturn (mTable m) vmid = (deleted, if deleted = None then mTable m else txn_delete (mTable m) vmid)"
    by (auto simp: DeleteAndReturn_def deleted_def txn_first_VMID split: option.split)
  have t: "txn_first (if deleted = None then mTable m else txn_delete (mTable m) vmid) = (txn_first (mTable m))(vmid := None)"
    by (auto simp: deleted_def txn_delete_first fun_eq_iff)
  show ?thesis
    using assms True t
    by (auto simp: destroy_def d Let_def simp flip: deleted_def split: option.splits if_splits)
qed (use assms in \<open>simp add: destroy_def\<close>)

theorem destroy_deregisters_witness:
  "mDeregistered (destroy (ex_pool [(ex_vm 100 StateDraining)\<lparr>RunnerID := 7\<rparr>]) True 100) = [7]"
proof -
  let ?v = "(ex_vm 100 StateDraining)\<lparr>RunnerID := 7\<rparr>"
  have T: "mTable (ex_pool [?v]) = [?v]" "mDeregistered (ex_pool [?v]) = []" "HasOrphanCallback (mCfg (ex_pool [?v]))"
    by code_simp+
  have "txn_first (mTable (ex_pool [?v])) 100 = Some ?v" unfolding T(1) by (simp add: txn_first_def ex_vm_def)
  then show ?thesis using destroy_deregisters [of "ex_pool [?v]" True 100] T(2,3) by simp
qed


lemma store_desired_other: "p \<notin> set names \<Longrightarrow> store_desired n k i names ps p = ps p"
  by (induction names arbitrary: i ps) (auto split: option.split)

lemma store_desired_nth:
  assumes "distinct names" and "j < length names" and "ps (names ! j) = Some q"
  shows "store_desired n k i names ps (names ! j) = Some (q\<lparr>prDesired := desired_share n k (i + j)\<rparr>)"
  using assms
proof (induction names arbitrary: i j ps)
  case (Cons a names)
  show ?case
  proof (cases j)
    case 0
    with Cons.prems show ?thesis by (simp add: store_desired_other split: option.split)
  next
    case (Suc j')
    with Cons.prems have "names ! j' \<noteq> a" by auto
    then have "(case ps a of None \<Rightarrow> ps | Some p \<Rightarrow> ps(a \<mapsto> p\<lparr>prDesired := desired_share n k i\<rparr>)) (names ! j') = Some q"
      using Cons.prems Suc by (auto split: option.split)
    with Cons.IH [of j' _ "Suc i"] Cons.prems Suc show ?thesis by simp
  qed
qed simp

lemma share_value:
  assumes "0 < k" and "0 \<le> n" and "n < 2147483648"
  shows "desired_share n k j = n div int k + (if int j < n mod int k then 1 else 0)"
proof -
  have p: "0 \<le> n div int k" using assms by (simp add: pos_imp_zdiv_nonneg_iff)
  have "n div int k + (if int j < n mod int k then 1 else 0) < 2147483648"
  proof (cases "int j < n mod int k")
    case True
    have "n div int k \<le> int k * (n div int k)" using assms(1) p by (simp add: mult_le_cancel_right1)
    moreover have "n = int k * (n div int k) + n mod int k" by simp
    ultimately have "n div int k + 1 \<le> n" using True by linarith
    with True assms(3) show ?thesis by simp
  next
    case False
    have "n div int k \<le> int k * (n div int k)" using assms(1) p by (simp add: mult_le_cancel_right1)
    moreover have "n = int k * (n div int k) + n mod int k" "0 \<le> n mod int k" using assms(1) by simp_all
    ultimately have "n div int k \<le> n" by linarith
    with False assms(3) show ?thesis by simp
  qed
  with p show ?thesis by (auto simp: desired_share_def Let_def to_int32_id)
qed

lemma sum_shares:
  assumes "0 < k" and "0 \<le> n" and "n < 2147483648"
  shows "(\<Sum>j<k. desired_share n k j) = n"
proof -
  have b: "n mod int k < int k" "0 \<le> n mod int k" using assms(1) by simp_all
  then have r: "nat (n mod int k) \<le> k" "0 \<le> n mod int k" by linarith+
  have "{j \<in> {..<k}. int j < n mod int k} = {..<nat (n mod int k)}" using r by auto
  then have "(\<Sum>j<k. (if int j < n mod int k then 1 else 0 :: int)) = n mod int k"
    using r by (simp add: sum.If_cases Int_def)
  then show ?thesis by (simp add: share_value [OF assms] sum.distrib)
qed

definition desired_of :: "manager \<Rightarrow> string \<Rightarrow> int" where
  "desired_of m p = (case mProfiles m p of Some q \<Rightarrow> prDesired q | None \<Rightarrow> 0)"

text \<open>
  The demand signal is split over the profiles without loss: after \<^verbatim>\<open>SetDesiredCount\<close>
  the profiles' desired counts add up to the demand, and no two of them differ by more than one.\<close>

theorem desired_count_split:
  assumes "distinct (mProfileOrder m)" and "mProfileOrder m \<noteq> []"
    and "\<forall>p \<in> set (mProfileOrder m). mProfiles m p \<noteq> None" and "0 \<le> n" and "n < 2147483648"
  shows "(\<Sum>p\<leftarrow>mProfileOrder m. desired_of (SetDesiredCount m n) p) = n \<and>
    (\<forall>p \<in> set (mProfileOrder m). \<forall>q \<in> set (mProfileOrder m).
       \<bar>desired_of (SetDesiredCount m n) p - desired_of (SetDesiredCount m n) q\<bar> \<le> 1)"
proof -
  let ?k = "length (mProfileOrder m)"
  let ?m = "m\<lparr>mDesired := to_int32 n, mProfiles := store_desired n ?k 0 (mProfileOrder m) (mProfiles m)\<rparr>"
  have e: "SetDesiredCount m n = SignalRefill ?m" using assms(4) by (simp add: SetDesiredCount_def)
  have d: "desired_of (SetDesiredCount m n) (mProfileOrder m ! j) = desired_share n ?k j" if "j < ?k" for j
  proof -
    from assms(3) that obtain q where "mProfiles m (mProfileOrder m ! j) = Some q" by force
    with store_desired_nth [of "mProfileOrder m" j "mProfiles m" q n ?k 0] assms(1) that
    have "map_option prDesired (mProfiles ?m (mProfileOrder m ! j)) = Some (desired_share n ?k j)" by simp
    then have "map_option prDesired (mProfiles (SetDesiredCount m n) (mProfileOrder m ! j)) = Some (desired_share n ?k j)"
      unfolding e by (subst SignalRefill_profile) simp_all
    then show ?thesis by (auto simp: desired_of_def)
  qed
  have k: "0 < ?k" using assms(2) by simp
  have "(\<Sum>p\<leftarrow>mProfileOrder m. desired_of (SetDesiredCount m n) p) = (\<Sum>j<?k. desired_share n ?k j)"
    by (simp add: sum_list_sum_nth atLeast0LessThan d)
  moreover have "\<bar>desired_of (SetDesiredCount m n) p - desired_of (SetDesiredCount m n) q\<bar> \<le> 1"
    if "p \<in> set (mProfileOrder m)" "q \<in> set (mProfileOrder m)" for p q
    using that d by (auto simp: in_set_conv_nth share_value [OF k assms(4,5)])
  ultimately show ?thesis using sum_shares [OF k assms(4,5)] by simp
qed

definition ex_two :: manager where
  "ex_two = (case NewManager (ex_cfg\<lparr>Profiles := [ex_gpu, ex_gpu\<lparr>psName := ''cpu''\<rparr>]\<rparr>) [] None None of Inr m \<Rightarrow> m | Inl _ \<Rightarrow> undefined)"

theorem desired_count_split_witness:
  "(\<Sum>p\<leftarrow>[''gpu'', ''cpu'']. desired_of (SetDesiredCount ex_two 7) p) = 7"
proof -
  have o: "mProfileOrder ex_two = [''gpu'', ''cpu'']" by code_simp
  have "list_all (\<lambda>p. mProfiles ex_two p \<noteq> None) (mProfileOrder ex_two)" by code_simp
  then have "\<forall>p \<in> set (mProfileOrder ex_two). mProfiles ex_two p \<noteq> None" by (simp add: list_all_iff)
  then show ?thesis using desired_count_split [of ex_two 7] unfolding o by simp
qed

text \<open>
  A change of the target sizes keeps the profile within its concurrency cap: the stored sizes are
  not negative and add up to at most the cap; a request that fits is stored as it is; the hot size has
  precedence over the warm size; and no other profile's sizes change.\<close>

theorem target_sizes_clamped:
  assumes "mProfiles m name = Some ps" and "psMaxConcurrentRunners (prSettings ps) = cap"
    and "0 \<le> cap" and "cap < 2147483648" and "SetTargetSizes m name hot warm = (err, m')"
  shows "err = None \<and>
    (\<exists>q. mProfiles m' name = Some q \<and> 0 \<le> prHotSize q \<and> 0 \<le> prWarmSize q \<and> prHotSize q + prWarmSize q \<le> cap \<and>
       prHotSize q = min cap (max 0 hot) \<and> (0 \<le> hot \<and> 0 \<le> warm \<and> hot + warm \<le> cap \<longrightarrow> prWarmSize q = warm)) \<and>
    (\<forall>p. p \<noteq> name \<longrightarrow> map_option (\<lambda>q. (prHotSize q, prWarmSize q)) (mProfiles m' p) =
       map_option (\<lambda>q. (prHotSize q, prWarmSize q)) (mProfiles m p))"
proof -
  obtain h w where hw: "clamp_sizes cap hot warm = (h, w)" by force
  then have c: "0 \<le> h" "0 \<le> w" "h + w \<le> cap" "h = min cap (max 0 hot)" "0 \<le> hot \<and> 0 \<le> warm \<and> hot + warm \<le> cap \<longrightarrow> w = warm"
    using assms(3) by (auto simp: clamp_sizes_def Let_def split: if_splits)
  let ?m = "m\<lparr>mProfiles := (mProfiles m)(name \<mapsto> ps\<lparr>prHotSize := h, prWarmSize := w\<rparr>)\<rparr>"
  have t: "to_int32 h = h" "to_int32 w = w" using c assms(4) by (simp_all add: to_int32_id)
  have m': "err = None" "m' = SignalRefill ?m \<or> m' = ?m"
    using assms(1,2,5) hw t by (auto simp: SetTargetSizes_def Let_def split: if_splits)
  have s: "map_option (\<lambda>q. (prHotSize q, prWarmSize q)) (mProfiles m' p) =
      map_option (\<lambda>q. (prHotSize q, prWarmSize q)) (mProfiles ?m p)" for p
    using m'(2) SignalRefill_profile [of "\<lambda>q. (prHotSize q, prWarmSize q)" ?m p] by auto
  from s [of name] have "\<exists>q. mProfiles m' name = Some q \<and> prHotSize q = h \<and> prWarmSize q = w" by auto
  with c s m'(1) show ?thesis by auto
qed

theorem target_sizes_clamped_witness:
  "fst (SetTargetSizes ex_two ''gpu'' 3 9) = None \<and>
   map_option (\<lambda>q. prHotSize q + prWarmSize q \<le> 4) (mProfiles (snd (SetTargetSizes ex_two ''gpu'' 3 9)) ''gpu'') = Some True"
proof -
  have "map_option (\<lambda>q. psMaxConcurrentRunners (prSettings q)) (mProfiles ex_two ''gpu'') = Some 4" by code_simp
  then obtain ps where ps: "mProfiles ex_two ''gpu'' = Some ps" "psMaxConcurrentRunners (prSettings ps) = 4" by auto
  obtain err m' where r: "SetTargetSizes ex_two ''gpu'' 3 9 = (err, m')" by force
  from target_sizes_clamped [OF ps _ _ r] r show ?thesis by auto
qed

end
