(* ===== verification/Capacity.thy ===== *)
theory Capacity
  imports Manager NodeSelector "HOL-Library.Char_ord" "HOL-Library.List_Lexorder" "HOL-Library.Product_Lexorder"
begin

text \<open>
  The pool's half of resource-aware admission (\<^verbatim>\<open>internal/pool/capacity.go\<close>): where a clone
  goes and the capacity it claims there, the claims parked by an eviction, and the eviction of idle
  VMs for queued demand.

  The accountant is the component \<open>NodeCap\<close>, part of the manager's state; its answers depend on
  the environment \<open>env\<close> of the call. The node selector is the argument \<open>sel\<close>: the answers
  that the configured selector gives to the hints of this call. A reservation handle is the id of the
  accountant's entry; releasing an absent id changes nothing, so \<^verbatim>\<open>sync.OnceFunc\<close> needs no
  counterpart.
\<close>

type_synonym chooser = "Hint \<Rightarrow> selector_error + string"

definition parkedReservationTTL :: duration where
  "parkedReservationTTL = 90 * second"

definition shapeOf :: "ProfileSettings \<Rightarrow> Shape" where
  "shapeOf s = \<lparr>MemoryBytes = u64 (u64 (max (psMemoryMB s) 0) * 1024 * 1024), VCPUs = psCPUCores s\<rparr>"

abbreviation on_acct :: "(Accountant \<Rightarrow> Accountant) \<Rightarrow> manager \<Rightarrow> manager" where
  "on_acct f m \<equiv> m\<lparr>mAcct := map_option f (mAcct m)\<rparr>"

abbreviation on_profile :: "string \<Rightarrow> (profile_state \<Rightarrow> profile_state) \<Rightarrow> manager \<Rightarrow> manager" where
  "on_profile name f m \<equiv> m\<lparr>mProfiles := (mProfiles m)(name := map_option f (mProfiles m name))\<rparr>"

section \<open>Claims\<close>

text \<open>A \<^verbatim>\<open>capacityClaim\<close> is the id of its reservation, \<open>None\<close> when admission is disabled.\<close>

type_synonym capacityClaim = "int option"

definition claim_release :: "manager \<Rightarrow> capacityClaim \<Rightarrow> manager" where
  "claim_release m claim = (case claim of None \<Rightarrow> m | Some rid \<Rightarrow> on_acct (\<lambda>a. Release a rid) m)"

definition claim_bind :: "manager \<Rightarrow> capacityClaim \<Rightarrow> int \<Rightarrow> manager" where
  "claim_bind m claim vmid = (case claim of None \<Rightarrow> m | Some rid \<Rightarrow> on_acct (\<lambda>a. Bind a rid vmid) m)"

definition recordCapacityDeferral :: "manager \<Rightarrow> string \<Rightarrow> PoolKind \<Rightarrow> manager" where
  "recordCapacityDeferral m name kind =
     (if kind = PoolKindHot then on_profile name (\<lambda>ps. ps\<lparr>prDeferredHot := True\<rparr>) m else m)"

definition drainEvicted :: "manager \<Rightarrow> time \<Rightarrow> string \<Rightarrow> parkedReservation list \<times> manager" where
  "drainEvicted m now name =
     (case mProfiles m name of
        None \<Rightarrow> ([], m)
      | Some ps \<Rightarrow>
          (let stale = filter (\<lambda>p. now > parkExpires p) (prEvicted ps);
               live = filter (\<lambda>p. \<not> now > parkExpires p) (prEvicted ps) in
           (live, foldl (\<lambda>s p. claim_release s (Some (parkRes p)))
                    (on_profile name (\<lambda>q. q\<lparr>prEvicted := []\<rparr>) m) stale)))"

definition parkAll :: "manager \<Rightarrow> string \<Rightarrow> parkedReservation list \<Rightarrow> manager" where
  "parkAll m name rs = on_profile name (\<lambda>ps. ps\<lparr>prEvicted := prEvicted ps @ rs\<rparr>) m"

definition parkEvicted :: "manager \<Rightarrow> time \<Rightarrow> string \<Rightarrow> string \<Rightarrow> int \<Rightarrow> manager" where
  "parkEvicted m now name node rid =
     on_profile name (\<lambda>ps. ps\<lparr>prEvicted := prEvicted ps @
       [\<lparr>parkNode = node, parkRes = rid, parkExpires = now + parkedReservationTTL\<rparr>]\<rparr>) m"

text \<open>Ranging over the profile map, in the order \<open>names\<close>.\<close>

definition release_profile :: "manager \<Rightarrow> string \<Rightarrow> manager" where
  "release_profile m name =
     (case mProfiles m name of
        None \<Rightarrow> m
      | Some ps \<Rightarrow> on_profile name (\<lambda>q. q\<lparr>prEvicted := []\<rparr>)
                    (foldl (\<lambda>s p. claim_release s (Some (parkRes p))) m (prEvicted ps)))"

definition releaseParkedReservations :: "manager \<Rightarrow> string list \<Rightarrow> manager" where
  "releaseParkedReservations m names = foldl release_profile m names"

section \<open>Placement and admission\<close>

definition existing_vms :: "(VM list \<Rightarrow> VM list) \<Rightarrow> manager \<Rightarrow> ExistingVM list" where
  "existing_vms ord m =
     map (\<lambda>(n, p). \<lparr>existingNode = n, existingProfile = p\<rparr>) (snapshotExistingVMsForAffinity ord m)"

definition no_shape :: Shape where
  "no_shape = \<lparr>MemoryBytes = 0, VCPUs = 0\<rparr>"

text \<open>The pair (eligible, known).\<close>

definition nodeEligible :: "chooser \<Rightarrow> manager \<Rightarrow> string \<Rightarrow> string \<Rightarrow> ExistingVM list \<Rightarrow> bool \<times> bool" where
  "nodeEligible sel m name node existing =
     (if LinkedClones (mCfg m) then (node = TemplateNode (mCfg m), True)
      else if length (ConfigNodes (mCfg m)) = 0 then (False, False)
      else case sel \<lparr>Avoid = filter (\<lambda>n. n \<noteq> node) (ConfigNodes (mCfg m)), hintProfile = name,
                     ExistingVMs = existing, hintShape = no_shape\<rparr> of
             Inl ErrAffinityRequireUnsatisfiable \<Rightarrow> (False, True)
           | Inl _ \<Rightarrow> (False, False)
           | Inr got \<Rightarrow> (got = node, True))"

text \<open>The scan of \<^verbatim>\<open>claimParked\<close>: the chosen claim, the kept ones, and the releases made on the way.\<close>

fun scan_parked ::
  "(string \<Rightarrow> bool \<times> bool) \<Rightarrow> parkedReservation list \<Rightarrow> parkedReservation option \<times> parkedReservation list \<times> manager \<Rightarrow>
   parkedReservation option \<times> parkedReservation list \<times> manager" where
  "scan_parked elig [] acc = acc"
| "scan_parked elig (p # ps) (chosen, keep, m) =
     scan_parked elig ps
       (if chosen \<noteq> None then (chosen, keep @ [p], m)
        else case elig (parkNode p) of
               (True, _) \<Rightarrow> (Some p, keep, m)
             | (False, True) \<Rightarrow> (None, keep, claim_release m (Some (parkRes p)))
             | (False, False) \<Rightarrow> (None, keep @ [p], m))"

definition claimParked ::
  "(VM list \<Rightarrow> VM list) \<Rightarrow> chooser \<Rightarrow> manager \<Rightarrow> time \<Rightarrow> string \<Rightarrow> (string \<times> capacityClaim) option \<times> manager" where
  "claimParked ord sel m now name =
     (let (parked, m1) = drainEvicted m now name in
      if length parked = 0 then (None, m1)
      else
        (let existing = existing_vms ord m1;
             (chosen, keep, m2) = scan_parked (\<lambda>n. nodeEligible sel m1 name n existing) parked (None, [], m1);
             m3 = parkAll m2 name keep in
         (map_option (\<lambda>p. (parkNode p, Some (parkRes p))) chosen, m3)))"

definition selectNode ::
  "(VM list \<Rightarrow> VM list) \<Rightarrow> chooser \<Rightarrow> manager \<Rightarrow> string \<Rightarrow> ProfileSettings \<Rightarrow> PoolKind \<Rightarrow> string option \<times> manager" where
  "selectNode ord sel m name settings kind =
     (case sel \<lparr>Avoid = [], hintProfile = name, ExistingVMs = existing_vms ord m, hintShape = shapeOf settings\<rparr> of
        Inl ErrNoCapacity \<Rightarrow> (None, recordCapacityDeferral m name kind)
      | Inl _ \<Rightarrow> (None, m)
      | Inr node \<Rightarrow> (Some (if LinkedClones (mCfg m) then TemplateNode (mCfg m) else node), m))"

definition reserveCapacity ::
  "manager \<Rightarrow> env \<Rightarrow> string \<Rightarrow> ProfileSettings \<Rightarrow> string \<Rightarrow> PoolKind \<Rightarrow> capacityClaim option \<times> manager" where
  "reserveCapacity m e name settings node kind =
     (case mAcct m of
        None \<Rightarrow> (Some None, m)
      | Some a \<Rightarrow>
          (case Reserve a e node (shapeOf settings) of
             (Inl _, a') \<Rightarrow> (None, recordCapacityDeferral (m\<lparr>mAcct := Some a'\<rparr>) name kind)
           | (Inr None, a') \<Rightarrow> (None, recordCapacityDeferral (m\<lparr>mAcct := Some a'\<rparr>) name kind)
           | (Inr (Some r), a') \<Rightarrow> (Some (Some (resId r)), m\<lparr>mAcct := Some a'\<rparr>)))"

definition admitClone ::
  "(VM list \<Rightarrow> VM list) \<Rightarrow> chooser \<Rightarrow> env \<Rightarrow> manager \<Rightarrow> time \<Rightarrow> string \<Rightarrow> ProfileSettings \<Rightarrow> PoolKind \<Rightarrow>
   (string \<times> capacityClaim) option \<times> manager" where
  "admitClone ord sel e m now name settings kind =
     (let (parked, m1) = (if mAcct m \<noteq> None \<and> kind = PoolKindHot
                          then claimParked ord sel m now name else (None, m)) in
      case parked of
        Some r \<Rightarrow> (Some r, m1)
      | None \<Rightarrow>
          (case selectNode ord sel m1 name settings kind of
             (None, m2) \<Rightarrow> (None, m2)
           | (Some node, m2) \<Rightarrow>
               (case reserveCapacity m2 e name settings node kind of
                  (None, m3) \<Rightarrow> (None, m3)
                | (Some claim, m3) \<Rightarrow> (Some (node, claim), m3))))"


section \<open>Idle eviction\<close>

record evictionCandidate =
  ecRow :: VM
  ecMem :: int
  ecVCPUs :: int
  ecPreferred :: bool

record evictionPlan =
  victims :: "evictionCandidate list"
  memGap :: int
  vcpuGap :: int
  freedMem :: int
  freedVCPU :: int

definition fitsNode :: "NodeState \<Rightarrow> Shape \<Rightarrow> bool" where
  "fitsNode st sh =
     (if AvailableBytes st < MemoryBytes sh then False
      else \<not> CPUGated st \<or> AvailableVCPU st \<ge> VCPUs sh)"

definition empty_plan :: evictionPlan where
  "empty_plan = \<lparr>victims = [], memGap = 0, vcpuGap = 0, freedMem = 0, freedVCPU = 0\<rparr>"

definition evict_order :: "evictionCandidate list \<Rightarrow> evictionCandidate list" where
  "evict_order cs = sort_key (\<lambda>c. (\<not> ecPreferred c, CreatedAt (ecRow c))) cs"

fun plan_loop :: "evictionPlan \<Rightarrow> evictionCandidate list \<Rightarrow> evictionPlan" where
  "plan_loop plan [] = plan\<lparr>victims := [], freedMem := 0, freedVCPU := 0\<rparr>"
| "plan_loop plan (c # cs) =
     (let plan' = plan\<lparr>victims := victims plan @ [c], freedMem := u64 (freedMem plan + ecMem c),
                       freedVCPU := freedVCPU plan + ecVCPUs c\<rparr> in
      if freedMem plan' \<ge> memGap plan' \<and> freedVCPU plan' \<ge> vcpuGap plan' then plan'
      else plan_loop plan' cs)"

definition planEviction :: "evictionCandidate list \<Rightarrow> Shape \<Rightarrow> NodeState \<Rightarrow> evictionPlan" where
  "planEviction candidates sh st =
     (if fitsNode st sh then empty_plan
      else plan_loop
             (empty_plan\<lparr>memGap := (if MemoryBytes sh > AvailableBytes st then MemoryBytes sh - AvailableBytes st else 0),
                         vcpuGap := (if CPUGated st \<and> VCPUs sh > AvailableVCPU st then VCPUs sh - AvailableVCPU st else 0)\<rparr>)
             (evict_order candidates))"

text \<open>The commit loop of \<^verbatim>\<open>startEviction\<close>: it stops at the first lost transition.\<close>

fun commit_victims :: "time \<Rightarrow> evictionCandidate list \<Rightarrow> manager \<Rightarrow> evictionCandidate list \<times> manager" where
  "commit_victims now [] m = ([], m)"
| "commit_victims now (v # vs) m =
     (case UpdateState (mTable m) now (VMID (ecRow v)) (if ecPreferred v then StateWarm else StateHot) StateDraining
             (\<lambda>row. row\<lparr>StateSince := now\<rparr>) of
        Inr (Some T') \<Rightarrow> (case commit_victims now vs (m\<lparr>mTable := T'\<rparr>) of (committed, m') \<Rightarrow> (v # committed, m'))
      | _ \<Rightarrow> ([], m))"

definition startEviction ::
  "env \<Rightarrow> manager \<Rightarrow> time \<Rightarrow> string \<Rightarrow> string \<Rightarrow> Shape \<Rightarrow> evictionPlan \<Rightarrow> bool \<times> manager" where
  "startEviction e m now name node sh plan =
     (let (committed, m1) = commit_victims now (victims plan) m in
      if length committed = 0 then (False, m1)
      else
        (let m2 = (case mAcct m1 of
                     None \<Rightarrow> m1
                   | Some a \<Rightarrow>
                       (case ReserveFreeing a e node sh (map (\<lambda>v. VMID (ecRow v)) committed) of
                          (Inr (Some r), a') \<Rightarrow> parkEvicted (m1\<lparr>mAcct := Some a'\<rparr>) now name node (resId r)
                        | (_, a') \<Rightarrow> m1\<lparr>mAcct := Some a'\<rparr>)) in
         (True, foldl (\<lambda>s v. destroyAsync s (VMID (ecRow v)) (Node (ecRow v)) (Profile (ecRow v))) m2 committed)))"

definition idle_candidate :: "manager \<Rightarrow> VM \<Rightarrow> evictionCandidate option" where
  "idle_candidate m r =
     (case mProfiles m (Profile r) of
        None \<Rightarrow> None
      | Some ps \<Rightarrow>
          if psMemoryMB (prSettings ps) \<le> 0 then None
          else Some \<lparr>ecRow = r, ecMem = MemoryBytes (shapeOf (prSettings ps)),
                     ecVCPUs = VCPUs (shapeOf (prSettings ps)), ecPreferred = (StateOf r = StateWarm)\<rparr>)"

definition idleCandidatesByNode :: "(VM list \<Rightarrow> VM list) \<Rightarrow> manager \<Rightarrow> string \<Rightarrow> evictionCandidate list" where
  "idleCandidatesByNode ord m node =
     List.map_filter (idle_candidate m) (filter (\<lambda>r. Node r = node) (ListByState ord (mTable m) [StateHot, StateWarm]))"

text \<open>\<open>keys\<close> are the nodes of the snapshot in the order Go ranges over the map.\<close>

definition eligibleNodes :: "(VM list \<Rightarrow> VM list) \<Rightarrow> chooser \<Rightarrow> manager \<Rightarrow> string \<Rightarrow> string list \<Rightarrow> string list" where
  "eligibleNodes ord sel m name keys =
     (let existing = existing_vms ord m in
      filter (\<lambda>node. case nodeEligible sel m name node existing of (eligible, known) \<Rightarrow> known \<and> eligible) (sort keys))"

fun evict_scan ::
  "env \<Rightarrow> time \<Rightarrow> string \<Rightarrow> Shape \<Rightarrow> (string \<Rightarrow> evictionCandidate list) \<Rightarrow> (string \<Rightarrow> NodeState) \<Rightarrow>
   string list \<Rightarrow> manager \<Rightarrow> bool \<times> manager" where
  "evict_scan e now name sh byNode states [] m = (False, m)"
| "evict_scan e now name sh byNode states (node # nodes) m =
     (let plan = planEviction (byNode node) sh (states node) in
      if length (victims plan) = 0 then evict_scan e now name sh byNode states nodes m
      else case startEviction e m now name node sh plan of
             (True, m') \<Rightarrow> (True, m')
           | (False, m') \<Rightarrow> evict_scan e now name sh byNode states nodes m')"

definition zero_state :: NodeState where
  "zero_state = \<lparr>TotalBytes = 0, ReserveBytesOf = 0, CommittedBytes = 0, AvailableBytes = 0, CPUGated = False,
     LimitVCPU = 0, CommittedVCPU = 0, AvailableVCPU = 0\<rparr>"

definition evictForDemand ::
  "(VM list \<Rightarrow> VM list) \<Rightarrow> chooser \<Rightarrow> env \<times> env \<Rightarrow> string list \<Rightarrow> manager \<Rightarrow> time \<Rightarrow> string \<Rightarrow> ProfileSettings \<Rightarrow>
   bool \<times> manager" where
  "evictForDemand ord sel es keys m now name settings =
     (case mAcct m of
        None \<Rightarrow> (False, m)
      | Some a \<Rightarrow>
          if \<not> EvictIdleForDemand (mCfg m) then (False, m)
          else case Snapshot a (fst es) of
                 (Inl _, a') \<Rightarrow> (False, m\<lparr>mAcct := Some a'\<rparr>)
               | (Inr st, a') \<Rightarrow>
                   (let m1 = m\<lparr>mAcct := Some a'\<rparr>;
                        states = (\<lambda>n. case st n of None \<Rightarrow> zero_state | Some s \<Rightarrow> s);
                        sh = shapeOf settings;
                        eligible = eligibleNodes ord sel m1 name keys in
                    if length eligible = 0 then (False, m1)
                    else if list_ex (\<lambda>node. fitsNode (states node) sh) eligible then (False, m1)
                    else evict_scan (snd es) now name sh (idleCandidatesByNode ord m1) states eligible m1))"


section \<open>Properties of admission and eviction\<close>

definition mem_of :: "evictionCandidate list \<Rightarrow> int" where
  "mem_of cs = sum_list (map ecMem cs)"

definition vcpus_of :: "evictionCandidate list \<Rightarrow> int" where
  "vcpus_of cs = sum_list (map ecVCPUs cs)"

text \<open>Destroying the candidates makes room for the shape, in memory and, when gated, in vCPUs.\<close>

definition closes_gap :: "NodeState \<Rightarrow> Shape \<Rightarrow> evictionCandidate list \<Rightarrow> bool" where
  "closes_gap st sh cs \<longleftrightarrow> MemoryBytes sh \<le> AvailableBytes st + mem_of cs \<and>
     (CPUGated st \<longrightarrow> VCPUs sh \<le> AvailableVCPU st + vcpus_of cs)"

definition sane :: "evictionCandidate \<Rightarrow> bool" where
  "sane c \<longleftrightarrow> 0 \<le> ecMem c \<and> 0 \<le> ecVCPUs c"

lemma mem_of_simps [simp]: "mem_of [] = 0" "mem_of (c # cs) = ecMem c + mem_of cs"
  "vcpus_of [] = 0" "vcpus_of (c # cs) = ecVCPUs c + vcpus_of cs"
  by (simp_all add: mem_of_def vcpus_of_def)

lemma sane_nonneg: "list_all sane cs \<Longrightarrow> 0 \<le> mem_of cs \<and> 0 \<le> vcpus_of cs"
  by (induction cs) (auto simp: sane_def)

lemma plan_loop_spec:
  fixes plan cs
  defines "ok \<equiv> \<lambda>j. memGap plan \<le> freedMem plan + mem_of (take j cs) \<and> vcpuGap plan \<le> freedVCPU plan + vcpus_of (take j cs)"
  assumes "list_all sane cs" and "0 \<le> freedMem plan" and "freedMem plan + mem_of cs < 18446744073709551616"
  shows "(\<exists>k. 0 < k \<and> k \<le> length cs \<and> victims (plan_loop plan cs) = victims plan @ take k cs \<and> ok k \<and>
      (\<forall>j. 0 < j \<and> j < k \<longrightarrow> \<not> ok j)) \<or>
    (victims (plan_loop plan cs) = [] \<and> (\<forall>j. 0 < j \<and> j \<le> length cs \<longrightarrow> \<not> ok j))"
  using assms(2-4) unfolding ok_def
proof (induction cs arbitrary: plan)
  case (Cons c cs)
  let ?plan = "plan\<lparr>victims := victims plan @ [c], freedMem := u64 (freedMem plan + ecMem c), freedVCPU := freedVCPU plan + ecVCPUs c\<rparr>"
  have n: "0 \<le> ecMem c" "0 \<le> mem_of cs" using Cons.prems(1) sane_nonneg [of cs] by (auto simp: sane_def [of c])
  have u: "u64 (freedMem plan + ecMem c) = freedMem plan + ecMem c" using n Cons.prems by (simp add: u64_def)
  show ?case
  proof (cases "memGap plan \<le> freedMem plan + ecMem c \<and> vcpuGap plan \<le> freedVCPU plan + ecVCPUs c")
    case True
    then have "victims (plan_loop plan (c # cs)) = victims plan @ [c]" by (simp add: u Let_def)
    with True show ?thesis by (intro disjI1 exI [of _ 1]) auto
  next
    case False
    then have e: "plan_loop plan (c # cs) = plan_loop ?plan cs" by (auto simp: u Let_def)
    have "list_all sane cs" "0 \<le> freedMem ?plan" "freedMem ?plan + mem_of cs < 18446744073709551616"
      using Cons.prems n u by simp_all
    from Cons.IH [OF this] show ?thesis
    proof (elim disjE exE conjE)
      fix k
      assume k: "0 < k" "k \<le> length cs" "victims (plan_loop ?plan cs) = victims ?plan @ take k cs"
        "memGap ?plan \<le> freedMem ?plan + mem_of (take k cs)" "vcpuGap ?plan \<le> freedVCPU ?plan + vcpus_of (take k cs)"
        "\<forall>j. 0 < j \<and> j < k \<longrightarrow> \<not> (memGap ?plan \<le> freedMem ?plan + mem_of (take j cs) \<and>
           vcpuGap ?plan \<le> freedVCPU ?plan + vcpus_of (take j cs))"
      show ?thesis unfolding e
      proof (intro disjI1 exI [of _ "Suc k"] conjI allI impI)
        fix j assume j: "0 < j \<and> j < Suc k"
        show "\<not> (memGap plan \<le> freedMem plan + mem_of (take j (c # cs)) \<and> vcpuGap plan \<le> freedVCPU plan + vcpus_of (take j (c # cs)))"
        proof (cases "j - 1")
          case 0
          with j False show ?thesis by (cases j) auto
        next
          case (Suc i)
          with j k(6) [rule_format, of "Suc i"] u show ?thesis by (cases j) (auto simp: algebra_simps)
        qed
      qed (use k u in \<open>auto simp: algebra_simps\<close>)
    next
      assume n: "victims (plan_loop ?plan cs) = []"
        "\<forall>j. 0 < j \<and> j \<le> length cs \<longrightarrow> \<not> (memGap ?plan \<le> freedMem ?plan + mem_of (take j cs) \<and>
           vcpuGap ?plan \<le> freedVCPU ?plan + vcpus_of (take j cs))"
      show ?thesis unfolding e
      proof (intro disjI2 conjI allI impI)
        fix j assume j: "0 < j \<and> j \<le> length (c # cs)"
        show "\<not> (memGap plan \<le> freedMem plan + mem_of (take j (c # cs)) \<and> vcpuGap plan \<le> freedVCPU plan + vcpus_of (take j (c # cs)))"
        proof (cases "j - 1")
          case 0
          with j False show ?thesis by (cases j) auto
        next
          case (Suc i)
          with j n(2) [rule_format, of "Suc i"] u show ?thesis by (cases j) (auto simp: algebra_simps)
        qed
      qed (use n in simp)
    qed
  qed
qed auto

lemma mem_of_mset: "mset xs = mset ys \<Longrightarrow> mem_of xs = mem_of ys \<and> vcpus_of xs = vcpus_of ys"
  by (metis mem_of_def vcpus_of_def mset_map sum_mset_sum_list)

lemma evict_order_facts:
  "mset (evict_order cs) = mset cs" "length (evict_order cs) = length cs" "list_all sane (evict_order cs) = list_all sane cs"
  by (simp_all add: evict_order_def list_all_iff)

text \<open>
  C40. An eviction plan destroys idle VMs only when the clone does not fit, and then the shortest run of
  the preference order (warm before hot, oldest first) that makes room for it in every gated dimension:
  its victims close the gap, no shorter run does, and when even all idle VMs of the node together
  cannot close it nothing is destroyed.\<close>

theorem plan_eviction_shortest:
  assumes "list_all sane cs" and "mem_of cs < 18446744073709551616"
  shows "(fitsNode st sh \<longrightarrow> victims (planEviction cs sh st) = []) \<and>
    (\<not> fitsNode st sh \<longrightarrow>
      (if closes_gap st sh cs
       then \<exists>k. 0 < k \<and> k \<le> length cs \<and> victims (planEviction cs sh st) = take k (evict_order cs) \<and>
         closes_gap st sh (take k (evict_order cs)) \<and> (\<forall>j < k. \<not> closes_gap st sh (take j (evict_order cs)))
       else victims (planEviction cs sh st) = []))"
proof (cases "fitsNode st sh")
  case True
  then show ?thesis by (simp add: planEviction_def empty_plan_def)
next
  case False
  let ?o = "evict_order cs"
  let ?p = "empty_plan\<lparr>memGap := (if MemoryBytes sh > AvailableBytes st then MemoryBytes sh - AvailableBytes st else 0),
     vcpuGap := (if CPUGated st \<and> VCPUs sh > AvailableVCPU st then VCPUs sh - AvailableVCPU st else 0)\<rparr>"
  have all: "mem_of ?o = mem_of cs" "vcpus_of ?o = vcpus_of cs" using mem_of_mset [OF evict_order_facts(1)] by simp_all
  have nn: "0 \<le> mem_of (take j ?o) \<and> 0 \<le> vcpus_of (take j ?o)" for j
    using assms(1) sane_nonneg [of "take j ?o"] evict_order_facts(3) [of cs] by (auto simp: list_all_iff dest: in_set_takeD)
  have ok: "closes_gap st sh (take j ?o) \<longleftrightarrow> memGap ?p \<le> freedMem ?p + mem_of (take j ?o) \<and> vcpuGap ?p \<le> freedVCPU ?p + vcpus_of (take j ?o)" for j
    using nn [of j] by (auto simp: closes_gap_def empty_plan_def)
  have z: "\<not> closes_gap st sh (take 0 ?o)" using False by (auto simp: closes_gap_def fitsNode_def split: if_splits)
  have tot: "closes_gap st sh cs \<longleftrightarrow> closes_gap st sh (take (length ?o) ?o)" by (simp add: closes_gap_def all)
  have up: "closes_gap st sh cs" if "closes_gap st sh (take k ?o)" for k
  proof -
    have "mem_of ?o = mem_of (take k ?o) + mem_of (drop k ?o)" "vcpus_of ?o = vcpus_of (take k ?o) + vcpus_of (drop k ?o)"
      by (simp_all add: mem_of_def vcpus_of_def flip: sum_list_append map_append)
    moreover have "0 \<le> mem_of (drop k ?o) \<and> 0 \<le> vcpus_of (drop k ?o)"
      using assms(1) sane_nonneg [of "drop k ?o"] evict_order_facts(3) [of cs] by (auto simp: list_all_iff dest: in_set_dropD)
    ultimately show ?thesis using that unfolding closes_gap_def all by linarith
  qed
  have e: "planEviction cs sh st = plan_loop ?p ?o" using False by (simp add: planEviction_def)
  have v: "victims ?p = []" by (simp add: empty_plan_def)
  have "(\<exists>k. 0 < k \<and> k \<le> length ?o \<and> victims (plan_loop ?p ?o) = victims ?p @ take k ?o \<and> closes_gap st sh (take k ?o) \<and>
      (\<forall>j. 0 < j \<and> j < k \<longrightarrow> \<not> closes_gap st sh (take j ?o))) \<or>
    (victims (plan_loop ?p ?o) = [] \<and> (\<forall>j. 0 < j \<and> j \<le> length ?o \<longrightarrow> \<not> closes_gap st sh (take j ?o)))"
    unfolding ok by (rule plan_loop_spec) (use assms evict_order_facts(3) all in \<open>simp_all add: empty_plan_def\<close>)
  then show ?thesis
  proof (elim disjE exE conjE)
    fix k
    assume k: "0 < k" "k \<le> length ?o" "victims (plan_loop ?p ?o) = victims ?p @ take k ?o" "closes_gap st sh (take k ?o)"
      "\<forall>j. 0 < j \<and> j < k \<longrightarrow> \<not> closes_gap st sh (take j ?o)"
    have "\<forall>j < k. \<not> closes_gap st sh (take j ?o)" using k(5) z by (metis neq0_conv)
    with k(1-4) up [OF k(4)] False show ?thesis unfolding e v evict_order_facts(2) by auto
  next
    assume n: "victims (plan_loop ?p ?o) = []" "\<forall>j. 0 < j \<and> j \<le> length ?o \<longrightarrow> \<not> closes_gap st sh (take j ?o)"
    have "\<not> closes_gap st sh cs" unfolding tot using n(2) z by (metis neq0_conv order_refl)
    with n(1) False show ?thesis unfolding e by simp
  qed
qed


definition ex_cand :: "int \<Rightarrow> State \<Rightarrow> int \<Rightarrow> evictionCandidate" where
  "ex_cand i st gb = \<lparr>ecRow = ex_vm i st, ecMem = gb, ecVCPUs = 2, ecPreferred = (st = StateWarm)\<rparr>"

definition ex_full :: NodeState where
  "ex_full = zero_state\<lparr>TotalBytes := 64, CommittedBytes := 62, AvailableBytes := 2\<rparr>"

theorem plan_eviction_shortest_witness:
  "\<exists>k. 0 < k \<and> victims (planEviction [ex_cand 100 StateHot 8, ex_cand 101 StateWarm 4, ex_cand 102 StateWarm 4] \<lparr>MemoryBytes = 9, VCPUs = 2\<rparr> ex_full) =
     take k (evict_order [ex_cand 100 StateHot 8, ex_cand 101 StateWarm 4, ex_cand 102 StateWarm 4])"
proof -
  let ?cs = "[ex_cand 100 StateHot 8, ex_cand 101 StateWarm 4, ex_cand 102 StateWarm 4]"
  have s: "list_all sane ?cs" "mem_of ?cs < 18446744073709551616" by code_simp+
  have "\<not> fitsNode ex_full \<lparr>MemoryBytes = 9, VCPUs = 2\<rparr>" "closes_gap ex_full \<lparr>MemoryBytes = 9, VCPUs = 2\<rparr> ?cs" by code_simp+
  with plan_eviction_shortest [OF s, of ex_full "\<lparr>MemoryBytes = 9, VCPUs = 2\<rparr>"] show ?thesis by auto
qed

lemma release_all_frame [simp]:
  fixes s :: manager
  shows "mCfg (foldl (\<lambda>s p. claim_release s (Some (parkRes p))) s rs) = mCfg s"
    "mTable (foldl (\<lambda>s p. claim_release s (Some (parkRes p))) s rs) = mTable s"
    "mProfiles (foldl (\<lambda>s p. claim_release s (Some (parkRes p))) s rs) = mProfiles s"
  by (induction rs arbitrary: s) (simp_all add: claim_release_def)

lemma drainEvicted_frame:
  fixes m :: manager
  assumes "drainEvicted m now name = (parked, m1)"
  shows "mCfg m1 = mCfg m" and "mTable m1 = mTable m"
    and "p \<in> set parked \<Longrightarrow> \<exists>ps. mProfiles m name = Some ps \<and> p \<in> set (prEvicted ps) \<and> \<not> now > parkExpires p"
  using assms by (auto simp: drainEvicted_def Let_def split: option.splits)

lemma scan_parked_chosen:
  assumes "scan_parked elig ps (chosen, keep, m) = (Some p, keep', m')"
  shows "chosen = Some p \<or> p \<in> set ps \<and> fst (elig (parkNode p))"
  using assms
  by (induction elig ps "(chosen, keep, m)" arbitrary: chosen keep m rule: scan_parked.induct)
    (fastforce split: if_splits prod.splits bool.splits)+

lemma claimParked_checked:
  fixes m :: manager
  assumes "claimParked ord sel m now name = (Some (node, claim), m1)"
  shows "\<exists>ps p. mProfiles m name = Some ps \<and> p \<in> set (prEvicted ps) \<and> \<not> now > parkExpires p \<and>
     node = parkNode p \<and> claim = Some (parkRes p) \<and> fst (nodeEligible sel m name node (existing_vms ord m))"
proof -
  obtain parked m0 where d: "drainEvicted m now name = (parked, m0)" by force
  obtain chosen keep m2 where s:
    "scan_parked (\<lambda>n. nodeEligible sel m0 name n (existing_vms ord m0)) parked (None, [], m0) = (chosen, keep, m2)"
    by (metis prod_cases3)
  from assms d s obtain p where p: "chosen = Some p" "node = parkNode p" "claim = Some (parkRes p)"
    by (auto simp: claimParked_def Let_def split: if_splits)
  have "p \<in> set parked \<and> fst (nodeEligible sel m0 name node (existing_vms ord m0))"
    using scan_parked_chosen [OF s [unfolded p(1)]] p(2) by simp
  moreover have "nodeEligible sel m0 name node (existing_vms ord m0) = nodeEligible sel m name node (existing_vms ord m)"
    using drainEvicted_frame(1,2) [OF d]
    by (simp add: nodeEligible_def existing_vms_def snapshotExistingVMsForAffinity_def)
  ultimately have "p \<in> set parked" "fst (nodeEligible sel m name node (existing_vms ord m))" by simp_all
  with drainEvicted_frame(3) [OF d, of p] p(2,3) show ?thesis by blast
qed

lemma warm_keeps_parked:
  fixes m :: manager
  assumes "admitClone ord sel e m now name settings PoolKindWarm = (r, m')"
  shows "mProfiles m' = mProfiles m"
  using assms
  by (auto simp: admitClone_def selectNode_def reserveCapacity_def recordCapacityDeferral_def Let_def
      split: sum.splits option.splits selector_error.splits prod.splits)

text \<open>
  A clone consumes a claim parked by an earlier eviction only if the clone is for the hot pool (a
  warm clone leaves every parked claim where it is), the claim is one of this profile's that has not
  expired, and its node is at that moment still a legal placement for the profile; the admission then
  names the claim's own node.\<close>

theorem parked_claim_checked:
  assumes "admitClone ord sel e m now name settings kind = (r, m')"
  shows "(kind = PoolKindWarm \<longrightarrow> mProfiles m' = mProfiles m) \<and>
    (kind = PoolKindHot \<and> mAcct m \<noteq> None \<and> claimParked ord sel m now name = (Some (node, claim), m1) \<longrightarrow>
      r = Some (node, claim) \<and>
      (\<exists>ps p. mProfiles m name = Some ps \<and> p \<in> set (prEvicted ps) \<and> \<not> now > parkExpires p \<and>
        node = parkNode p \<and> claim = Some (parkRes p) \<and> fst (nodeEligible sel m name node (existing_vms ord m))))"
proof (intro conjI impI)
  assume "kind = PoolKindWarm"
  with assms show "mProfiles m' = mProfiles m" by (simp add: warm_keeps_parked)
next
  assume h: "kind = PoolKindHot \<and> mAcct m \<noteq> None \<and> claimParked ord sel m now name = (Some (node, claim), m1)"
  with assms show "r = Some (node, claim)" by (simp add: admitClone_def)
  from h show "\<exists>ps p. mProfiles m name = Some ps \<and> p \<in> set (prEvicted ps) \<and> \<not> now > parkExpires p \<and>
      node = parkNode p \<and> claim = Some (parkRes p) \<and> fst (nodeEligible sel m name node (existing_vms ord m))"
    by (intro claimParked_checked [of ord sel m now name node claim m1]) simp
qed

definition ex_parked :: manager where
  "ex_parked = (case NewManager ex_cfg [] (Some ex_acct) None of
     Inr m \<Rightarrow> parkEvicted m 5 ''default'' ''pve1'' 3 | Inl _ \<Rightarrow> undefined)"

theorem parked_claim_checked_witness:
  "\<exists>ps p. mProfiles ex_parked ''default'' = Some ps \<and> p \<in> set (prEvicted ps) \<and> parkNode p = ''pve1'' \<and>
     fst (nodeEligible (\<lambda>h. Inr ''pve1'') ex_parked ''default'' ''pve1'' (existing_vms id ex_parked))"
proof -
  let ?sel = "\<lambda>h. Inr ''pve1'' :: selector_error + string"
  have c: "fst (claimParked id ?sel ex_parked 9 ''default'') = Some (''pve1'', Some 3)" by code_simp
  have n: "mAcct ex_parked \<noteq> None" by code_simp
  obtain r m' where a: "admitClone id ?sel (True, None, 9) ex_parked 9 ''default'' ex_gpu PoolKindHot = (r, m')" by force
  obtain m1 where "claimParked id ?sel ex_parked 9 ''default'' = (Some (''pve1'', Some 3), m1)" using c by (metis prod.collapse)
  with parked_claim_checked [OF a] n show ?thesis by metis
qed

end
