(* ===== verification/Decimal.thy ===== *)
theory Decimal
  imports Base
begin

text \<open>
  Decimal numbers as the code prints them (\<^verbatim>\<open>%d\<close>, \<^verbatim>\<open>strconv.Itoa\<close>) and reads them back
  (\<^verbatim>\<open>strconv.Atoi\<close>), with the round trip.
\<close>

text \<open>The decimal digits that \<^verbatim>\<open>%d\<close> prints.\<close>

fun digits :: "nat \<Rightarrow> string" where
  "digits n = (if n < 10 then [char_of (48 + n)] else digits (n div 10) @ [char_of (48 + n mod 10)])"

declare digits.simps [simp del]

definition itoa :: "int \<Rightarrow> string" where
  "itoa n = (if n < 0 then CHR ''-'' # digits (nat (- n)) else digits (nat n))"

text \<open>\<^verbatim>\<open>strconv.Atoi\<close>: an optional sign, at least one digit, nothing else, within 64 bits.\<close>

fun undigits :: "int \<Rightarrow> string \<Rightarrow> int option" where
  "undigits acc [] = Some acc"
| "undigits acc (c # cs) =
     (if 48 \<le> (of_char c :: nat) \<and> (of_char c :: nat) \<le> 57 then undigits (10 * acc + int (of_char c - 48)) cs else None)"

definition Atoi :: "string \<Rightarrow> int option" where
  "Atoi s =
     (let (neg, ds) = (case s of [] \<Rightarrow> (False, []) | c # cs \<Rightarrow>
            if c = CHR ''-'' then (True, cs) else if c = CHR ''+'' then (False, cs) else (False, s)) in
      if ds = [] then None
      else case undigits 0 ds of
             None \<Rightarrow> None
           | Some n \<Rightarrow> let v = (if neg then - n else n) in
               if - 9223372036854775808 \<le> v \<and> v \<le> 9223372036854775807 then Some v else None)"

lemma undigits_append:
  "undigits acc (xs @ ys) = (case undigits acc xs of None \<Rightarrow> None | Some a \<Rightarrow> undigits a ys)"
  by (induction xs arbitrary: acc) auto

lemma digit_char [simp]: "k < 10 \<Longrightarrow> (of_char (char_of (48 + k) :: char) :: nat) = 48 + k"
  by simp

lemma digits_step: "digits n = (if n < 10 then [] else digits (n div 10)) @ [char_of (48 + n mod 10)]"
  by (subst digits.simps) simp

lemma undigits_digits: "undigits 0 (digits n) = Some (int n)"
proof (induction n rule: less_induct)
  case (less n)
  have last: "undigits a [char_of (48 + n mod 10)] = Some (10 * a + int (n mod 10))" for a
    using digit_char [of "n mod 10"] by simp
  show ?case
  proof (cases "n < 10")
    case True
    then show ?thesis using last [of 0] by (subst digits_step) simp
  next
    case False
    then have "undigits 0 (digits (n div 10)) = Some (int (n div 10))" by (intro less) simp
    moreover have "10 * int (n div 10) + int (n mod 10) = int n" by (metis mult_div_mod_eq of_nat_add of_nat_mult of_nat_numeral)
    ultimately show ?thesis using False last [of "int (n div 10)"]
      by (subst digits_step) (simp add: undigits_append)
  qed
qed

lemma digits_digit: "c \<in> set (digits n) \<Longrightarrow> 48 \<le> (of_char c :: nat) \<and> (of_char c :: nat) \<le> 57"
proof (induction n rule: less_induct)
  case (less n)
  show ?case
  proof (cases "n < 10")
    case True
    with less.prems show ?thesis by (subst (asm) digits_step) auto
  next
    case False
    with less.prems have "c \<in> set (digits (n div 10)) \<or> c = char_of (48 + n mod 10)"
      by (subst (asm) digits_step) auto
    moreover have "n div 10 < n" using False by simp
    ultimately show ?thesis using less.IH digit_char [of "n mod 10"] by auto
  qed
qed

lemma digits_unsigned: "digits n \<noteq> [] \<and> hd (digits n) \<noteq> CHR ''-'' \<and> hd (digits n) \<noteq> CHR ''+''"
proof -
  have ne: "digits n \<noteq> []" by (subst digits_step) simp
  then have "hd (digits n) \<in> set (digits n)" by simp
  from digits_digit [OF this] ne show ?thesis by auto
qed

lemma Atoi_digits:
  "Atoi (digits n @ cs) = (case undigits (int n) cs of None \<Rightarrow> None
     | Some v \<Rightarrow> if - 9223372036854775808 \<le> v \<and> v \<le> 9223372036854775807 then Some v else None)"
proof -
  from digits_unsigned [of n] obtain d ds where d: "digits n = d # ds" "d \<noteq> CHR ''-''" "d \<noteq> CHR ''+''"
    by (cases "digits n") auto
  have "undigits 0 (digits n @ cs) = undigits (int n) cs" by (simp add: undigits_append undigits_digits)
  with d show ?thesis by (simp add: Atoi_def Let_def del: undigits.simps split: option.split)
qed

end
