(* ===== verification/Reconcile.thy ===== *)
theory Reconcile
  imports Capacity Decimal
begin

text \<open>
  The reconcile pass, the clone and boot workers, and the drain (\<^verbatim>\<open>internal/pool/manager.go\<close>).

  A loop that lists rows and then acts on each is written as the list read and a function of the
  listed rows, so that the loop can be applied to rows that have changed since they were listed. A
  worker that calls the provisioner is split at its calls; the replies are arguments, and so is the
  IPAM allocator's answer.
\<close>

section \<open>Inputs of the sizing math\<close>

definition provisioningCounts :: "(VM list \<Rightarrow> VM list) \<Rightarrow> manager \<Rightarrow> string \<Rightarrow> int \<times> int" where
  "provisioningCounts ord m profile =
     (let rows = filter (\<lambda>r. StateOf r = StateProvisioning) (ListByProfile ord (mTable m) profile) in
      (int (length (filter (\<lambda>r. PoolKindOf r = PoolKindHot) rows)),
       int (length (filter (\<lambda>r. PoolKindOf r = PoolKindWarm) rows))))"

fun credit_rows :: "time \<Rightarrow> duration \<Rightarrow> VM list \<Rightarrow> returningCredit \<Rightarrow> returningCredit" where
  "credit_rows now maxAge [] credit = credit"
| "credit_rows now maxAge (r # rs) credit =
     (if \<not> HasRecycleSnapshot r then credit_rows now maxAge rs credit
      else if maxAge > 0 \<and> CreatedAt r < now - maxAge then credit_rows now maxAge rs credit
      else if StateOf r = StateRecycling
      then credit_rows now maxAge rs (credit\<lparr>creditRecycling := creditRecycling credit + 1\<rparr>)
      else credit_rows now maxAge rs (credit\<lparr>creditBusy := creditBusy credit + 1\<rparr>))"

definition no_credit :: returningCredit where
  "no_credit = \<lparr>creditBusy = 0, creditRecycling = 0\<rparr>"

definition profileReturningCredit ::
  "(VM list \<Rightarrow> VM list) \<Rightarrow> manager \<Rightarrow> time \<Rightarrow> string \<Rightarrow> duration \<Rightarrow> returningCredit" where
  "profileReturningCredit ord m now profile maxAge =
     (if \<not> snapshotRecycle m then no_credit
      else credit_rows now maxAge
             (ListByProfileAndStates ord (mTable m) profile [StateAssigned, StateRunning, StateRecycling]) no_credit)"

section \<open>Shrinking and ageing\<close>

text \<open>
  \<open>sort_oldest\<close> is \<^verbatim>\<open>sort.Slice\<close> by creation time, whose order of equal elements is not
  specified: the loops below take the sorted rows and their properties hold for every order.
\<close>

definition sort_oldest :: "VM list \<Rightarrow> VM list" where
  "sort_oldest rows = sort_key CreatedAt rows"

text \<open>The loop of \<^verbatim>\<open>shrinkHotPool\<close> and \<^verbatim>\<open>shrinkWarmPool\<close>; \<open>n\<close> is how many are still to be destroyed.\<close>

fun shrink_rows :: "State \<Rightarrow> string \<Rightarrow> time \<Rightarrow> int \<Rightarrow> VM list \<Rightarrow> manager \<Rightarrow> manager" where
  "shrink_rows st profile now n [] m = m"
| "shrink_rows st profile now n (row # rows) m =
     (if n \<le> 0 then m
      else case UpdateState (mTable m) now (VMID row) st StateDraining (\<lambda>v. v\<lparr>StateSince := now\<rparr>) of
             Inr (Some T') \<Rightarrow>
               shrink_rows st profile now (n - 1) rows
                 (destroyAsync (m\<lparr>mTable := T'\<rparr>) (VMID row) (Node row) profile)
           | _ \<Rightarrow> shrink_rows st profile now n rows m)"

definition shrinkHotPool ::
  "(VM list \<Rightarrow> VM list) \<Rightarrow> manager \<Rightarrow> time \<Rightarrow> string \<Rightarrow> int \<Rightarrow> int \<Rightarrow> int \<Rightarrow> manager" where
  "shrinkHotPool ord m now profile hotSize desired busyN =
     (let hotTarget = (if desired - busyN > hotSize then desired - busyN else hotSize);
          freshHot = Hot (statsForProfile ord m profile) in
      if freshHot \<le> hotTarget then m
      else shrink_rows StateHot profile now (freshHot - hotTarget)
             (sort_oldest (ListByProfileAndStates ord (mTable m) profile [StateHot])) m)"

definition shrinkWarmPool :: "(VM list \<Rightarrow> VM list) \<Rightarrow> manager \<Rightarrow> time \<Rightarrow> string \<Rightarrow> int \<Rightarrow> manager" where
  "shrinkWarmPool ord m now profile warmSize =
     (let freshWarm = Warm (statsForProfile ord m profile) in
      if freshWarm \<le> warmSize then m
      else shrink_rows StateWarm profile now (freshWarm - warmSize)
             (sort_oldest (ListByProfileAndStates ord (mTable m) profile [StateWarm])) m)"

definition recycle_row :: "string \<Rightarrow> time \<Rightarrow> duration \<Rightarrow> manager \<Rightarrow> VM \<Rightarrow> manager" where
  "recycle_row profile now maxAge m o' =
     (if \<not> CreatedAt o' < now - maxAge then m
      else case UpdateState (mTable m) now (VMID o') (StateOf o') StateDraining id of
             Inr (Some T') \<Rightarrow> destroyAsync (m\<lparr>mTable := T'\<rparr>) (VMID o') (Node o') profile
           | _ \<Rightarrow> m)"

definition recycleOldVMs :: "(VM list \<Rightarrow> VM list) \<Rightarrow> manager \<Rightarrow> time \<Rightarrow> string \<Rightarrow> duration \<Rightarrow> manager" where
  "recycleOldVMs ord m now profile maxAge =
     (if maxAge \<le> 0 then m
      else foldl (recycle_row profile now maxAge) m
             (ListByProfileAndStates ord (mTable m) profile [StateHot, StateWarm]))"

definition stuckGrace :: duration where
  "stuckGrace = 5 * minute"

definition sweep_row :: "time \<Rightarrow> manager \<Rightarrow> VM \<Rightarrow> manager" where
  "sweep_row now m s =
     (if \<not> UpdatedAt s < now - stuckGrace then m
      else case Update (mTable m) now (VMID s) (\<lambda>v. v\<lparr>StateOf := StateDraining, StateSince := now\<rparr>) of
             Inr (_, T') \<Rightarrow> destroyAsync (m\<lparr>mTable := T'\<rparr>) (VMID s) (Node s) (Profile s)
           | Inl _ \<Rightarrow> m)"

definition sweepStuckRows :: "(VM list \<Rightarrow> VM list) \<Rightarrow> manager \<Rightarrow> time \<Rightarrow> manager" where
  "sweepStuckRows ord m now =
     foldl (sweep_row now) m
       (ListByState ord (mTable m)
          [StateProvisioning, StateBooting, StateRecycling, StateDraining, StateDestroying])"

section \<open>Promotion and clone dispatch\<close>

definition promote_row :: "time \<Rightarrow> manager \<Rightarrow> VM \<Rightarrow> manager" where
  "promote_row now m w =
     (if mBootFree m \<le> 0 then m
      else case UpdateState (mTable m) now (VMID w) StateWarm StateBooting (\<lambda>v. v\<lparr>PoolKindOf := PoolKindHot\<rparr>) of
             Inr (Some T') \<Rightarrow> m\<lparr>mTable := T', mBootFree := mBootFree m - 1, mTasks := mTasks m @ [TBoot w]\<rparr>
           | _ \<Rightarrow> m)"

definition promoteN :: "(VM list \<Rightarrow> VM list) \<Rightarrow> manager \<Rightarrow> time \<Rightarrow> string \<Rightarrow> int \<Rightarrow> manager" where
  "promoteN ord m now profile n =
     (let warms = sort_oldest (if profile = '''' then ListByState ord (mTable m) [StateWarm]
                               else ListByProfileAndStates ord (mTable m) profile [StateWarm]) in
      foldl (promote_row now) m (if n < int (length warms) then take (nat n) warms else warms))"

text \<open>
  \<^verbatim>\<open>kickClone\<close>; \<open>slot\<close> is whether \<^verbatim>\<open>cloneSem.Acquire\<close> got a slot before the pass was
  cancelled (it blocks until one is free).
\<close>

definition add_pending :: "manager \<Rightarrow> string \<Rightarrow> int \<Rightarrow> manager" where
  "add_pending m profile d =
     (let key = (if profile = '''' then defaultProfile m else profile) in
      case mProfiles m key of
        None \<Rightarrow> m
      | Some ps \<Rightarrow> m\<lparr>mProfiles := (mProfiles m)(key \<mapsto> ps\<lparr>prPendingClones := to_int32 (prPendingClones ps + d)\<rparr>)\<rparr>)"

definition kickClone :: "bool \<Rightarrow> string \<Rightarrow> PoolKind \<Rightarrow> bool \<Rightarrow> manager \<Rightarrow> manager" where
  "kickClone slot profile kind poweredOn m =
     (if \<not> slot then m
      else (add_pending m profile 1)\<lparr>mTasks := mTasks m @ [TClone profile kind poweredOn]\<rparr>)"


section \<open>Boot\<close>

text \<open>
  \<^verbatim>\<open>canary.Template(s)\<close> is a conversion of the string; the controller only compares it with
  the candidate class.
\<close>

fun template_string :: "Template \<Rightarrow> string" where
  "template_string Stable = ''stable''"
| "template_string Candidate = ''candidate''"

definition template_of :: "string \<Rightarrow> Template" where
  "template_of s = (if s = ''candidate'' then Candidate else Stable)"

definition set_state :: "time \<Rightarrow> State \<Rightarrow> VM \<Rightarrow> VM" where
  "set_state now st v = v\<lparr>StateOf := st, StateSince := now\<rparr>"

text \<open>An update whose error is only logged.\<close>

definition try_update :: "manager \<Rightarrow> time \<Rightarrow> int \<Rightarrow> (VM \<Rightarrow> VM) \<Rightarrow> manager" where
  "try_update m now vmid f =
     (case Update (mTable m) now vmid f of Inl _ \<Rightarrow> m | Inr (_, T') \<Rightarrow> m\<lparr>mTable := T'\<rparr>)"

definition boot_threshold :: "manager \<Rightarrow> string \<Rightarrow> int" where
  "boot_threshold m profile =
     (case profileOf m profile of
        None \<Rightarrow> BootMaxAttempts (mCfg m)
      | Some ps \<Rightarrow> psBootMaxAttempts (prSettings ps))"

text \<open>\<open>fdiv\<close> is the floating-point division of the canary controller.\<close>

definition markPoisonOrDestroy :: "(int \<Rightarrow> int \<Rightarrow> rat) \<Rightarrow> manager \<Rightarrow> time \<Rightarrow> VM \<Rightarrow> manager" where
  "markPoisonOrDestroy fdiv m now row =
     (case Update (mTable m) now (VMID row) (\<lambda>v. v\<lparr>BootAttempts := BootAttempts v + 1\<rparr>) of
        Inl _ \<Rightarrow> m
      | Inr (updated, T') \<Rightarrow>
          (let m1 = m\<lparr>mTable := T'\<rparr>;
               m2 = (case mCanary m1 of
                       None \<Rightarrow> m1
                     | Some c \<Rightarrow>
                         if Template row \<noteq> '''' \<and> BootAttempts updated = 1
                         then m1\<lparr>mCanary := Some (snd (RecordFailure fdiv c (Profile row) (template_of (Template row))))\<rparr>
                         else m1) in
           if BootAttempts updated \<ge> boot_threshold m2 (Profile row)
           then try_update m2 now (VMID row) (set_state now StatePoison)
           else destroyAsync (try_update m2 now (VMID row) (set_state now StateDestroying))
                  (VMID updated) (Node updated) (Profile updated)))"

text \<open>The provisioner's WaitReady answered \<open>ready\<close>; its Start answered \<open>started\<close>.\<close>

definition runBootInline :: "(int \<Rightarrow> int \<Rightarrow> rat) \<Rightarrow> manager \<Rightarrow> time \<Rightarrow> bool \<Rightarrow> VM \<Rightarrow> manager" where
  "runBootInline fdiv m now ready row =
     (if \<not> ready then markPoisonOrDestroy fdiv m now row
      else SignalRefill (try_update m now (VMID row) (set_state now StateHot)))"

definition runBoot :: "(int \<Rightarrow> int \<Rightarrow> rat) \<Rightarrow> manager \<Rightarrow> time \<Rightarrow> bool \<Rightarrow> bool \<Rightarrow> VM \<Rightarrow> manager" where
  "runBoot fdiv m now started ready row =
     (if \<not> started then markPoisonOrDestroy fdiv m now row
      else runBootInline fdiv m now ready row)"

section \<open>Clone\<close>

definition pick_template :: "manager \<Rightarrow> ProfileSettings \<Rightarrow> int \<Rightarrow> int \<times> string" where
  "pick_template m settings vmid =
     (case mCanary m of
        None \<Rightarrow> (psTemplateVMID settings, template_string Stable)
      | Some c \<Rightarrow>
          (case Pick c (psName settings) vmid of
             Inl _ \<Rightarrow> (psTemplateVMID settings, template_string Stable)
           | Inr pr \<Rightarrow> (if TemplateVMID pr > 0 then TemplateVMID pr else psTemplateVMID settings,
                        template_string (PickTemplate pr))))"

text \<open>Under \<^verbatim>\<open>allocMu\<close>: the allocation and the insertion of the row are one step.\<close>

definition allocateVMIDAndInsertRow ::
  "(VM list \<Rightarrow> VM list) \<Rightarrow> (int \<Rightarrow> bool) \<Rightarrow> (int \<Rightarrow> bool) \<Rightarrow> manager \<Rightarrow> time \<Rightarrow> ProfileSettings \<Rightarrow> PoolKind \<Rightarrow> string \<Rightarrow>
   pool_error + (int \<times> string \<times> int \<times> string \<times> manager)" where
  "allocateVMIDAndInsertRow ord cancelled recent m now settings kind node =
     (case allocateVMID ord cancelled recent (mCfg m) (mTable m) of
        Inl e \<Rightarrow> Inl e
      | Inr vmid \<Rightarrow>
          (let nm = VMNamePrefix (mCfg m) @ itoa vmid;
               (templateVMID, templateClass) = pick_template m settings vmid;
               row = (new_row vmid node nm (psName settings) kind StateProvisioning)\<lparr>Template := templateClass\<rparr> in
           case Insert (mTable m) now row of
             Inl e \<Rightarrow> Inl (PoolErrStore e)
           | Inr T' \<Rightarrow> Inr (vmid, nm, templateVMID, templateClass, m\<lparr>mTable := T'\<rparr>)))"

definition handleCloneFailure :: "manager \<Rightarrow> time \<Rightarrow> bool \<Rightarrow> clonePrep \<Rightarrow> manager" where
  "handleCloneFailure m now gone prep =
     destroyOrSyncFallback
       (try_update (claim_release m (cpClaim prep)) now (cpVMID prep) (set_state now StateDestroying))
       gone (cpVMID prep) (cpNode prep) (cpProfileName prep)"

text \<open>
  \<^verbatim>\<open>prepareClone\<close>: \<open>ip\<close> is the allocator's answer for the new VMID. The result is the
  prepared clone (\<open>None\<close> when it was abandoned) and the state; \<^verbatim>\<open>rowInserted\<close>, a once-only
  decrement of the pending reservation, happens here or when the abandoned goroutine ends.
\<close>

definition prepareClone ::
  "(VM list \<Rightarrow> VM list) \<Rightarrow> chooser \<Rightarrow> env \<Rightarrow> (int \<Rightarrow> bool) \<Rightarrow> (int \<Rightarrow> bool) \<Rightarrow> (int \<Rightarrow> string option) \<Rightarrow> bool \<Rightarrow>
   manager \<Rightarrow> time \<Rightarrow> string \<Rightarrow> PoolKind \<Rightarrow> bool \<Rightarrow> clonePrep option \<times> manager" where
  "prepareClone ord sel e cancelled recent ip gone m now profile kind poweredOn =
     (case profileOf m profile of
        None \<Rightarrow> (None, add_pending m profile (- 1))
      | Some ps \<Rightarrow>
          (case admitClone ord sel e m now (psName (prSettings ps)) (prSettings ps) kind of
             (None, m1) \<Rightarrow> (None, add_pending m1 profile (- 1))
           | (Some (node, claim), m1) \<Rightarrow>
               (case allocateVMIDAndInsertRow ord cancelled recent m1 now (prSettings ps) kind node of
                  Inl _ \<Rightarrow> (None, add_pending (claim_release m1 claim) profile (- 1))
                | Inr (vmid, nm, templateVMID, templateClass, m2) \<Rightarrow>
                    (let m3 = claim_bind (add_pending m2 profile (- 1)) claim vmid;
                         prep = \<lparr>cpProfileName = psName (prSettings ps), cpNode = node, cpVMID = vmid, cpName = nm,
                                 cpTemplateVMID = templateVMID, cpTemplateClass = templateClass, cpIPConfig = '''',
                                 cpKind = kind, cpPoweredOn = poweredOn, cpClaim = claim\<rparr> in
                     case (if psHasIPAM (prSettings ps) then ip vmid else Some '''') of
                       None \<Rightarrow> (None, handleCloneFailure m3 now gone prep)
                     | Some addr \<Rightarrow> (Some (if addr = '''' then prep else prep\<lparr>cpIPConfig := ''ip='' @ addr\<rparr>), m3)))))"


text \<open>
  \<^verbatim>\<open>runClone\<close> after the provisioner's Clone returned \<open>cloned\<close>, with the replies of
  SnapshotCreate and Start. The first component is the row whose readiness the goroutine then waits
  for, \<open>None\<close> when it ends here.
\<close>

definition runClone_cloned ::
  "(int \<Rightarrow> int \<Rightarrow> rat) \<Rightarrow> manager \<Rightarrow> time \<Rightarrow> bool \<Rightarrow> bool \<Rightarrow> bool \<Rightarrow> bool \<Rightarrow> clonePrep \<Rightarrow> VM option \<times> manager" where
  "runClone_cloned fdiv m now gone cloned snapped started prep =
     (if \<not> cloned then (None, handleCloneFailure m now gone prep)
      else
        (let cloneStartsVM = (cpPoweredOn prep \<and> \<not> snapshotRecycle m);
             m1 = m\<lparr>mCanary := map_option (\<lambda>c. RecordClone c (cpProfileName prep) (template_of (cpTemplateClass prep))) (mCanary m)\<rparr>;
             hasSnapshot = (snapshotRecycle m \<and> snapped);
             tgt = (if cpPoweredOn prep then StateBooting else StateWarm) in
         case Update (mTable m1) now (cpVMID prep) (\<lambda>v. (set_state now tgt v)\<lparr>HasRecycleSnapshot := hasSnapshot\<rparr>) of
           Inl ErrNotFound \<Rightarrow> (None, destroyOrSyncFallback m1 gone (cpVMID prep) (cpNode prep) (cpProfileName prep))
         | Inl _ \<Rightarrow> (None, m1)
         | Inr (updated, T') \<Rightarrow>
             (let m2 = m1\<lparr>mTable := T'\<rparr> in
              if cpPoweredOn prep then
                (if \<not> cloneStartsVM \<and> \<not> started then (None, markPoisonOrDestroy fdiv m2 now updated)
                 else (Some updated, m2))
              else (None, SignalRefill m2))))"

definition runClone_ready :: "(int \<Rightarrow> int \<Rightarrow> rat) \<Rightarrow> manager \<Rightarrow> time \<Rightarrow> bool \<Rightarrow> VM \<Rightarrow> manager" where
  "runClone_ready fdiv m now ready updated = SignalRefill (runBootInline fdiv m now ready updated)"

section \<open>The reconcile pass\<close>

text \<open>
  \<open>inflightClones\<close> is the provisioner's in-flight count; \<open>slots\<close> is how many dispatches get a
  slot of \<^verbatim>\<open>cloneSem\<close> before the pass is cancelled. Metrics have no counterpart.
\<close>

definition reconcileProfileOnce ::
  "(VM list \<Rightarrow> VM list) \<Rightarrow> chooser \<Rightarrow> env \<times> env \<Rightarrow> string list \<Rightarrow> int \<Rightarrow> nat \<Rightarrow> manager \<Rightarrow> time \<Rightarrow> string \<Rightarrow> manager" where
  "reconcileProfileOnce ord sel es keys inflightClones slots m now profile =
     (case profileOf m profile of
        None \<Rightarrow> m
      | Some ps \<Rightarrow>
          (let stats = statsForProfile ord m profile;
               (hotProv, warmProv) = provisioningCounts ord m profile;
               hotSize = prHotSize ps; warmSize = prWarmSize ps; desired = prDesired ps;
               inflight = inflightClones + prPendingClones ps;
               credit = profileReturningCredit ord m now profile (psVMMaxAge (prSettings ps));
               (needHot, needWarm) = computeCloneNeeds stats inflight hotProv warmProv hotSize warmSize desired
                                       (psMaxConcurrentRunners (prSettings ps)) credit;
               promoteCount = (if needHot > Warm stats then Warm stats else needHot);
               m1 = (if promoteCount > 0 then promoteN ord m now profile promoteCount else m);
               needHot' = (if promoteCount > 0 then needHot - promoteCount else needHot);
               hotKicks = min (nat needHot') slots;
               warmKicks = min (nat needWarm) (slots - hotKicks);
               m2 = (kickClone True profile PoolKindHot True ^^ hotKicks) m1;
               m3 = (kickClone True profile PoolKindWarm False ^^ warmKicks) m2;
               m4 = shrinkHotPool ord m3 now profile hotSize desired (Busy stats);
               m5 = shrinkWarmPool ord m4 now profile warmSize;
               deferred = (case profileOf m5 profile of None \<Rightarrow> False | Some q \<Rightarrow> prDeferredHot q);
               m6 = on_profile (psName (prSettings ps)) (\<lambda>q. q\<lparr>prDeferredHot := False\<rparr>) m5;
               m7 = (if deferred \<and> burstDeficit stats inflight hotProv desired credit > 0
                     then snd (evictForDemand ord sel es keys m6 now (psName (prSettings ps)) (prSettings ps)) else m6);
               m8 = (if profile = defaultProfile m then sweepStuckRows ord m7 now else m7) in
           recycleOldVMs ord m8 now profile (psVMMaxAge (prSettings ps))))"

definition reconcileOnce ::
  "(VM list \<Rightarrow> VM list) \<Rightarrow> chooser \<Rightarrow> env \<times> env \<Rightarrow> string list \<Rightarrow> int \<Rightarrow> nat \<Rightarrow> manager \<Rightarrow> time \<Rightarrow> manager" where
  "reconcileOnce ord sel es keys inflightClones slots m now =
     foldl (\<lambda>s name. reconcileProfileOnce ord sel es keys inflightClones slots s now name) m (mProfileOrder m)"

section \<open>Shutdown\<close>

text \<open>\<^verbatim>\<open>drain\<close>: what it does before it waits for the workers, and what its deferred calls do.\<close>

definition drain_begin :: "manager \<Rightarrow> manager" where
  "drain_begin m = m\<lparr>mDraining := True\<rparr>"

definition drain_end :: "string list \<Rightarrow> manager \<Rightarrow> manager" where
  "drain_end names m = (releaseParkedReservations m names)\<lparr>mWorkerCancelled := True\<rparr>"


section \<open>Guarded loops spare busy VMs\<close>

definition busy_state :: "State \<Rightarrow> bool" where
  "busy_state st \<longleftrightarrow> st = StateAssigned \<or> st = StateRunning \<or> st = StateRecycling"

text \<open>
  Every row that serves a job, or is being recycled after one, in the first state is the same row in the
  second.
\<close>

definition keeps_busy :: "manager \<Rightarrow> manager \<Rightarrow> bool" where
  "keeps_busy m m' \<longleftrightarrow> (wf_table (mTable m) \<longrightarrow> wf_table (mTable m') \<and>
     (\<forall>i v. txn_first (mTable m) i = Some v \<and> busy_state (StateOf v) \<longrightarrow> txn_first (mTable m') i = Some v))"

lemma keeps_busy_refl [simp]: "keeps_busy m m"
  by (simp add: keeps_busy_def)

lemma keeps_busy_trans [trans]: "keeps_busy a b \<Longrightarrow> keeps_busy b c \<Longrightarrow> keeps_busy a c"
  by (simp add: keeps_busy_def)

lemma keeps_busy_same: "mTable m' = mTable m \<Longrightarrow> keeps_busy m m'"
  by (simp add: keeps_busy_def)

lemma keeps_busy_foldl: "(\<And>s x. x \<in> set xs \<Longrightarrow> keeps_busy s (f s x)) \<Longrightarrow> keeps_busy m (foldl f m xs)"
  by (induction xs arbitrary: m) (auto intro: keeps_busy_trans)

text \<open>A transition out of states that are not busy.\<close>

lemma cas_keeps_busy:
  assumes "UpdateStateIn (mTable m) now i fs st f = Inr (Some T')" and "benign f"
    and "\<forall>s \<in> set fs. \<not> busy_state s" and "mTable m' = T'"
  shows "keeps_busy m m'"
  unfolding keeps_busy_def
proof (intro impI)
  assume wf: "wf_table (mTable m)"
  show "wf_table (mTable m') \<and>
     (\<forall>i v. txn_first (mTable m) i = Some v \<and> busy_state (StateOf v) \<longrightarrow> txn_first (mTable m') i = Some v)"
    by (rule cas_cases [OF wf assms(2), of now i fs st]) (use assms in auto)
qed

lemmas reap_cas = cas_keeps_busy [where f = "\<lambda>v. v\<lparr>StateSince := now\<rparr>" for now]
  cas_keeps_busy [where f = id] cas_keeps_busy [where f = "\<lambda>v. v\<lparr>PoolKindOf := k\<rparr>" for k]

lemma shrink_rows_keeps_busy: "\<not> busy_state st \<Longrightarrow> keeps_busy m (shrink_rows st profile now n rows m)"
proof (induction st profile now n rows m rule: shrink_rows.induct)
  case (2 st profile now n row rows m)
  show ?case
  proof (cases "\<exists>T'. UpdateState (mTable m) now (VMID row) st StateDraining (\<lambda>v. v\<lparr>StateSince := now\<rparr>) = Inr (Some T')")
    case True
    then obtain T' where T': "UpdateState (mTable m) now (VMID row) st StateDraining (\<lambda>v. v\<lparr>StateSince := now\<rparr>) = Inr (Some T')" ..
    let ?m = "destroyAsync (m\<lparr>mTable := T'\<rparr>) (VMID row) (Node row) profile"
    have "keeps_busy m ?m" using T' 2(4) by (intro reap_cas(1)) (auto simp: UpdateState_eq)
    moreover have "0 < n \<Longrightarrow> keeps_busy ?m (shrink_rows st profile now (n - 1) rows ?m)" using 2(3) T' 2(4) by auto
    ultimately show ?thesis using T' by (auto intro: keeps_busy_trans)
  next
    case False
    then show ?thesis using 2(1,2,4) by (auto split: sum.split option.split)
  qed
qed simp

lemma recycle_row_keeps_busy: "\<not> busy_state (StateOf o') \<Longrightarrow> keeps_busy m (recycle_row profile now maxAge m o')"
  by (auto simp: recycle_row_def UpdateState_eq split: sum.split option.split intro: reap_cas(2))

lemma promote_row_keeps_busy: "keeps_busy m (promote_row now m w)"
  by (auto simp: promote_row_def UpdateState_eq busy_state_def split: sum.split option.split intro: reap_cas(3))

lemma commit_victims_keeps_busy: "commit_victims now vs m = (committed, m') \<Longrightarrow> keeps_busy m m'"
proof (induction vs arbitrary: m committed)
  case (Cons v vs)
  let ?from = "if ecPreferred v then StateWarm else StateHot"
  let ?u = "UpdateState (mTable m) now (VMID (ecRow v)) ?from StateDraining (\<lambda>row. row\<lparr>StateSince := now\<rparr>)"
  show ?case
  proof (cases "\<exists>T'. ?u = Inr (Some T')")
    case True
    then obtain T' where T': "?u = Inr (Some T')" ..
    have "keeps_busy m (m\<lparr>mTable := T'\<rparr>)" using T' by (intro reap_cas(1)) (auto simp: UpdateState_eq busy_state_def split: if_splits)
    moreover obtain c where "commit_victims now vs (m\<lparr>mTable := T'\<rparr>) = (c, m')"
      using Cons.prems T' by (auto split: prod.splits)
    ultimately show ?thesis using Cons.IH keeps_busy_trans by blast
  next
    case False
    then show ?thesis using Cons.prems by (auto split: sum.splits option.splits)
  qed
qed simp

lemma startEviction_keeps_busy: "keeps_busy m (snd (startEviction e m now name node sh plan))"
proof -
  obtain committed m1 where c: "commit_victims now (victims plan) m = (committed, m1)" by force
  have t: "mTable (foldl (\<lambda>s v. destroyAsync s (VMID (ecRow v)) (Node (ecRow v)) (Profile (ecRow v))) s cs) = mTable s" for s :: manager and cs
    by (induction cs arbitrary: s) simp_all
  have "mTable (snd (startEviction e m now name node sh plan)) = mTable m1"
    by (auto simp: startEviction_def c t Let_def parkEvicted_def split: option.split prod.split sum.split)
  then show ?thesis using commit_victims_keeps_busy [OF c] keeps_busy_same keeps_busy_trans by blast
qed

text \<open>
  C24. The pool's own reaping never takes a VM from a job: shrinking the hot and the warm pool, ageing
  out, promotion and eviction, whatever outdated list of idle rows or eviction plan they work from,
  leave every row that is assigned, running or recycling at that moment exactly as it is.\<close>

theorem reaping_spares_busy:
  assumes "wf_table (mTable m)" and "txn_first (mTable m) i = Some v" and "busy_state (StateOf v)"
    and "\<forall>r \<in> set idle. StateOf r = StateHot \<or> StateOf r = StateWarm"
  shows "txn_first (mTable (shrink_rows StateHot profile now n rows m)) i = Some v \<and>
    txn_first (mTable (shrink_rows StateWarm profile now n rows m)) i = Some v \<and>
    txn_first (mTable (foldl (recycle_row profile now maxAge) m idle)) i = Some v \<and>
    txn_first (mTable (foldl (promote_row now) m rows)) i = Some v \<and>
    txn_first (mTable (snd (startEviction e m now name node sh plan))) i = Some v"
proof -
  have k: "keeps_busy m m' \<Longrightarrow> txn_first (mTable m') i = Some v" for m'
    using assms(1-3) by (simp add: keeps_busy_def)
  have "keeps_busy m (foldl (recycle_row profile now maxAge) m idle)"
    using assms(4) by (intro keeps_busy_foldl recycle_row_keeps_busy) (auto simp: busy_state_def)
  then show ?thesis
    using shrink_rows_keeps_busy promote_row_keeps_busy startEviction_keeps_busy
    by (intro conjI k) (auto intro: keeps_busy_foldl simp: busy_state_def)
qed

theorem reaping_spares_busy_witness:
  "txn_first (mTable (foldl (recycle_row ''default'' (9 * minute) minute)
     (ex_pool [ex_vm 100 StateRunning, ex_vm 101 StateHot]) [ex_vm 100 StateHot, ex_vm 101 StateHot])) 100 = Some (ex_vm 100 StateRunning)"
proof -
  let ?m = "ex_pool [ex_vm 100 StateRunning, ex_vm 101 StateHot]"
  have T: "mTable ?m = [ex_vm 100 StateRunning, ex_vm 101 StateHot]" by code_simp
  have "wf_table (mTable ?m)" unfolding T by (simp add: wf_table_def ex_vm_def indexable_def)
  moreover have "txn_first (mTable ?m) 100 = Some (ex_vm 100 StateRunning)" unfolding T by (simp add: txn_first_def ex_vm_def)
  ultimately show ?thesis
    using reaping_spares_busy [of ?m 100 "ex_vm 100 StateRunning" "[ex_vm 100 StateHot, ex_vm 101 StateHot]"]
    by (simp add: busy_state_def ex_vm_def)
qed


section \<open>Unguarded updates\<close>

lemma set_state_ident: "VMID (set_state t st v) = VMID v \<and> Profile (set_state t st v) = Profile v \<and> CreatedAt (set_state t st v) = CreatedAt v"
  by (simp add: set_state_def)

lemma try_update_fields [simp]:
  "mCfg (try_update m now i f) = mCfg m" "mProfiles (try_update m now i f) = mProfiles m"
  "mProfileOrder (try_update m now i f) = mProfileOrder m" "mQueue (try_update m now i f) = mQueue m" "mSending (try_update m now i f) = mSending m"
  "mInHand (try_update m now i f) = mInHand m" "mTasks (try_update m now i f) = mTasks m"
  "mDraining (try_update m now i f) = mDraining m" "mBootFree (try_update m now i f) = mBootFree m"
  "mDestroyFree (try_update m now i f) = mDestroyFree m" "mWorkerCancelled (try_update m now i f) = mWorkerCancelled m"
  "mDeregistered (try_update m now i f) = mDeregistered m" "mCanary (try_update m now i f) = mCanary m"
  by (auto simp: try_update_def split: sum.split)

lemma try_update_row:
  assumes "wf_table (mTable m)" and "\<And>v. VMID (f v) = VMID v \<and> Profile (f v) = Profile v \<and> CreatedAt (f v) = CreatedAt v"
  shows "wf_table (mTable (try_update m now i f))"
    and "txn_first (mTable m) i = Some v \<Longrightarrow>
      txn_first (mTable (try_update m now i f)) = (txn_first (mTable m))(i \<mapsto> (f v)\<lparr>UpdatedAt := now\<rparr>)"
    and "txn_first (mTable m) i = None \<Longrightarrow> try_update m now i f = m"
  by (cases rule: update_cases [OF assms, of now i]; simp add: try_update_def assms(1))+

lemma set_state_row:
  assumes "wf_table (mTable m)" and "txn_first (mTable m) i = Some v"
  shows "txn_first (mTable (try_update m now i (set_state t st))) =
    (txn_first (mTable m))(i \<mapsto> (set_state t st v)\<lparr>UpdatedAt := now\<rparr>)"
  by (rule try_update_row(2) [OF assms(1) _ assms(2)]) (rule set_state_ident)

text \<open>
  C25. The updates that end a boot and that sweep stuck rows have no guard. A boot that becomes ready
  makes the row hot from whatever state it is in, while a destroy of the VM that was requested in the
  meantime stays pending; and a sweep that works from an outdated row drains and destroys the VM even
  if it is running a job by then.\<close>

theorem unguarded_updates_override:
  assumes "wf_table (mTable m)" and "txn_first (mTable m) i = Some v" and "VMID row = i"
    and "UpdatedAt row < now - stuckGrace"
  shows "map_option StateOf (txn_first (mTable (runBootInline fdiv m now True row)) i) = Some StateHot \<and>
    (pending m i \<longrightarrow> pending (runBootInline fdiv m now True row) i) \<and>
    map_option StateOf (txn_first (mTable (sweep_row now m row)) i) = Some StateDraining \<and>
    (\<not> mDraining m \<and> length (mQueue m) < destroyQueueCap \<longrightarrow> pending (sweep_row now m row) i)"
proof -
  have b: "map_option StateOf (txn_first (mTable (runBootInline fdiv m now True row)) i) = Some StateHot"
    using set_state_row [OF assms(1,2), of now now StateHot] assms(3)
    by (simp add: runBootInline_def set_state_def)
  have p: "mQueue (runBootInline fdiv m now True row) = mQueue m" "mSending (runBootInline fdiv m now True row) = mSending m"
    by (simp_all add: runBootInline_def)
  let ?f = "\<lambda>v. v\<lparr>StateOf := StateDraining, StateSince := now\<rparr>"
  have f: "VMID (?f v) = VMID v \<and> Profile (?f v) = Profile v \<and> CreatedAt (?f v) = CreatedAt v" for v :: VM by simp
  from assms(1) f obtain T' where u: "Update (mTable m) now i ?f = Inr ((?f v)\<lparr>UpdatedAt := now\<rparr>, T')"
      "txn_first T' = (txn_first (mTable m))(i \<mapsto> (?f v)\<lparr>UpdatedAt := now\<rparr>)"
    by (cases rule: update_cases [where f = ?f and now = now and i = i]) (use assms(2) in auto)
  then have s: "sweep_row now m row = destroyAsync (m\<lparr>mTable := T'\<rparr>) i (Node row) (Profile row)"
    using assms(3,4) by (simp add: sweep_row_def)
  show ?thesis using b p u(2) by (auto simp: s pending_def destroyAsync_sending)
qed

definition ex_race :: manager where
  "ex_race = snd (ForceDestroy (ex_pool [ex_vm 100 StateBooting]) 6 100)"

theorem unguarded_updates_override_witness:
  "map_option StateOf (txn_first (mTable ex_race) 100) = Some StateDraining \<and> pending ex_race 100 \<and>
   map_option StateOf (txn_first (mTable (runBootInline (\<lambda>a b. 0) ex_race (9 * minute) True (ex_vm 100 StateBooting))) 100) = Some StateHot \<and>
   pending (runBootInline (\<lambda>a b. 0) ex_race (9 * minute) True (ex_vm 100 StateBooting)) 100"
proof -
  have T: "mTable ex_race = [(ex_vm 100 StateDraining)\<lparr>UpdatedAt := 6, StateSince := 6\<rparr>]"
    and p: "pending ex_race 100" by code_simp+
  have wf: "wf_table (mTable ex_race)" unfolding T by (simp add: wf_table_def ex_vm_def indexable_def)
  have f: "txn_first (mTable ex_race) 100 = Some ((ex_vm 100 StateDraining)\<lparr>UpdatedAt := 6, StateSince := 6\<rparr>)"
    unfolding T by (simp add: txn_first_def ex_vm_def)
  show ?thesis
    using unguarded_updates_override [OF wf f, of "ex_vm 100 StateBooting" "9 * minute" "\<lambda>a b. 0"] p
    by (simp add: ex_vm_def stuckGrace_def f)
qed

text \<open>
  A failed boot counts one more attempt on the row; if that reaches the profile's threshold the VM is
  marked poison and kept, and otherwise it is marked for destruction at once, without another attempt.
  So the first failure of a new VM destroys it whenever the threshold is two or more, and only a
  threshold of one lets it become poison.\<close>

theorem boot_failure_outcome:
  assumes "wf_table (mTable m)" and "txn_first (mTable m) (VMID row) = Some v"
  shows "\<exists>w. txn_first (mTable (markPoisonOrDestroy fdiv m now row)) = (txn_first (mTable m))(VMID row \<mapsto> w) \<and>
    BootAttempts w = BootAttempts v + 1 \<and> same_identity v w \<and>
    (if boot_threshold m (Profile row) \<le> BootAttempts v + 1
     then StateOf w = StatePoison \<and> mQueue (markPoisonOrDestroy fdiv m now row) = mQueue m \<and>
       mSending (markPoisonOrDestroy fdiv m now row) = mSending m
     else StateOf w = StateDestroying \<and>
       (\<not> mDraining m \<and> length (mQueue m) < destroyQueueCap \<longrightarrow> pending (markPoisonOrDestroy fdiv m now row) (VMID row)))"
proof -
  let ?i = "VMID row"
  let ?f = "\<lambda>v. v\<lparr>BootAttempts := BootAttempts v + 1\<rparr>"
  let ?v = "(?f v)\<lparr>UpdatedAt := now\<rparr>"
  have f: "VMID (?f u) = VMID u \<and> Profile (?f u) = Profile u \<and> CreatedAt (?f u) = CreatedAt u" for u :: VM by simp
  from assms(1) f obtain T' where u: "Update (mTable m) now ?i ?f = Inr (?v, T')"
      "txn_first T' = (txn_first (mTable m))(?i \<mapsto> ?v)" "wf_table T'"
    by (cases rule: update_cases [where f = ?f and now = now and i = ?i]) (use assms(2) in auto)
  define m2 where "m2 = (case mCanary m of
       None \<Rightarrow> m\<lparr>mTable := T'\<rparr>
     | Some c \<Rightarrow> if Template row \<noteq> '''' \<and> BootAttempts ?v = 1
                 then (m\<lparr>mTable := T'\<rparr>)\<lparr>mCanary := Some (snd (RecordFailure fdiv c (Profile row) (template_of (Template row))))\<rparr>
                 else m\<lparr>mTable := T'\<rparr>)"
  have m2: "mTable m2 = T'" "mQueue m2 = mQueue m" "mSending m2 = mSending m" "mDraining m2 = mDraining m" "boot_threshold m2 p = boot_threshold m p" for p
    by (auto simp: m2_def boot_threshold_def profileOf_def defaultProfile_def split: option.split)
  have e: "markPoisonOrDestroy fdiv m now row =
      (if boot_threshold m (Profile row) \<le> BootAttempts v + 1 then try_update m2 now ?i (set_state now StatePoison)
       else destroyAsync (try_update m2 now ?i (set_state now StateDestroying)) (VMID ?v) (Node ?v) (Profile ?v))"
    unfolding markPoisonOrDestroy_def u(1) by (simp add: Let_def m2(5) flip: m2_def)
  have i: "VMID v = ?i" using txn_first_VMID [OF assms(2)] .
  have row: "txn_first (mTable m2) ?i = Some ?v" using u(2) m2(1) by simp
  note t = set_state_row [OF u(3) [folded m2(1)] row]
  show ?thesis
    using u(2) i by (auto simp: e t m2 set_state_def same_identity_def pending_def destroyAsync_sending)
qed

theorem boot_failure_outcome_witness:
  "\<exists>w. txn_first (mTable (markPoisonOrDestroy (\<lambda>a b. 0) (ex_pool [ex_vm 100 StateBooting]) 9 (ex_vm 100 StateBooting))) 100 = Some w \<and>
     BootAttempts w = 1 \<and> StateOf w = StateDestroying"
proof -
  let ?m = "ex_pool [ex_vm 100 StateBooting]"
  have T: "mTable ?m = [ex_vm 100 StateBooting]" and th: "boot_threshold ?m ''default'' = 3" by code_simp+
  have wf: "wf_table (mTable ?m)" unfolding T by (simp add: wf_table_def ex_vm_def indexable_def)
  have f: "txn_first (mTable ?m) (VMID (ex_vm 100 StateBooting)) = Some (ex_vm 100 StateBooting)" unfolding T by (simp add: txn_first_def)
  have n: "BootAttempts (ex_vm 100 StateBooting) = 0" "Profile (ex_vm 100 StateBooting) = ''default''" "VMID (ex_vm 100 StateBooting) = 100"
    by (simp_all add: ex_vm_def new_row_def)
  from boot_failure_outcome [OF wf f, of "\<lambda>a b. 0" 9] show ?thesis unfolding n th by auto
qed

end
