(* ===== verification/Lifecycle.thy ===== *)
theory Lifecycle
  imports Reconcile
begin

text \<open>
  The lifecycle of a VM as the pool's interface promises it, and the proof that the guarded operations
  of the manager implement it.

  The abstract state is the lifecycle state of every VMID. The abstract step moves one VM along the
  lifecycle graph or takes in a VM that was found running at start-up. A concrete step is one call of
  a handler, or one pass of a loop over rows listed at any earlier time; it may move several VMs, so it
  is a sequence of abstract steps. The graph has no edge out of draining or destroying: along guarded
  steps a teardown is final.
\<close>

section \<open>The abstract lifecycle\<close>

fun life_next :: "State \<Rightarrow> State list" where
  "life_next StateProvisioning = [StateDraining]"
| "life_next StateWarm = [StateBooting, StateDraining]"
| "life_next StateBooting = [StateDraining]"
| "life_next StateHot = [StateAssigned, StateRunning, StateDraining]"
| "life_next StateAssigned = [StateRunning, StateRecycling, StateDraining]"
| "life_next StateRunning = [StateRecycling, StateDraining]"
| "life_next StateRecycling = [StateWarm, StateDraining]"
| "life_next StateDraining = []"
| "life_next StateDestroying = []"
| "life_next StatePoison = [StateDraining]"

inductive life_step :: "(int \<rightharpoonup> State) \<Rightarrow> (int \<rightharpoonup> State) \<Rightarrow> bool" where
  move: "A i = Some s \<Longrightarrow> s' \<in> set (life_next s) \<Longrightarrow> life_step A (A(i \<mapsto> s'))"
| adopt: "A i = None \<Longrightarrow> s \<in> {StateWarm, StateHot, StateAssigned, StateRunning, StateRecycling} \<Longrightarrow> life_step A (A(i \<mapsto> s))"

inductive_cases life_stepE: "life_step A A'"

definition lifecycle :: "manager \<Rightarrow> int \<rightharpoonup> State" where
  "lifecycle m = (\<lambda>i. map_option StateOf (txn_first (mTable m) i))"

text \<open>Teardown is final: along abstract steps a draining or destroying VM stays as it is.\<close>

lemma life_final:
  assumes "life_step\<^sup>*\<^sup>* A A'" and "A i = Some s" and "s = StateDraining \<or> s = StateDestroying"
  shows "A' i = Some s"
  using assms
proof (induction rule: rtranclp_induct)
  case (step B C)
  from step.hyps(2) step.IH [OF step.prems] step.prems(2) show ?case
    by (elim life_stepE) (auto split: if_splits)
qed simp

section \<open>Guarded steps\<close>

text \<open>
  A row that a caller or a loop has read at some earlier time is an arbitrary row here; the rows that
  the ageing loop lists were idle when it listed them.
\<close>

inductive guarded_step :: "(VM list \<Rightarrow> VM list) \<Rightarrow> manager \<Rightarrow> manager \<Rightarrow> bool" for ord where
  acquire: "guarded_step ord m (snd (Acquire ord m now job maxBusy))"
| acquire_profile: "guarded_step ord m (snd (AcquireForProfile ord m now job profile maxBusy))"
| set_runner: "guarded_step ord m (snd (SetRunnerID m now i rid))"
| stamp: "guarded_step ord m (snd (StampJobMetadata m now i meta))"
| mark_running: "guarded_step ord m (snd (MarkRunning m now i rid))"
| promote_running: "guarded_step ord m (snd (PromoteToRunning m now i rid job))"
| force_destroy: "guarded_step ord m (snd (ForceDestroy m now i))"
| preempt: "guarded_step ord m (snd (Preempt_from m now i row))"
| completed: "guarded_step ord m (snd (MarkCompleted_from m now i row))"
| shrink: "st = StateHot \<or> st = StateWarm \<Longrightarrow> guarded_step ord m (shrink_rows st profile now n rows m)"
| age: "StateOf row = StateHot \<or> StateOf row = StateWarm \<Longrightarrow> guarded_step ord m (recycle_row profile now maxAge m row)"
| promote: "guarded_step ord m (promote_row now m row)"
| evict: "guarded_step ord m (snd (startEviction e m now name node sh plan))"
| roll_start: "rollback_start m now i = Some m' \<Longrightarrow> guarded_step ord m m'"
| roll_finish: "guarded_step ord m (rollback_finish m now ok i node profile)"
| adopt_vm: "guarded_step ord m (adoptOne m now pw runners pv)"
| desired: "guarded_step ord m (SetDesiredCount m n)"
| sizes: "guarded_step ord m (snd (SetTargetSizes m name hot warm))"

section \<open>Refinement\<close>

definition refines :: "manager \<Rightarrow> manager \<Rightarrow> bool" where
  "refines m m' \<longleftrightarrow> (wf_table (mTable m) \<longrightarrow> wf_table (mTable m') \<and> life_step\<^sup>*\<^sup>* (lifecycle m) (lifecycle m'))"

lemma refines_trans [trans]: "refines a b \<Longrightarrow> refines b c \<Longrightarrow> refines a c"
  by (auto simp: refines_def intro: rtranclp_trans)

lemma refines_same: "mTable m' = mTable m \<Longrightarrow> refines m m'"
  by (simp add: refines_def lifecycle_def)

lemma refines_move:
  assumes "txn_first (mTable m) i = Some v" and "wf_table (mTable m) \<Longrightarrow> wf_table (mTable m')"
    and "txn_first (mTable m') = (txn_first (mTable m))(i \<mapsto> w)" and "StateOf w = StateOf v \<or> StateOf w \<in> set (life_next (StateOf v))"
  shows "refines m m'"
proof -
  have e: "lifecycle m' = (lifecycle m)(i \<mapsto> StateOf w)" by (auto simp: lifecycle_def assms(3))
  have l: "lifecycle m i = Some (StateOf v)" by (simp add: lifecycle_def assms(1))
  have "life_step\<^sup>*\<^sup>* (lifecycle m) (lifecycle m')"
  proof (cases "StateOf w = StateOf v")
    case True
    with l have "lifecycle m' = lifecycle m" unfolding e by (simp add: fun_upd_idem)
    then show ?thesis by simp
  next
    case False
    with assms(4) l show ?thesis unfolding e by (intro r_into_rtranclp life_step.move) auto
  qed
  with assms(2) show ?thesis by (simp add: refines_def)
qed

lemma refines_cas:
  assumes "UpdateStateIn (mTable m) now i fs st f = Inr (Some T')" and "benign f"
    and "list_all (\<lambda>s. st \<in> set (life_next s)) fs" and "mTable m' = T'"
  shows "refines m m'"
proof (cases "wf_table (mTable m)")
  case wf: True
  show ?thesis
  proof (rule cas_cases [OF wf assms(2), of now i fs st])
    fix v T''
    assume v: "txn_first (mTable m) i = Some v" "StateOf v \<in> set fs"
      and u: "UpdateStateIn (mTable m) now i fs st f = Inr (Some T'')" "txn_first T'' = (txn_first (mTable m))(i \<mapsto> f (cas_row now st v))" "wf_table T''"
    have "StateOf (f (cas_row now st v)) = st" using assms(2) by (simp add: benign_def)
    then show ?thesis
      using v u assms(1,3,4) by (intro refines_move [of m i v m' "f (cas_row now st v)"]) (auto simp: list_all_iff)
  qed (use assms(1) in auto)
qed (simp add: refines_def)

lemma refines_update:
  assumes "Update (mTable m) now i f = Inr (w, T')"
    and "\<And>v. VMID (f v) = VMID v \<and> Profile (f v) = Profile v \<and> CreatedAt (f v) = CreatedAt v \<and> StateOf (f v) = StateOf v"
    and "mTable m' = T'"
  shows "refines m m'"
proof (cases "wf_table (mTable m)")
  case wf: True
  have f: "VMID (f v) = VMID v \<and> Profile (f v) = Profile v \<and> CreatedAt (f v) = CreatedAt v" for v using assms(2) by simp
  show ?thesis
  proof (rule update_cases [OF wf f, of now i])
    fix v T''
    assume "txn_first (mTable m) i = Some v" "Update (mTable m) now i f = Inr ((f v)\<lparr>UpdatedAt := now\<rparr>, T'')"
      "txn_first T'' = (txn_first (mTable m))(i \<mapsto> (f v)\<lparr>UpdatedAt := now\<rparr>)" "wf_table T''"
    with assms show ?thesis by (intro refines_move [of m i v m' "(f v)\<lparr>UpdatedAt := now\<rparr>"]) auto
  qed (use assms(1) in auto)
qed (simp add: refines_def)

lemma refines_acquire:
  assumes "row_order ord" and "AcquireHotInProfile ord (mTable m) now profile job maxc maxb = Inr (cp, T')" and "mTable m' = T'"
  shows "refines m m'"
proof (cases "wf_table (mTable m)")
  case wf: True
  from row_order.acquire_row [OF assms(1) wf assms(2)] obtain v where v:
    "txn_first (mTable m) (VMID v) = Some v" "StateOf v = StateHot" "T' = put (mTable m) cp" "indexable cp" "VMID cp = VMID v"
    "cp = v\<lparr>StateOf := StateAssigned, JobID := job, StateSince := now, UpdatedAt := now\<rparr>" by metis
  have "wf_table T'" unfolding v(3) using wf_put [OF wf] wf_first [OF wf v(1)] v(4,5) by simp
  moreover have "txn_first T' = (txn_first (mTable m))(VMID v \<mapsto> cp)" by (auto simp: v(3) put_first v(5) fun_eq_iff)
  ultimately show ?thesis using v assms(3) by (intro refines_move [of m "VMID v" v m' cp]) auto
qed (simp add: refines_def)


lemma refines_frame [simp]:
  "refines m m" "refines m (SignalRefill s) = refines m s" "refines m (signalProfileRefill s p) = refines m s"
  "refines m (destroyAsync s i n p) = refines m s" "refines m (rollbackAsync s i n nm p) = refines m s"
  by (simp_all add: refines_def lifecycle_def)

lemma Acquire_refines: "row_order ord \<Longrightarrow> refines m (snd (Acquire ord m now job maxBusy))"
  by (auto simp: Acquire_def AcquireHot_def split: sum.split store_error.split intro: refines_acquire refines_same)

lemma AcquireForProfile_refines: "row_order ord \<Longrightarrow> refines m (snd (AcquireForProfile ord m now job profile maxBusy))"
  by (auto simp: AcquireForProfile_def Let_def Acquire_refines
      split: sum.split store_error.split option.split intro: refines_acquire refines_same)

lemma SetRunnerID_refines: "refines m (snd (SetRunnerID m now i rid))"
  by (auto simp: SetRunnerID_def split: sum.split store_error.split intro: refines_update refines_same)

lemma StampJobMetadata_refines: "refines m (snd (StampJobMetadata m now i meta))"
proof -
  have "Update (mTable m) now i (stamp_meta meta) = Inr (w, T') \<Longrightarrow> refines m (m\<lparr>mTable := T'\<rparr>)" for w T'
    by (rule refines_update [where f = "stamp_meta meta"]) (auto simp: stamp_meta_def)
  then show ?thesis by (auto simp: StampJobMetadata_def split: sum.split store_error.split)
qed

lemma MarkRunning_refines: "refines m (snd (MarkRunning m now i rid))"
  by (auto simp: MarkRunning_def UpdateState_eq split: sum.split option.split intro: refines_cas)

lemma PromoteToRunning_refines: "refines m (snd (PromoteToRunning m now i rid job))"
  by (auto simp: PromoteToRunning_def split: sum.split option.split intro: refines_cas)

lemma ForceDestroy_refines: "refines m (snd (ForceDestroy m now i))"
  by (auto simp: ForceDestroy_def split: sum.split option.split intro: refines_cas)

lemma Preempt_refines: "refines m (snd (Preempt_from m now i row))"
  by (auto simp: Preempt_from_def UpdateState_eq split: sum.split option.split intro: refines_cas)

lemma MarkCompleted_refines: "refines m (snd (MarkCompleted_from m now i row))"
  by (auto simp: MarkCompleted_from_def split: sum.split option.split intro: refines_cas)

lemma shrink_rows_refines: "st = StateHot \<or> st = StateWarm \<Longrightarrow> refines m (shrink_rows st profile now n rows m)"
proof (induction st profile now n rows m rule: shrink_rows.induct)
  case (1 st profile now n m)
  then show ?case by (simp add: refines_same)
next
  case (2 st profile now n row rows m)
  let ?u = "UpdateState (mTable m) now (VMID row) st StateDraining (\<lambda>v. v\<lparr>StateSince := now\<rparr>)"
  show ?case
  proof (cases "\<exists>T'. ?u = Inr (Some T')")
    case True
    then obtain T' where T': "?u = Inr (Some T')" ..
    let ?m = "destroyAsync (m\<lparr>mTable := T'\<rparr>) (VMID row) (Node row) profile"
    have "refines m ?m" using T' 2(4)
      by (intro refines_cas [of m now "VMID row" "[st]" StateDraining "\<lambda>v. v\<lparr>StateSince := now\<rparr>" T']) (auto simp: UpdateState_eq)
    moreover have "0 < n \<Longrightarrow> refines ?m (shrink_rows st profile now (n - 1) rows ?m)" using 2(3) T' 2(4) by auto
    ultimately have "0 < n \<Longrightarrow> refines m (shrink_rows st profile now (n - 1) rows ?m)" using refines_trans by blast
    then show ?thesis using T' by auto
  next
    case False
    then show ?thesis using 2(1,2,4) by (auto split: sum.split option.split intro: refines_same)
  qed
qed

lemma recycle_row_refines:
  "StateOf row = StateHot \<or> StateOf row = StateWarm \<Longrightarrow> refines m (recycle_row profile now maxAge m row)"
  by (auto simp: recycle_row_def UpdateState_eq split: sum.split option.split intro: refines_cas)

lemma promote_row_refines: "refines m (promote_row now m row)"
  by (auto simp: promote_row_def UpdateState_eq split: sum.split option.split intro: refines_cas)

lemma commit_victims_refines: "commit_victims now vs m = (committed, m') \<Longrightarrow> refines m m'"
proof (induction vs arbitrary: m committed)
  case Nil
  then show ?case by (simp add: refines_same)
next
  case (Cons v vs)
  let ?from = "if ecPreferred v then StateWarm else StateHot"
  let ?u = "UpdateState (mTable m) now (VMID (ecRow v)) ?from StateDraining (\<lambda>row. row\<lparr>StateSince := now\<rparr>)"
  show ?case
  proof (cases "\<exists>T'. ?u = Inr (Some T')")
    case True
    then obtain T' where T': "?u = Inr (Some T')" ..
    have "refines m (m\<lparr>mTable := T'\<rparr>)" using T'
      by (intro refines_cas [of m now "VMID (ecRow v)" "[?from]" StateDraining "\<lambda>v. v\<lparr>StateSince := now\<rparr>" T'])
        (auto simp: UpdateState_eq split: if_splits)
    moreover obtain c where "commit_victims now vs (m\<lparr>mTable := T'\<rparr>) = (c, m')"
      using Cons.prems T' by (auto split: prod.splits)
    ultimately show ?thesis using Cons.IH refines_trans by blast
  next
    case False
    then show ?thesis using Cons.prems by (auto split: sum.splits option.splits intro: refines_same)
  qed
qed

lemma destroy_all_table:
  fixes s :: manager
  shows "mTable (foldl (\<lambda>s v. destroyAsync s (VMID (ecRow v)) (Node (ecRow v)) (Profile (ecRow v))) s cs) = mTable s"
  by (induction cs arbitrary: s) simp_all

lemma startEviction_refines: "refines m (snd (startEviction e m now name node sh plan))"
proof -
  obtain committed m1 where c: "commit_victims now (victims plan) m = (committed, m1)" by force
  have "mTable (snd (startEviction e m now name node sh plan)) = mTable m1"
    by (auto simp: startEviction_def c destroy_all_table Let_def parkEvicted_def split: option.split prod.split sum.split)
  then show ?thesis using commit_victims_refines [OF c] refines_same refines_trans by blast
qed

lemma rollback_start_refines: "rollback_start m now i = Some m' \<Longrightarrow> refines m m'"
  by (auto simp: rollback_start_def Let_def split: sum.splits if_splits
      intro!: refines_update [where f = clear_pairing]) (auto simp: clear_pairing_def)

lemma rollback_finish_refines: "refines m (rollback_finish m now ok i node profile)"
  by (auto simp: rollback_finish_def fallbackDestroy_def UpdateState_eq split: sum.split option.split
      intro: refines_cas)

lemma classify_states:
  "classifyAdoption pw pv runners = (st, kind, rid) \<Longrightarrow> st \<in> {StateWarm, StateHot, StateAssigned, StateRunning}"
  by (auto simp: classifyAdoption_def adoptionMatrix_def Let_def split: option.splits if_splits)

lemma refines_insert:
  assumes "Insert (mTable m) now v = Inr T'" and "mTable m' = T'"
    and "StateOf v \<in> {StateWarm, StateHot, StateAssigned, StateRunning, StateRecycling}"
  shows "refines m m'"
proof -
  have v: "0 < VMID v" "txn_first (mTable m) (VMID v) = None" "T' = put (mTable m) (stamp_new now v)"
    using assms(1) by (simp_all add: Insert_Inr)
  have "lifecycle m' = (lifecycle m)(VMID v \<mapsto> StateOf v)"
    by (auto simp: lifecycle_def assms(2) v(3) put_first fun_eq_iff)
  moreover have "lifecycle m (VMID v) = None" by (simp add: lifecycle_def v(2))
  moreover have "wf_table (mTable m) \<Longrightarrow> wf_table T'"
    unfolding v(3) using v(1) by (intro wf_put) (auto simp: indexable_def DefaultProfileName_def)
  ultimately show ?thesis
    using assms(2,3) by (auto simp: refines_def intro!: r_into_rtranclp life_step.adopt)
qed

lemma adoptOne_refines: "refines m (adoptOne m now pw runners pv)"
proof -
  obtain st kind rid where c: "classifyAdoption pw pv runners = (st, kind, rid)" by (metis prod_cases3)
  show ?thesis
    using classify_states [OF c]
    by (auto simp: adoptOne_def c Let_def split: sum.split if_splits intro: refines_insert)
qed


lemma guarded_step_refines:
  assumes "row_order ord" and "guarded_step ord m m'"
  shows "refines m m'"
  using assms(2)
proof (cases rule: guarded_step.cases)
  case (desired n)
  then show ?thesis by (simp add: SetDesiredCount_def refines_same)
next
  case (sizes name hot warm)
  then show ?thesis by (auto simp: SetTargetSizes_def Let_def split: option.split prod.split intro: refines_same)
qed (simp_all add: assms(1) Acquire_refines AcquireForProfile_refines SetRunnerID_refines StampJobMetadata_refines
    MarkRunning_refines PromoteToRunning_refines ForceDestroy_refines Preempt_refines MarkCompleted_refines
    shrink_rows_refines recycle_row_refines promote_row_refines startEviction_refines rollback_start_refines
    rollback_finish_refines adoptOne_refines)

text \<open>
  C15. The guarded operations of the pool, interleaved in any order and working from rows read at any
  earlier time, implement the lifecycle: a run of them is a run of the abstract lifecycle machine on
  the states of the VMs. In particular a VM that is draining or being destroyed never comes back.\<close>

theorem guarded_refines_lifecycle:
  assumes "row_order ord" and "wf_table (mTable m)" and "(guarded_step ord)\<^sup>*\<^sup>* m m'"
  shows "life_step\<^sup>*\<^sup>* (lifecycle m) (lifecycle m') \<and>
    (\<forall>i s. lifecycle m i = Some s \<and> (s = StateDraining \<or> s = StateDestroying) \<longrightarrow> lifecycle m' i = Some s)"
proof -
  have "wf_table (mTable m') \<and> life_step\<^sup>*\<^sup>* (lifecycle m) (lifecycle m')"
    using assms(3)
  proof (induction rule: rtranclp_induct)
    case (step a b)
    with guarded_step_refines [OF assms(1) step.hyps(2)] show ?case by (auto simp: refines_def intro: rtranclp_trans)
  qed (use assms(2) in simp)
  then show ?thesis using life_final by blast
qed

definition ex_idle :: manager where
  "ex_idle = ex_pool [ex_vm 100 StateHot, ex_vm 101 StateDraining]"

theorem guarded_refines_lifecycle_witness:
  "lifecycle (snd (ForceDestroy (snd (Acquire (sort_key VMID) ex_idle 9 7 0)) 10 100)) 100 = Some StateDraining \<and>
   lifecycle (snd (ForceDestroy (snd (Acquire (sort_key VMID) ex_idle 9 7 0)) 10 100)) 101 = Some StateDraining"
proof -
  let ?m1 = "snd (Acquire (sort_key VMID) ex_idle 9 7 0)"
  let ?m2 = "snd (ForceDestroy ?m1 10 100)"
  have T: "mTable ex_idle = [ex_vm 100 StateHot, ex_vm 101 StateDraining]" by code_simp
  have wf: "wf_table (mTable ex_idle)" unfolding T by (simp add: wf_table_def ex_vm_def indexable_def)
  have r: "(guarded_step (sort_key VMID))\<^sup>*\<^sup>* ex_idle ?m2"
    using guarded_step.acquire guarded_step.force_destroy by (meson r_into_rtranclp rtranclp.rtrancl_into_rtrancl)
  have "lifecycle ex_idle 101 = Some StateDraining" by (simp add: lifecycle_def T txn_first_def ex_vm_def)
  with guarded_refines_lifecycle [OF by_vmid.row_order_axioms wf r] have "lifecycle ?m2 101 = Some StateDraining" by blast
  moreover have "lifecycle ?m2 100 = Some StateDraining" unfolding lifecycle_def by code_simp
  ultimately show ?thesis by blast
qed

end
