(* ===== verification/Workers.thy ===== *)
theory Workers
  imports Lifecycle
begin

text \<open>
  The whole pool as a transition system: the guarded steps of \<open>Lifecycle\<close> and the steps of the
  goroutines (the sends of admitted destroy requests, dispatcher, destroy, rollback, boot and clone workers), the stuck-row sweep, clone
  dispatch and the shutdown, interleaved in any order. A worker's step takes its entry out of
  \<open>mTasks\<close>, acts on the state as it then is, and gives back the semaphore slot it held. The
  invariants are the bounds that the queue and the semaphores promise.
\<close>

section \<open>Steps\<close>

inductive pool_step :: "(VM list \<Rightarrow> VM list) \<Rightarrow> (int \<Rightarrow> int \<Rightarrow> rat) \<Rightarrow> manager \<Rightarrow> manager \<Rightarrow> bool" for ord fdiv where
  guarded: "guarded_step ord m m' \<Longrightarrow> pool_step ord fdiv m m'"
| send: "req \<in> set (mSending m) \<Longrightarrow> pool_step ord fdiv m (destroySend m req)"
| dispatch: "pool_step ord fdiv m (destroyDispatcher m)"
| destroy_done: "mTasks m = xs @ TDestroy req # ys \<Longrightarrow>
    pool_step ord fdiv m ((destroy m gone (drVMID req))\<lparr>mTasks := xs @ ys, mDestroyFree := mDestroyFree m + 1\<rparr>)"
| roll_begin: "mTasks m = xs @ TRollback i node nm profile # ys \<Longrightarrow> 0 < mDestroyFree m \<Longrightarrow>
    rollback_start m now i = Some m1 \<Longrightarrow>
    pool_step ord fdiv m (m1\<lparr>mTasks := xs @ TRolling i node profile # ys, mDestroyFree := mDestroyFree m - 1\<rparr>)"
| roll_gone: "mTasks m = xs @ TRollback i node nm profile # ys \<Longrightarrow> rollback_start m now i = None \<Longrightarrow>
    pool_step ord fdiv m (m\<lparr>mTasks := xs @ ys\<rparr>)"
| roll_cancelled: "mTasks m = xs @ TRollback i node nm profile # ys \<Longrightarrow> mWorkerCancelled m \<Longrightarrow>
    pool_step ord fdiv m (m\<lparr>mTasks := xs @ ys\<rparr>)"
| roll_end: "mTasks m = xs @ TRolling i node profile # ys \<Longrightarrow>
    pool_step ord fdiv m ((rollback_finish m now ok i node profile)\<lparr>mTasks := xs @ ys, mDestroyFree := mDestroyFree m + 1\<rparr>)"
| boot_end: "mTasks m = xs @ TBoot row # ys \<Longrightarrow>
    pool_step ord fdiv m ((runBoot fdiv m now started ready row)\<lparr>mTasks := xs @ ys, mBootFree := mBootFree m + 1\<rparr>)"
| kick: "pool_step ord fdiv m (kickClone slot profile kind poweredOn m)"
| clone_prepared: "mTasks m = xs @ TClone profile kind poweredOn # ys \<Longrightarrow>
    prepareClone ord sel e cancelled recent ip gone m now profile kind poweredOn = (Some prep, m1) \<Longrightarrow>
    pool_step ord fdiv m (m1\<lparr>mTasks := xs @ TCloning prep # ys\<rparr>)"
| clone_abandoned: "mTasks m = xs @ TClone profile kind poweredOn # ys \<Longrightarrow>
    prepareClone ord sel e cancelled recent ip gone m now profile kind poweredOn = (None, m1) \<Longrightarrow>
    pool_step ord fdiv m (m1\<lparr>mTasks := xs @ ys\<rparr>)"
| cloned: "mTasks m = xs @ TCloning prep # ys \<Longrightarrow>
    runClone_cloned fdiv m now gone ok snapped started prep = (Some row, m1) \<Longrightarrow>
    pool_step ord fdiv m (m1\<lparr>mTasks := xs @ TCloneBoot prep row # ys\<rparr>)"
| clone_ended: "mTasks m = xs @ TCloning prep # ys \<Longrightarrow>
    runClone_cloned fdiv m now gone ok snapped started prep = (None, m1) \<Longrightarrow>
    pool_step ord fdiv m (m1\<lparr>mTasks := xs @ ys\<rparr>)"
| clone_ready: "mTasks m = xs @ TCloneBoot prep row # ys \<Longrightarrow>
    pool_step ord fdiv m ((runClone_ready fdiv m now ready row)\<lparr>mTasks := xs @ ys\<rparr>)"
| sweep: "pool_step ord fdiv m (sweep_row now m row)"
| drain_start: "pool_step ord fdiv m (drain_begin m)"
| drain_finish: "pool_step ord fdiv m (drain_end names m)"

inductive_cases pool_stepE: "pool_step ord fdiv m m'"

section \<open>The invariant\<close>

fun holds_destroy :: "task \<Rightarrow> bool" where
  "holds_destroy (TDestroy _) = True"
| "holds_destroy (TRolling _ _ _) = True"
| "holds_destroy _ = False"

fun holds_boot :: "task \<Rightarrow> bool" where
  "holds_boot (TBoot _) = True"
| "holds_boot _ = False"

fun waits_rollback :: "task \<Rightarrow> bool" where
  "waits_rollback (TRollback _ _ _ _) = True"
| "waits_rollback _ = False"

definition pool_ok :: "manager \<Rightarrow> bool" where
  "pool_ok m \<longleftrightarrow> wf_table (mTable m) \<and> length (mQueue m) \<le> destroyQueueCap \<and>
     0 \<le> mDestroyFree m \<and> mDestroyFree m + int (length (filter holds_destroy (mTasks m))) = 8 \<and>
     0 \<le> mBootFree m \<and> mBootFree m + int (length (filter holds_boot (mTasks m))) = 16"

text \<open>
  What most operations do to the workers: they keep every slot, every task and the queue, add at most
  rollbacks and requests, and none of either once the pool is draining.
\<close>

definition calm :: "manager \<Rightarrow> manager \<Rightarrow> bool" where
  "calm m m' \<longleftrightarrow> mDestroyFree m' = mDestroyFree m \<and> mBootFree m' = mBootFree m \<and> mDraining m' = mDraining m \<and>
     (\<exists>new. mTasks m' = mTasks m @ new \<and> list_all waits_rollback new \<and> (mDraining m \<longrightarrow> new = [])) \<and>
     mQueue m' = mQueue m \<and> (mDraining m \<longrightarrow> mSending m' = mSending m)"

lemma calm_refl [simp]: "calm m m"
  by (simp add: calm_def)

lemma calm_trans [trans]: "calm a b \<Longrightarrow> calm b c \<Longrightarrow> calm a c"
  by (fastforce simp: calm_def)

lemma calm_same:
  "mDestroyFree m' = mDestroyFree m \<Longrightarrow> mBootFree m' = mBootFree m \<Longrightarrow> mDraining m' = mDraining m \<Longrightarrow>
   mTasks m' = mTasks m \<Longrightarrow> mSending m' = mSending m \<Longrightarrow> mQueue m' = mQueue m \<Longrightarrow> calm m m'"
  by (simp add: calm_def)

lemma calm_frame [simp]:
  "calm m (SignalRefill s) = calm m s" "calm m (signalProfileRefill s p) = calm m s" "calm m (s\<lparr>mTable := T\<rparr>) = calm m s"
  "calm m (s\<lparr>mAcct := a\<rparr>) = calm m s" "calm m (s\<lparr>mCanary := c\<rparr>) = calm m s" "calm m (s\<lparr>mProfiles := ps\<rparr>) = calm m s"
  "calm m (s\<lparr>mDeregistered := d\<rparr>) = calm m s" "calm m (s\<lparr>mIPReleased := r\<rparr>) = calm m s" "calm m (s\<lparr>mDesired := n\<rparr>) = calm m s"
  "calm m (try_update s now i f) = calm m s"
  by (simp_all add: calm_def)

lemma calm_destroyAsync: "calm m s \<Longrightarrow> calm m (destroyAsync s i n p)"
  by (auto simp: calm_def destroyAsync_sending)

lemma calm_rollbackAsync: "calm m s \<Longrightarrow> calm m (rollbackAsync s i n nm p)"
  by (auto simp: calm_def rollbackAsync_def)

lemmas calm_intros = calm_destroyAsync calm_rollbackAsync

lemma calm_claims [simp]: "calm m (claim_release s c) = calm m s" "calm m (claim_bind s c i) = calm m s"
  "calm m (add_pending s p d) = calm m s" "calm m (recordCapacityDeferral s n k) = calm m s"
  "calm m (parkEvicted s now n nd r) = calm m s" "calm m (parkAll s n rs) = calm m s"
  by (auto simp: claim_release_def claim_bind_def add_pending_def recordCapacityDeferral_def parkEvicted_def parkAll_def
      Let_def split: option.split)


section \<open>Operations that leave the workers alone\<close>

lemma Acquire_calm: "calm m (snd (Acquire ord m now job maxBusy))"
  by (auto simp: Acquire_def split: sum.split store_error.split)

lemma handlers_calm:
  "calm m (snd (AcquireForProfile ord m now job profile maxBusy))" "calm m (snd (SetRunnerID m now i rid))"
  "calm m (snd (StampJobMetadata m now i meta))" "calm m (snd (MarkRunning m now i rid))"
  "calm m (snd (PromoteToRunning m now i rid job))" "calm m (snd (ForceDestroy m now i))"
  "calm m (snd (Preempt_from m now i row))" "calm m (snd (MarkCompleted_from m now i row))"
  by (auto simp: AcquireForProfile_def Acquire_calm SetRunnerID_def StampJobMetadata_def MarkRunning_def PromoteToRunning_def
      ForceDestroy_def Preempt_from_def MarkCompleted_from_def Let_def
      split: sum.split store_error.split option.split intro!: calm_intros)

lemma shrink_rows_calm: "calm m0 m \<Longrightarrow> calm m0 (shrink_rows st profile now n rows m)"
  by (induction st profile now n rows m rule: shrink_rows.induct)
    (auto simp: calm_destroyAsync split: sum.split option.split)

lemma recycle_row_calm: "calm m (recycle_row profile now maxAge m row)"
  by (auto simp: recycle_row_def split: sum.split option.split intro!: calm_intros)

lemma sweep_row_calm: "calm m (sweep_row now m row)"
  by (auto simp: sweep_row_def split: sum.split intro!: calm_intros)

lemma commit_victims_calm: "calm m0 m \<Longrightarrow> commit_victims now vs m = (c, m') \<Longrightarrow> calm m0 m'"
proof (induction vs arbitrary: m c)
  case (Cons v vs)
  from Cons.prems(1) have t: "calm m0 (m\<lparr>mTable := T\<rparr>)" for T by simp
  show ?case
    using Cons.prems Cons.IH [OF t] by (auto split: sum.splits option.splits prod.splits if_splits)
qed simp

lemma destroy_all_calm:
  "calm m0 s \<Longrightarrow> calm m0 (foldl (\<lambda>s v. destroyAsync s (VMID (ecRow v)) (Node (ecRow v)) (Profile (ecRow v))) s cs)"
  by (induction cs arbitrary: s) (auto intro!: calm_intros)

lemma startEviction_calm: "calm m (snd (startEviction e m now name node sh plan))"
proof -
  obtain committed m1 where c: "commit_victims now (victims plan) m = (committed, m1)" by force
  have "calm m m1" by (rule commit_victims_calm [OF calm_refl c])
  then show ?thesis
    by (auto simp: startEviction_def c Let_def split: option.split prod.split sum.split intro!: destroy_all_calm)
qed

lemma rollback_calm: "rollback_start m now i = Some m' \<Longrightarrow> calm m m'" "calm m (rollback_finish m now ok i node profile)"
  by (auto simp: rollback_start_def rollback_finish_def fallbackDestroy_def Let_def
      split: sum.splits option.splits if_splits intro!: calm_intros)

lemma adoptOne_calm: "calm m (adoptOne m now pw runners pv)"
  by (auto simp: adoptOne_def Let_def split: prod.split sum.split intro!: calm_intros)

lemma sizes_calm: "calm m (SetDesiredCount m n)" "calm m (snd (SetTargetSizes m name hot warm))"
  by (auto simp: SetDesiredCount_def SetTargetSizes_def Let_def split: option.split prod.split)

lemma destroy_calm: "calm m (destroy m gone i)"
  by (auto simp: destroy_def Let_def split: prod.split option.split)

lemma markPoison_calm: "calm m0 m \<Longrightarrow> calm m0 (markPoisonOrDestroy fdiv m now row)"
  by (auto simp: markPoisonOrDestroy_def Let_def split: sum.split option.split intro!: calm_intros)

lemma boot_calm: "calm m0 m \<Longrightarrow> calm m0 (runBootInline fdiv m now ready row)" "calm m0 m \<Longrightarrow> calm m0 (runBoot fdiv m now started ready row)"
  by (auto simp: runBootInline_def runBoot_def markPoison_calm)

lemma fallback_calm: "calm m0 m \<Longrightarrow> calm m0 (destroyOrSyncFallback m gone i node profile)"
  by (auto simp: destroyOrSyncFallback_def intro!: calm_intros)

lemma cloneFailure_calm: "calm m0 m \<Longrightarrow> calm m0 (handleCloneFailure m now gone prep)"
  by (auto simp: handleCloneFailure_def intro!: fallback_calm)

lemma runClone_calm:
  "runClone_cloned fdiv m now gone ok snapped started prep = (r, m') \<Longrightarrow> calm m m'"
  by (auto simp: runClone_cloned_def Let_def split: if_splits sum.splits store_error.splits
      intro!: cloneFailure_calm fallback_calm markPoison_calm)

lemma release_all_calm [simp]: "calm m (foldl (\<lambda>s p. claim_release s (Some (parkRes p))) s rs) = calm m s"
  by (induction rs arbitrary: s) simp_all

lemma scan_parked_calm: "scan_parked elig ps (c, k, m) = (c', k', m') \<Longrightarrow> calm m0 m \<Longrightarrow> calm m0 m'"
  by (induction elig ps "(c, k, m)" arbitrary: c k m rule: scan_parked.induct)
    (auto split: if_splits prod.splits bool.splits)

lemma claimParked_calm: "claimParked ord sel m now name = (r, m') \<Longrightarrow> calm m m'"
proof -
  obtain parked m0 where d: "drainEvicted m now name = (parked, m0)" by force
  have m0: "calm m m0" using d by (auto simp: drainEvicted_def Let_def split: option.splits)
  assume "claimParked ord sel m now name = (r, m')"
  with d m0 show "calm m m'"
    by (auto simp: claimParked_def Let_def split: if_splits prod.splits dest: scan_parked_calm)
qed

lemma admitClone_calm: "admitClone ord sel e m now name settings kind = (r, m') \<Longrightarrow> calm m m'"
  by (auto simp: admitClone_def selectNode_def reserveCapacity_def Let_def
      split: if_splits prod.splits option.splits sum.splits selector_error.splits
      dest!: claimParked_calm)

lemma prepareClone_calm:
  assumes "prepareClone ord sel e cancelled recent ip gone m now profile kind poweredOn = (r, m')"
  shows "calm m m'"
  using assms
  by (auto simp: prepareClone_def allocateVMIDAndInsertRow_def Let_def
      split: option.splits prod.splits sum.splits if_splits dest!: admitClone_calm intro!: cloneFailure_calm)

lemma drain_end_calm: "calm m (drain_end names m)"
proof -
  have "calm m0 (release_profile s name) = calm m0 s" for m0 s name
    by (auto simp: release_profile_def split: option.split)
  then have "calm m0 (foldl release_profile s names) = calm m0 s" for m0 s
    by (induction names arbitrary: s) simp_all
  then have "calm m (foldl release_profile m names)" by simp
  then show ?thesis by (simp add: drain_end_def releaseParkedReservations_def calm_def)
qed


section \<open>The table stays well formed\<close>

lemma destroy_wf: "wf_table (mTable m) \<Longrightarrow> wf_table (mTable (destroy m gone i))"
  by (auto simp: destroy_def DeleteAndReturn_def Let_def wf_delete split: option.split)

lemma markPoison_wf:
  assumes "wf_table (mTable m)"
  shows "wf_table (mTable (markPoisonOrDestroy fdiv m now row))"
proof (cases "txn_first (mTable m) (VMID row)")
  case None
  then have "Update (mTable m) now (VMID row) (\<lambda>v. v\<lparr>BootAttempts := BootAttempts v + 1\<rparr>) = Inl ErrNotFound"
    by (simp add: Update_def updateInTxn_def)
  then show ?thesis using assms by (simp add: markPoisonOrDestroy_def)
next
  case (Some v)
  let ?f = "\<lambda>v. v\<lparr>BootAttempts := BootAttempts v + 1\<rparr>"
  have f: "VMID (?f u) = VMID u \<and> Profile (?f u) = Profile u \<and> CreatedAt (?f u) = CreatedAt u" for u :: VM by simp
  have w: "wf_table (mTable s) \<Longrightarrow> wf_table (mTable (try_update s now (VMID row) (set_state now st)))" for s :: manager and st
    by (rule try_update_row(1)) (auto simp: set_state_def)
  from assms f obtain u T' where "Update (mTable m) now (VMID row) ?f = Inr (u, T')" "wf_table T'"
    by (cases rule: update_cases [where f = ?f and now = now and i = "VMID row"]) (use Some in auto)
  then show ?thesis by (auto simp: markPoisonOrDestroy_def Let_def split: option.split intro!: w)
qed

lemma boot_wf: "wf_table (mTable m) \<Longrightarrow> wf_table (mTable (runBootInline fdiv m now ready row))"
  "wf_table (mTable m) \<Longrightarrow> wf_table (mTable (runBoot fdiv m now started ready row))"
  by (auto simp: runBoot_def runBootInline_def set_state_def intro!: markPoison_wf try_update_row(1))

lemma claim_table [simp]: "mTable (claim_release m c) = mTable m" "mTable (claim_bind m c i) = mTable m"
  "mTable (add_pending m p d) = mTable m" "mTable (recordCapacityDeferral m n k) = mTable m" "mTable (parkAll m n rs) = mTable m"
  by (auto simp: claim_release_def claim_bind_def add_pending_def recordCapacityDeferral_def parkAll_def Let_def split: option.split)

lemma fallback_wf: "wf_table (mTable m) \<Longrightarrow> wf_table (mTable (destroyOrSyncFallback m gone i node profile))"
  by (auto simp: destroyOrSyncFallback_def Delete_def wf_delete split: option.split)

lemma cloneFailure_wf: "wf_table (mTable m) \<Longrightarrow> wf_table (mTable (handleCloneFailure m now gone prep))"
  by (auto simp: handleCloneFailure_def set_state_def intro!: fallback_wf try_update_row(1))

lemma runClone_wf:
  assumes "wf_table (mTable m)" and "runClone_cloned fdiv m now gone ok snapped started prep = (r, m')"
  shows "wf_table (mTable m')"
proof -
  let ?f = "\<lambda>v. (set_state now (if cpPoweredOn prep then StateBooting else StateWarm) v)\<lparr>HasRecycleSnapshot := snapshotRecycle m \<and> snapped\<rparr>"
  have f: "VMID (?f u) = VMID u \<and> Profile (?f u) = Profile u \<and> CreatedAt (?f u) = CreatedAt u" for u by (simp add: set_state_def)
  show ?thesis
    by (rule update_cases [OF assms(1) f, of now "cpVMID prep"])
      (use assms in \<open>auto simp: runClone_cloned_def Let_def split: if_splits intro!: cloneFailure_wf fallback_wf markPoison_wf\<close>)
qed

lemma scan_parked_table: "scan_parked elig ps (c, k, m) = (c', k', m') \<Longrightarrow> mTable m' = mTable m"
  by (induction elig ps "(c, k, m)" arbitrary: c k m rule: scan_parked.induct)
    (fastforce split: if_splits prod.splits bool.splits)+

lemma claimParked_table: "claimParked ord sel m now name = (r, m') \<Longrightarrow> mTable m' = mTable m"
proof -
  obtain parked m0 where d: "drainEvicted m now name = (parked, m0)" by force
  assume "claimParked ord sel m now name = (r, m')"
  with d drainEvicted_frame(2) [OF d] show "mTable m' = mTable m"
    by (auto simp: claimParked_def Let_def split: if_splits prod.splits dest: scan_parked_table)
qed

lemma admitClone_table: "admitClone ord sel e m now name settings kind = (r, m') \<Longrightarrow> mTable m' = mTable m"
  by (auto simp: admitClone_def selectNode_def reserveCapacity_def Let_def
      split: if_splits prod.splits option.splits sum.splits selector_error.splits
      dest!: claimParked_table)

lemma insert_wf: "wf_table T \<Longrightarrow> Insert T now v = Inr T' \<Longrightarrow> wf_table T'"
  by (auto simp: Insert_Inr indexable_def DefaultProfileName_def intro!: wf_put)

lemma prepareClone_wf:
  assumes "wf_table (mTable m)" and "prepareClone ord sel e cancelled recent ip gone m now profile kind poweredOn = (r, m')"
  shows "wf_table (mTable m')"
  using assms
  by (auto simp: prepareClone_def allocateVMIDAndInsertRow_def Let_def
      split: option.splits prod.splits sum.splits if_splits
      dest!: admitClone_table intro!: cloneFailure_wf intro: insert_wf)

lemma sweep_wf: "wf_table (mTable m) \<Longrightarrow> wf_table (mTable (sweep_row now m row))"
proof -
  let ?f = "\<lambda>v. v\<lparr>StateOf := StateDraining, StateSince := now\<rparr>"
  have f: "VMID (?f u) = VMID u \<and> Profile (?f u) = Profile u \<and> CreatedAt (?f u) = CreatedAt u" for u :: VM by simp
  assume wf: "wf_table (mTable m)"
  show ?thesis by (rule update_cases [OF wf f, of now "VMID row"]) (use wf in \<open>auto simp: sweep_row_def\<close>)
qed

lemma drain_end_table: "mTable (drain_end names m) = mTable m"
proof -
  have "mTable (release_profile s name) = mTable s" for s :: manager and name
    by (auto simp: release_profile_def split: option.split)
  then have "mTable (foldl release_profile s names) = mTable s" for s :: manager
    by (induction names arbitrary: s) simp_all
  then show ?thesis by (simp add: drain_end_def releaseParkedReservations_def)
qed


section \<open>Invariants of every run\<close>

lemma calm_ok:
  assumes "calm m m'" and "wf_table (mTable m) \<Longrightarrow> wf_table (mTable m')" and "pool_ok m"
  shows "pool_ok m'"
proof -
  from assms(1) obtain new where n: "mTasks m' = mTasks m @ new" "list_all waits_rollback new" by (auto simp: calm_def)
  have "waits_rollback t \<Longrightarrow> \<not> holds_destroy t \<and> \<not> holds_boot t" for t by (cases t) auto
  with n(2) have "filter holds_destroy new = []" "filter holds_boot new = []" by (auto simp: filter_empty_conv list_all_iff)
  with assms n show ?thesis by (auto simp: pool_ok_def calm_def)
qed

lemma guarded_cases:
  assumes "guarded_step ord m m'"
  obtains "calm m m'" | now row where "m' = promote_row now m row"
  using assms
  by (cases rule: guarded_step.cases)
    (use that in \<open>auto simp: Acquire_calm handlers_calm shrink_rows_calm recycle_row_calm startEviction_calm
      rollback_calm adoptOne_calm sizes_calm\<close>)

lemma promote_row_shape:
  "promote_row now m row = m \<or>
   (\<exists>T'. 0 < mBootFree m \<and> promote_row now m row = m\<lparr>mTable := T', mBootFree := mBootFree m - 1, mTasks := mTasks m @ [TBoot row]\<rparr>)"
  by (auto simp: promote_row_def split: sum.split option.split)

lemma guarded_ok:
  assumes "row_order ord" and "guarded_step ord m m'" and "pool_ok m"
  shows "pool_ok m'"
proof -
  have wf: "wf_table (mTable m) \<Longrightarrow> wf_table (mTable m')"
    using guarded_step_refines [OF assms(1,2)] by (simp add: refines_def)
  from assms(2) show ?thesis
  proof (cases rule: guarded_cases)
    case 1
    then show ?thesis using wf assms(3) by (rule calm_ok)
  next
    case (2 now row)
    with promote_row_shape [of now m row] wf assms(3) show ?thesis by (auto simp: pool_ok_def)
  qed
qed

text \<open>A worker's step: the operation, the task replaced or removed, the slots adjusted.\<close>

lemma worker_ok:
  assumes "calm m s" and "wf_table (mTable m) \<Longrightarrow> wf_table (mTable s)" and "pool_ok m" and "mTasks m = xs @ t # ys"
    and "mTasks m' = xs @ ts @ ys" and "mTable m' = mTable s" and "mQueue m' = mQueue s"
    and "mDestroyFree m' + int (length (filter holds_destroy ts)) = mDestroyFree m + int (length (filter holds_destroy [t]))"
    and "mBootFree m' + int (length (filter holds_boot ts)) = mBootFree m + int (length (filter holds_boot [t]))"
    and "0 \<le> mDestroyFree m'" and "0 \<le> mBootFree m'"
  shows "pool_ok m'"
  using assms by (auto simp: pool_ok_def calm_def split: if_splits)

lemma dispatcher_ok: "pool_ok m \<Longrightarrow> pool_ok (destroyDispatcher m)"
  by (auto simp: destroyDispatcher_def drainDestroyQueueLocked_def pool_ok_def split: option.split list.split)

lemma step_ok:
  assumes "row_order ord" and "pool_step ord fdiv m m'" and "pool_ok m"
  shows "pool_ok m'"
  using assms(2)
proof (cases rule: pool_step.cases)
  case guarded
  then show ?thesis using assms guarded_ok by blast
next
  case (send req)
  then show ?thesis using assms(3) by (auto simp: pool_ok_def)
next
  case dispatch
  then show ?thesis using assms(3) dispatcher_ok by simp
next
  case (destroy_done xs req ys gone)
  then show ?thesis using assms(3)
    by (intro worker_ok [where s = "destroy m gone (drVMID req)" and ts = "[]", OF destroy_calm destroy_wf assms(3)]) (auto simp: pool_ok_def destroy_calm [unfolded calm_def])
next
  case (roll_begin xs i node nm profile ys now m1)
  then show ?thesis using assms(3) rollback_calm(1) rollback_start_refines
    by (intro worker_ok [where s = m1 and ts = "[TRolling i node profile]", OF _ _ assms(3)]) (auto simp: pool_ok_def refines_def dest: rollback_calm(1) [unfolded calm_def])
next
  case (roll_gone xs i node nm profile ys)
  then show ?thesis using assms(3)
    by (intro worker_ok [where s = m and ts = "[]", OF calm_refl _ assms(3)]) (auto simp: pool_ok_def)
next
  case (roll_cancelled xs i node nm profile ys)
  then show ?thesis using assms(3)
    by (intro worker_ok [where s = m and ts = "[]", OF calm_refl _ assms(3)]) (auto simp: pool_ok_def)
next
  case (roll_end xs i node profile ys now ok)
  then show ?thesis using assms(3) rollback_finish_refines [of m now ok i node profile]
    by (intro worker_ok [where s = "rollback_finish m now ok i node profile" and ts = "[]", OF rollback_calm(2) _ assms(3)])
      (auto simp: pool_ok_def refines_def rollback_calm(2) [unfolded calm_def])
next
  case (boot_end xs row ys now started ready)
  then show ?thesis using assms(3) boot_calm(2) [OF calm_refl, of m fdiv now started ready row]
    by (intro worker_ok [where s = "runBoot fdiv m now started ready row" and ts = "[]", OF _ boot_wf(2) assms(3)])
      (auto simp: pool_ok_def calm_def)
next
  case (kick slot profile kind poweredOn)
  then show ?thesis using assms(3)
    by (auto simp: kickClone_def add_pending_def pool_ok_def Let_def split: option.split)
next
  case (clone_prepared xs profile kind poweredOn ys sel e cancelled recent ip gone now prep m1)
  then show ?thesis using assms(3) prepareClone_calm [OF clone_prepared(3)] prepareClone_wf [OF _ clone_prepared(3)]
    by (intro worker_ok [where s = m1 and ts = "[TCloning prep]", OF _ _ assms(3)]) (auto simp: pool_ok_def calm_def)
next
  case (clone_abandoned xs profile kind poweredOn ys sel e cancelled recent ip gone now m1)
  then show ?thesis using assms(3) prepareClone_calm [OF clone_abandoned(3)] prepareClone_wf [OF _ clone_abandoned(3)]
    by (intro worker_ok [where s = m1 and ts = "[]", OF _ _ assms(3)]) (auto simp: pool_ok_def calm_def)
next
  case (cloned xs prep ys now gone ok snapped started row m1)
  then show ?thesis using assms(3) runClone_calm [OF cloned(3)] runClone_wf [OF _ cloned(3)]
    by (intro worker_ok [where s = m1 and ts = "[TCloneBoot prep row]", OF _ _ assms(3)]) (auto simp: pool_ok_def calm_def)
next
  case (clone_ended xs prep ys now gone ok snapped started m1)
  then show ?thesis using assms(3) runClone_calm [OF clone_ended(3)] runClone_wf [OF _ clone_ended(3)]
    by (intro worker_ok [where s = m1 and ts = "[]", OF _ _ assms(3)]) (auto simp: pool_ok_def calm_def)
next
  case (clone_ready xs prep row ys now ready)
  have "calm m (runClone_ready fdiv m now ready row)" by (simp add: runClone_ready_def boot_calm)
  with clone_ready assms(3) boot_wf(1) show ?thesis
    by (intro worker_ok [where s = "runClone_ready fdiv m now ready row" and ts = "[]", OF _ _ assms(3)])
      (auto simp: pool_ok_def calm_def runClone_ready_def)
next
  case (sweep now row)
  then show ?thesis using assms(3) calm_ok [OF sweep_row_calm sweep_wf] by simp
next
  case drain_start
  then show ?thesis using assms(3) by (simp add: drain_begin_def pool_ok_def)
next
  case (drain_finish names)
  then show ?thesis using assms(3) calm_ok [OF drain_end_calm] by (simp add: drain_end_table)
qed

lemma NewManager_ok: "NewManager cfg T acct can = Inr m \<Longrightarrow> wf_table T \<Longrightarrow> pool_ok m"
  by (auto simp: NewManager_def Let_def pool_ok_def destroyQueueCap_def split: option.splits if_splits)



definition ex_forced :: manager where
  "ex_forced = snd (ForceDestroy (ex_pool [ex_vm 100 StateHot]) 9 100)"


section \<open>Shutdown\<close>

definition rollbacks :: "manager \<Rightarrow> nat" where
  "rollbacks m = length (filter waits_rollback (mTasks m))"

text \<open>The destroys that have been admitted and that no worker has yet: on their way to the queue, or in it.\<close>

definition admitted :: "manager \<Rightarrow> destroyRequest multiset" where
  "admitted m = mset (mSending m) + mset (mQueue m)"

definition winds_down :: "manager \<Rightarrow> manager \<Rightarrow> bool" where
  "winds_down m m' \<longleftrightarrow> (mDraining m \<longrightarrow> mDraining m' \<and> mset (mSending m') \<subseteq># mset (mSending m) \<and>
     admitted m' \<subseteq># admitted m \<and> rollbacks m' \<le> rollbacks m)"

lemma winds_down_trans: "winds_down a b \<Longrightarrow> winds_down b c \<Longrightarrow> winds_down a c"
  unfolding winds_down_def by (meson order_trans subset_mset.order_trans)

lemma calm_admitted: "calm m m' \<Longrightarrow> mDraining m \<Longrightarrow> admitted m' = admitted m"
  by (simp add: calm_def admitted_def)

lemma send_winds_down:
  assumes "req \<in> set (mSending m)"
  shows "winds_down m (destroySend m req)"
proof -
  have "mset (mSending m) = add_mset req (mset (remove1 req (mSending m)))" using assms by simp
  then show ?thesis by (auto simp: winds_down_def rollbacks_def admitted_def)
qed

lemma dispatcher_winds_down: "winds_down m (destroyDispatcher m)"
  by (auto simp: winds_down_def rollbacks_def admitted_def destroyDispatcher_def drainDestroyQueueLocked_def split: option.split list.split)

lemma calm_winds_down: "calm m m' \<Longrightarrow> winds_down m m'"
  by (auto simp: calm_def winds_down_def rollbacks_def admitted_def)

lemma worker_winds_down:
  assumes "calm m s" and "mTasks m = xs @ t # ys" and "mTasks m' = xs @ ts @ ys"
    and "mSending m' = mSending s" and "mQueue m' = mQueue s" and "mDraining m' = mDraining s" and "list_all (\<lambda>u. \<not> waits_rollback u) ts"
  shows "winds_down m m'"
proof -
  have "filter waits_rollback ts = []" using assms(7) by (auto simp: filter_empty_conv list_all_iff)
  with assms(1-6) show ?thesis by (auto simp: winds_down_def rollbacks_def calm_def admitted_def)
qed

lemma step_winds_down:
  assumes "pool_step ord fdiv m m'"
  shows "winds_down m m'"
  using assms
proof (cases rule: pool_step.cases)
  case guarded
  from guarded show ?thesis
  proof (cases rule: guarded_cases)
    case 1
    then show ?thesis by (rule calm_winds_down)
  next
    case (2 now row)
    with promote_row_shape [of now m row] show ?thesis by (auto simp: winds_down_def rollbacks_def admitted_def)
  qed
next
  case (send req)
  then show ?thesis using send_winds_down by simp
next
  case dispatch
  then show ?thesis using dispatcher_winds_down by simp
next
  case (destroy_done xs req ys gone)
  then show ?thesis by (intro worker_winds_down [OF destroy_calm, where ts = "[]"]) auto
next
  case (roll_begin xs i node nm profile ys now m1)
  then show ?thesis by (intro worker_winds_down [OF rollback_calm(1), where ts = "[TRolling i node profile]"]) auto
next
  case (roll_gone xs i node nm profile ys)
  then show ?thesis by (intro worker_winds_down [OF calm_refl, where ts = "[]"]) auto
next
  case (roll_cancelled xs i node nm profile ys)
  then show ?thesis by (intro worker_winds_down [OF calm_refl, where ts = "[]"]) auto
next
  case (roll_end xs i node profile ys now ok)
  then show ?thesis by (intro worker_winds_down [OF rollback_calm(2), where ts = "[]"]) auto
next
  case (boot_end xs row ys now started ready)
  then show ?thesis by (intro worker_winds_down [OF boot_calm(2) [OF calm_refl], where ts = "[]"]) auto
next
  case (kick slot profile kind poweredOn)
  then show ?thesis by (auto simp: winds_down_def rollbacks_def admitted_def kickClone_def add_pending_def Let_def split: option.split)
next
  case (clone_prepared xs profile kind poweredOn ys sel e cancelled recent ip gone now prep m1)
  then show ?thesis by (intro worker_winds_down [OF prepareClone_calm, where ts = "[TCloning prep]"]) auto
next
  case (clone_abandoned xs profile kind poweredOn ys sel e cancelled recent ip gone now m1)
  then show ?thesis by (intro worker_winds_down [OF prepareClone_calm, where ts = "[]"]) auto
next
  case (cloned xs prep ys now gone ok snapped started row m1)
  then show ?thesis by (intro worker_winds_down [OF runClone_calm, where ts = "[TCloneBoot prep row]"]) auto
next
  case (clone_ended xs prep ys now gone ok snapped started m1)
  then show ?thesis by (intro worker_winds_down [OF runClone_calm, where ts = "[]"]) auto
next
  case (clone_ready xs prep row ys now ready)
  have "calm m (runClone_ready fdiv m now ready row)" by (simp add: runClone_ready_def boot_calm)
  with clone_ready show ?thesis by (intro worker_winds_down [where ts = "[]"]) auto
next
  case (sweep now row)
  then show ?thesis using calm_winds_down [OF sweep_row_calm] by simp
next
  case drain_start
  then show ?thesis by (simp add: drain_begin_def winds_down_def rollbacks_def admitted_def)
next
  case (drain_finish names)
  then show ?thesis using calm_winds_down [OF drain_end_calm] by simp
qed

text \<open>
  C17. Once the shutdown has begun, no step of any kind admits another destroy or rollback: what may
  still reach the queue are the requests that had passed the gate of \<^verbatim>\<open>destroyAsync\<close> by then, the
  requests on their way and those queued, together, only shrink, as do the rollbacks, and the shutdown
  is not undone. This holds even for the destroy of a VM whose clone fails during the shutdown while the
  workers still run: its row is left behind as destroying and nothing is admitted for it.\<close>

theorem drain_adds_no_work:
  assumes "mDraining m" and "(pool_step ord fdiv)\<^sup>*\<^sup>* m m'"
  shows "mDraining m' \<and> mset (mSending m') \<subseteq># mset (mSending m) \<and> admitted m' \<subseteq># admitted m \<and> rollbacks m' \<le> rollbacks m \<and>
    (wf_table (mTable m) \<and> \<not> mWorkerCancelled m \<and> txn_first (mTable m) (cpVMID prep) = Some v \<longrightarrow>
      map_option StateOf (txn_first (mTable (handleCloneFailure m now gone prep)) (cpVMID prep)) = Some StateDestroying \<and>
      admitted (handleCloneFailure m now gone prep) = admitted m)"
proof (intro conjI impI)
  have "winds_down m m'"
    using assms(2)
  proof (induction rule: rtranclp_induct)
    case (step a b)
    then show ?case using step_winds_down winds_down_trans by blast
  qed (simp add: winds_down_def)
  with assms(1) show "mDraining m'" "mset (mSending m') \<subseteq># mset (mSending m)" "admitted m' \<subseteq># admitted m" "rollbacks m' \<le> rollbacks m"
    by (simp_all add: winds_down_def)
next
  assume h: "wf_table (mTable m) \<and> \<not> mWorkerCancelled m \<and> txn_first (mTable m) (cpVMID prep) = Some v"
  let ?s = "claim_release m (cpClaim prep)"
  have f: "mTable ?s = mTable m" "mWorkerCancelled ?s = mWorkerCancelled m" "mDraining ?s = mDraining m"
    by (auto simp: claim_release_def split: option.split)
  with h set_state_row [of ?s "cpVMID prep" v now now StateDestroying]
  show "map_option StateOf (txn_first (mTable (handleCloneFailure m now gone prep)) (cpVMID prep)) = Some StateDestroying"
    by (simp add: handleCloneFailure_def destroyOrSyncFallback_def set_state_def)
  show "admitted (handleCloneFailure m now gone prep) = admitted m"
    by (rule calm_admitted [OF cloneFailure_calm [OF calm_refl] assms(1)])
qed

theorem drain_adds_no_work_witness:
  "admitted (snd (ForceDestroy (drain_begin ex_forced) 9 100)) \<subseteq># {#hd (mSending ex_forced)#} \<and>
   admitted (destroySend (drain_begin ex_forced) (hd (mSending ex_forced))) \<subseteq># {#hd (mSending ex_forced)#} \<and>
   mQueue (destroySend (drain_begin ex_forced) (hd (mSending ex_forced))) = [hd (mSending ex_forced)]"
proof -
  let ?m = "drain_begin ex_forced" and ?r = "hd (mSending ex_forced)"
  have d: "mDraining ?m" and s: "mSending ?m = [?r]" "mQueue ?m = []" and q: "mQueue (destroySend ?m ?r) = [?r]" by code_simp+
  have f: "(pool_step (sort_key VMID) (\<lambda>a b. 0))\<^sup>*\<^sup>* ?m (snd (ForceDestroy ?m 9 100))"
    by (intro r_into_rtranclp pool_step.guarded guarded_step.force_destroy)
  have t: "(pool_step (sort_key VMID) (\<lambda>a b. 0))\<^sup>*\<^sup>* ?m (destroySend ?m ?r)"
    by (intro r_into_rtranclp pool_step.send) (simp add: s)
  have a: "admitted ?m = {#?r#}" by (simp add: admitted_def s)
  show ?thesis using drain_adds_no_work [OF d f] drain_adds_no_work [OF d t] q unfolding a by blast
qed

end
