(* ===== verification/GhReconciler.thy ===== *)
theory GhReconciler
  imports Manager Tags "HOL-Library.Sublist"
begin

text \<open>
  The GitHub reconciler (\<^verbatim>\<open>internal/gh/reconciler.go\<close>) and the scope it is configured with
  (\<^verbatim>\<open>internal/githubauth/githubauth.go\<close>): the listing of the runners, the table of actions it
  takes on the pool's rows, and the two orphan sweeps with their grace clocks.

  The GitHub API and Proxmox are arguments: a page reply, a removal reply or a listing is what the call
  returned. A Go map of runners is a partial function together with the order in which the loop meets
  its keys. The actions on the pool are the handlers of the pool manager.
\<close>

section \<open>Configuration\<close>

record GhScope =
  scOrg :: string
  scRepo :: string

datatype gh_error =
    GhErrScopeBoth | GhErrScopeNone | GhErrRepoFormat | GhErrPollInterval | GhErrAssignedGrace
  | GhErrRunningIdleGrace | GhErrAssignedOfflineGrace | GhErrOrphanGrace | GhErrRunnerNamePrefix
  | GhErrNilClient | GhErrNilPool | GhErrNilProvisioner | GhErrList "int option"

definition Scope_Validate :: "GhScope \<Rightarrow> gh_error option" where
  "Scope_Validate s =
     (let hasOrg = scOrg s \<noteq> ''''; hasRepo = scRepo s \<noteq> '''' in
      if hasOrg \<and> hasRepo then Some GhErrScopeBoth
      else if \<not> hasOrg \<and> \<not> hasRepo then Some GhErrScopeNone
      else if hasRepo then
        (let parts = Split_on CHR ''/'' (scRepo s) in
         if length parts \<noteq> 2 \<or> parts ! 0 = '''' \<or> parts ! 1 = '''' then Some GhErrRepoFormat else None)
      else None)"

definition PathSegment :: "GhScope \<Rightarrow> string" where
  "PathSegment s = (if scOrg s \<noteq> '''' then scOrg s else scRepo s)"

definition Scope_URL :: "GhScope \<Rightarrow> string" where
  "Scope_URL s = ''https://github.com/'' @ PathSegment s"

text \<open>\<^verbatim>\<open>strings.SplitN(slug, "/", 2)\<close> cuts at the first slash only.\<close>

definition splitRepo :: "string \<Rightarrow> string \<times> string" where
  "splitRepo slug =
     (if CHR ''/'' \<in> set slug
      then (takeWhile (\<lambda>c. c \<noteq> CHR ''/'') slug, tl (dropWhile (\<lambda>c. c \<noteq> CHR ''/'') slug))
      else ('''', ''''))"

record GhConfig =
  ghScope :: GhScope
  PollInterval :: duration
  FailureBackoffMax :: duration
  AssignedGrace :: duration
  RunningIdleGrace :: duration
  AssignedOfflineGrace :: duration
  OrphanGrace :: duration
  RunnerNamePrefix :: string

definition GhConfig_Validate :: "GhConfig \<Rightarrow> gh_error option" where
  "GhConfig_Validate c =
     (case Scope_Validate (ghScope c) of
        Some e \<Rightarrow> Some e
      | None \<Rightarrow>
          if PollInterval c \<le> 0 then Some GhErrPollInterval
          else if AssignedGrace c \<le> 0 then Some GhErrAssignedGrace
          else if RunningIdleGrace c \<le> 0 then Some GhErrRunningIdleGrace
          else if AssignedOfflineGrace c \<le> 0 then Some GhErrAssignedOfflineGrace
          else if OrphanGrace c \<le> 0 then Some GhErrOrphanGrace
          else if RunnerNamePrefix c = '''' then Some GhErrRunnerNamePrefix
          else None)"

record Reconciler =
  rcCfg :: GhConfig
  orphanFirstSeen :: "string \<rightharpoonup> time"
  orphanProxmoxFirstSeen :: "int \<rightharpoonup> time"

text \<open>The three dependencies only matter by being nil or not.\<close>

definition gh_New :: "GhConfig \<Rightarrow> bool \<Rightarrow> bool \<Rightarrow> bool \<Rightarrow> gh_error + Reconciler" where
  "gh_New cfg ghNil poolNil provNil =
     (case GhConfig_Validate cfg of
        Some e \<Rightarrow> Inl e
      | None \<Rightarrow>
          if ghNil then Inl GhErrNilClient
          else if poolNil then Inl GhErrNilPool
          else if provNil then Inl GhErrNilProvisioner
          else Inr \<lparr>rcCfg = (if FailureBackoffMax cfg = 0 then cfg\<lparr>FailureBackoffMax := 5 * minute\<rparr> else cfg),
                    orphanFirstSeen = Map.empty, orphanProxmoxFirstSeen = Map.empty\<rparr>)"

section \<open>Listing the runners\<close>

record gh_runner =
  grName :: string
  grID :: int
  grStatus :: string
  grBusy :: bool

text \<open>
  A call of the list endpoint returns a page with the number of the next one (\<open>None\<close> when there is no
  response object), or fails with the status of the response, if there was one.
\<close>

datatype page_reply = PageOK "gh_runner list" "int option" | PageErr "int option"

definition isTransientListError :: "page_reply \<Rightarrow> bool" where
  "isTransientListError r =
     (case r of
        PageOK _ _ \<Rightarrow> False
      | PageErr None \<Rightarrow> True
      | PageErr (Some status) \<Rightarrow> status = 429 \<or> (500 \<le> status \<and> status \<le> 599))"

definition listPageMaxTries :: nat where
  "listPageMaxTries = 3"

text \<open>
  \<^verbatim>\<open>api n page\<close> is the reply to the n-th call of the listing. \<^verbatim>\<open>backoff.Retry\<close> repeats a failing call
  until it succeeds, fails permanently or has been tried often enough, and may give up between two
  tries when the context ends or its elapsed-time budget is spent (\<open>giveup n\<close> after the n-th call).
  The number of calls made so far is threaded through.
\<close>

fun retry_page :: "nat \<Rightarrow> (nat \<Rightarrow> int \<Rightarrow> page_reply) \<Rightarrow> (nat \<Rightarrow> bool) \<Rightarrow> nat \<Rightarrow> int \<Rightarrow>
    nat \<times> (int option + (gh_runner list \<times> int option))" where
  "retry_page 0 api giveup n page = (n, Inl None)"
| "retry_page (Suc tries) api giveup n page =
     (case api n page of
        PageOK rs nx \<Rightarrow> (Suc n, Inr (rs, nx))
      | PageErr st \<Rightarrow>
          if \<not> isTransientListError (PageErr st) \<or> tries = 0 \<or> giveup n then (Suc n, Inl st)
          else retry_page tries api giveup (Suc n) page)"

definition listRunnersPageWithRetry ::
  "(nat \<Rightarrow> int \<Rightarrow> page_reply) \<Rightarrow> (nat \<Rightarrow> bool) \<Rightarrow> nat \<Rightarrow> int \<Rightarrow>
    nat \<times> (int option + (gh_runner list \<times> int option))" where
  "listRunnersPageWithRetry = retry_page listPageMaxTries"

definition add_runner :: "string \<Rightarrow> (string \<rightharpoonup> RunnerInfo) \<Rightarrow> gh_runner \<Rightarrow> (string \<rightharpoonup> RunnerInfo)" where
  "add_runner pre out gr =
     (if \<not> prefix pre (grName gr) then out
      else out(grName gr \<mapsto> \<lparr>riID = grID gr, riOnline = (grStatus gr = ''online''), riBusy = grBusy gr\<rparr>))"

definition maxListPages :: nat where
  "maxListPages = 50"

fun list_pages :: "nat \<Rightarrow> (nat \<Rightarrow> int \<Rightarrow> page_reply) \<Rightarrow> (nat \<Rightarrow> bool) \<Rightarrow> string \<Rightarrow> nat \<Rightarrow> int \<Rightarrow>
    (string \<rightharpoonup> RunnerInfo) \<Rightarrow> nat \<times> (int option + ((string \<rightharpoonup> RunnerInfo) \<times> bool))" where
  "list_pages 0 api giveup pre n page out = (n, Inr (out, True))"
| "list_pages (Suc k) api giveup pre n page out =
     (case listRunnersPageWithRetry api giveup n page of
        (n', Inl st) \<Rightarrow> (n', Inl st)
      | (n', Inr (rs, nx)) \<Rightarrow>
          (let out' = foldl (add_runner pre) out rs in
           case nx of
             None \<Rightarrow> (n', Inr (out', False))
           | Some p \<Rightarrow> if p = 0 then (n', Inr (out', False)) else list_pages k api giveup pre n' p out'))"

definition listRunnersByPrefix ::
  "(nat \<Rightarrow> int \<Rightarrow> page_reply) \<Rightarrow> (nat \<Rightarrow> bool) \<Rightarrow> string \<Rightarrow> nat \<times> (int option + ((string \<rightharpoonup> RunnerInfo) \<times> bool))" where
  "listRunnersByPrefix api giveup pre = list_pages maxListPages api giveup pre 0 0 Map.empty"

definition ListRunnersByPrefix_exported ::
  "(nat \<Rightarrow> int \<Rightarrow> page_reply) \<Rightarrow> (nat \<Rightarrow> bool) \<Rightarrow> string \<Rightarrow> int option + (string \<rightharpoonup> RunnerInfo)" where
  "ListRunnersByPrefix_exported api giveup pre =
     (case snd (listRunnersByPrefix api giveup pre) of Inl e \<Rightarrow> Inl e | Inr (out, _) \<Rightarrow> Inr out)"

section \<open>The transition table\<close>

datatype transitionOp = opNoop | opPromote | opDestroy

record transitionAction =
  taOp :: transitionOp
  taGrace :: "(GhConfig \<Rightarrow> duration) option"

definition ghStateLabel :: "RunnerInfo option \<Rightarrow> string" where
  "ghStateLabel gr =
     (case gr of
        None \<Rightarrow> ''missing''
      | Some g \<Rightarrow> if \<not> riOnline g then ''offline'' else if riBusy g then ''busy'' else ''idle'')"

definition stateTransitionTable :: "State \<Rightarrow> string \<Rightarrow> transitionAction option" where
  "stateTransitionTable st label = map_of
     [((StateAssigned, ''busy''), \<lparr>taOp = opPromote, taGrace = None\<rparr>),
      ((StateAssigned, ''offline''), \<lparr>taOp = opDestroy, taGrace = Some AssignedOfflineGrace\<rparr>),
      ((StateAssigned, ''idle''), \<lparr>taOp = opDestroy, taGrace = Some AssignedGrace\<rparr>),
      ((StateAssigned, ''missing''), \<lparr>taOp = opDestroy, taGrace = Some AssignedGrace\<rparr>),
      ((StateRunning, ''busy''), \<lparr>taOp = opNoop, taGrace = None\<rparr>),
      ((StateRunning, ''idle''), \<lparr>taOp = opDestroy, taGrace = Some RunningIdleGrace\<rparr>),
      ((StateRunning, ''offline''), \<lparr>taOp = opDestroy, taGrace = Some RunningIdleGrace\<rparr>),
      ((StateRunning, ''missing''), \<lparr>taOp = opDestroy, taGrace = None\<rparr>),
      ((StateRecycling, ''busy''), \<lparr>taOp = opNoop, taGrace = None\<rparr>),
      ((StateRecycling, ''idle''), \<lparr>taOp = opNoop, taGrace = None\<rparr>),
      ((StateRecycling, ''offline''), \<lparr>taOp = opNoop, taGrace = None\<rparr>),
      ((StateRecycling, ''missing''), \<lparr>taOp = opNoop, taGrace = None\<rparr>),
      ((StateHot, ''busy''), \<lparr>taOp = opPromote, taGrace = None\<rparr>),
      ((StateHot, ''idle''), \<lparr>taOp = opNoop, taGrace = None\<rparr>),
      ((StateHot, ''offline''), \<lparr>taOp = opNoop, taGrace = None\<rparr>),
      ((StateHot, ''missing''), \<lparr>taOp = opNoop, taGrace = None\<rparr>)] (st, label)"

text \<open>
  The body of the loop: what the table says for a row, after its grace, and doing it. The errors the
  two handlers return are logged and dropped. \<open>t\<close> is the store's clock, \<open>now\<close> the reconciler's.
\<close>

definition row_op :: "GhConfig \<Rightarrow> time \<Rightarrow> (string \<rightharpoonup> RunnerInfo) \<Rightarrow> RowSnapshot \<Rightarrow> transitionOp" where
  "row_op cfg now runners row =
     (case stateTransitionTable (snapState row) (ghStateLabel (runners (snapName row))) of
        None \<Rightarrow> opNoop
      | Some action \<Rightarrow>
          (case taGrace action of
             None \<Rightarrow> taOp action
           | Some grace \<Rightarrow> if now - snapStateSince row < grace cfg then opNoop else taOp action))"

definition runner_id :: "RunnerInfo option \<Rightarrow> int" where
  "runner_id gr = (case gr of None \<Rightarrow> 0 | Some g \<Rightarrow> riID g)"

definition matrix_row ::
  "GhConfig \<Rightarrow> time \<Rightarrow> time \<Rightarrow> (string \<rightharpoonup> RunnerInfo) \<Rightarrow> manager \<Rightarrow> RowSnapshot \<Rightarrow> manager" where
  "matrix_row cfg now t runners m row =
     (case row_op cfg now runners row of
        opNoop \<Rightarrow> m
      | opPromote \<Rightarrow> snd (PromoteToRunning m t (snapVMID row) (runner_id (runners (snapName row))) (snapJobID row))
      | opDestroy \<Rightarrow> snd (ForceDestroy m t (snapVMID row)))"

definition applyMatrix ::
  "GhConfig \<Rightarrow> time \<Rightarrow> time \<Rightarrow> RowSnapshot list \<Rightarrow> (string \<rightharpoonup> RunnerInfo) \<Rightarrow> manager \<Rightarrow> manager" where
  "applyMatrix cfg now t rows runners m = foldl (matrix_row cfg now t runners) m rows"

section \<open>Orphan runners\<close>

definition pruneOrphanTracking ::
  "string set \<Rightarrow> string list \<Rightarrow> bool \<Rightarrow> (string \<rightharpoonup> time) \<Rightarrow> (string \<rightharpoonup> time)" where
  "pruneOrphanTracking known names truncated fs =
     (\<lambda>name. if name \<in> known then None
             else if names = [] \<or> truncated then fs name
             else if name \<in> set names then fs name else None)"

text \<open>The reply to a removal: done, or an error carrying the status of a GitHub response or none.\<close>

datatype remove_reply = RemoveOK | RemoveErr "int option"

definition removeRunner :: "remove_reply \<Rightarrow> bool" where
  "removeRunner r = (case r of RemoveOK \<Rightarrow> True | RemoveErr st \<Rightarrow> st = Some 404)"

text \<open>
  One turn of the loop over the runners. The second component of the state lists the removals the
  sweep asked GitHub for.
\<close>

definition cleanup_one ::
  "GhConfig \<Rightarrow> time \<Rightarrow> string set \<Rightarrow> (string \<rightharpoonup> RunnerInfo) \<Rightarrow> (int \<Rightarrow> remove_reply) \<Rightarrow>
    (string \<rightharpoonup> time) \<times> string list \<Rightarrow> string \<Rightarrow> (string \<rightharpoonup> time) \<times> string list" where
  "cleanup_one cfg now known runners rm s name =
     (case s of (fs, removed) \<Rightarrow>
        if name \<in> known then (fs, removed)
        else case fs name of
               None \<Rightarrow> (fs(name \<mapsto> now), removed)
             | Some firstSeen \<Rightarrow>
                 if now - firstSeen < OrphanGrace cfg then (fs, removed)
                 else if \<not> removeRunner (rm (runner_id (runners name))) then (fs, removed @ [name])
                 else (fs(name := None), removed @ [name]))"

definition cleanupOrphanRunners ::
  "GhConfig \<Rightarrow> time \<Rightarrow> RowSnapshot list \<Rightarrow> string list \<Rightarrow> (string \<rightharpoonup> RunnerInfo) \<Rightarrow> bool \<Rightarrow> (int \<Rightarrow> remove_reply) \<Rightarrow>
    (string \<rightharpoonup> time) \<Rightarrow> (string \<rightharpoonup> time) \<times> string list" where
  "cleanupOrphanRunners cfg now rows names runners truncated rm fs =
     (let known = snapName ` set rows in
      foldl (cleanup_one cfg now known runners rm) (pruneOrphanTracking known names truncated fs, []) names)"

section \<open>Orphan virtual machines\<close>

definition sweep_orphan ::
  "GhConfig \<Rightarrow> time \<Rightarrow> int set \<Rightarrow> (poolVM \<Rightarrow> bool) \<Rightarrow> (int \<rightharpoonup> time) \<times> int list \<Rightarrow> poolVM \<Rightarrow> (int \<rightharpoonup> time) \<times> int list" where
  "sweep_orphan cfg now known destroyed s pv =
     (case s of (fs, gone) \<Rightarrow>
        if vmVMID pv \<in> known then (fs, gone)
        else case fs (vmVMID pv) of
               None \<Rightarrow> (fs(vmVMID pv \<mapsto> now), gone)
             | Some first \<Rightarrow>
                 if now - first < OrphanGrace cfg then (fs, gone)
                 else if \<not> destroyed pv then (fs, gone @ [vmVMID pv])
                 else (fs(vmVMID pv := None), gone @ [vmVMID pv]))"

text \<open>\<^verbatim>\<open>ListOwnedVMs\<close> answers with the tagged VMs or fails (\<open>None\<close>), which skips the sweep.\<close>

definition sweepProxmoxOrphans ::
  "GhConfig \<Rightarrow> time \<Rightarrow> RowSnapshot list \<Rightarrow> poolVM list option \<Rightarrow> (poolVM \<Rightarrow> bool) \<Rightarrow>
    (int \<rightharpoonup> time) \<Rightarrow> (int \<rightharpoonup> time) \<times> int list" where
  "sweepProxmoxOrphans cfg now rows listing destroyed fs =
     (case listing of
        None \<Rightarrow> (fs, [])
      | Some pmoxVMs \<Rightarrow>
          (let known = snapVMID ` set rows in
           foldl (sweep_orphan cfg now known destroyed) (\<lambda>vmid. if vmid \<in> known then None else fs vmid, []) pmoxVMs))"

section \<open>A tick and the loop\<close>

text \<open>What one tick learns from outside.\<close>

record tick_env =
  teApi :: "nat \<Rightarrow> int \<Rightarrow> page_reply"
  teGiveup :: "nat \<Rightarrow> bool"
  teNow :: time
  teStoreNow :: time
  teNames :: "string list"
  teRemove :: "int \<Rightarrow> remove_reply"
  teOwned :: "poolVM list option"
  teDestroyed :: "poolVM \<Rightarrow> bool"

text \<open>\<open>teNames\<close> is the order in which the loops range over the map of runners: an enumeration of its keys.\<close>

definition Tick :: "(VM list \<Rightarrow> VM list) \<Rightarrow> tick_env \<Rightarrow> Reconciler \<Rightarrow> manager \<Rightarrow>
    gh_error + (Reconciler \<times> manager \<times> string list \<times> int list)" where
  "Tick ord e r m =
     (case snd (listRunnersByPrefix (teApi e) (teGiveup e) (RunnerNamePrefix (rcCfg r))) of
        Inl st \<Rightarrow> Inl (GhErrList st)
      | Inr (runners, truncated) \<Rightarrow>
          (let rows = ListRows ord m;
               m' = applyMatrix (rcCfg r) (teNow e) (teStoreNow e) rows runners m;
               (fs, removed) = cleanupOrphanRunners (rcCfg r) (teNow e) rows (teNames e) runners truncated (teRemove e)
                 (orphanFirstSeen r);
               (ps, gone) = sweepProxmoxOrphans (rcCfg r) (teNow e) rows (teOwned e) (teDestroyed e)
                 (orphanProxmoxFirstSeen r)
           in Inr (r\<lparr>orphanFirstSeen := fs, orphanProxmoxFirstSeen := ps\<rparr>, m', removed, gone)))"

text \<open>
  The delays of \<^verbatim>\<open>Run\<close> for a sequence of ticks that succeed or fail: \<open>nextBackOff k\<close> is what the
  backoff object returns at the k-th call after its last reset.
\<close>

fun Run_delays :: "GhConfig \<Rightarrow> (nat \<Rightarrow> duration) \<Rightarrow> nat \<Rightarrow> bool list \<Rightarrow> duration list" where
  "Run_delays cfg nextBackOff k [] = []"
| "Run_delays cfg nextBackOff k (ok # oks) =
     (if ok then PollInterval cfg # Run_delays cfg nextBackOff 0 oks
      else nextBackOff k # Run_delays cfg nextBackOff (Suc k) oks)"

definition gh_Run :: "GhConfig \<Rightarrow> (nat \<Rightarrow> duration) \<Rightarrow> bool list \<Rightarrow> duration list" where
  "gh_Run cfg nextBackOff oks = PollInterval cfg # Run_delays cfg nextBackOff 0 oks"

section \<open>The grace clock\<close>

text \<open>
  Both sweeps keep a map from a key to the time it was first seen without a row. The interface: one
  pass of the sweep over what a tick saw, the keys it acted on, and what the two promise.
\<close>

locale grace_clock =
  fixes pass :: "'t \<Rightarrow> ('k \<rightharpoonup> time) \<Rightarrow> ('k \<rightharpoonup> time)"
    and acted :: "'t \<Rightarrow> ('k \<rightharpoonup> time) \<Rightarrow> 'k list"
    and clock :: "'t \<Rightarrow> time"
    and listed :: "'t \<Rightarrow> 'k set"
    and known :: "'t \<Rightarrow> 'k set"
    and grace :: "'t \<Rightarrow> duration"
    and complete :: "'t \<Rightarrow> bool"
  assumes pass_entry: "pass e fs k = Some t \<Longrightarrow>
      (fs k = Some t \<and> (complete e \<longrightarrow> k \<notin> known e)) \<or> (k \<in> listed e \<and> k \<notin> known e \<and> t = clock e)"
    and acted_due: "k \<in> set (acted e fs) \<Longrightarrow> k \<in> listed e \<and> k \<notin> known e \<and>
      (\<exists>t. (fs k = Some t \<or> t = clock e) \<and> grace e \<le> clock e - t)"
begin

text \<open>An entry was set by a tick that listed its key, and no complete tick since knew the key.\<close>

definition first_seen :: "'t list \<Rightarrow> 'k \<Rightarrow> time \<Rightarrow> bool" where
  "first_seen es k t \<longleftrightarrow> (\<exists>pre e post. es = pre @ e # post \<and> clock e = t \<and> k \<in> listed e \<and> k \<notin> known e \<and>
     (\<forall>e' \<in> set post. complete e' \<longrightarrow> k \<notin> known e'))"

lemma run_first_seen: "fold pass es Map.empty k = Some t \<Longrightarrow> first_seen es k t"
proof (induction es arbitrary: t rule: rev_induct)
  case (snoc e es)
  from snoc.prems have "pass e (fold pass es Map.empty) k = Some t" by simp
  from pass_entry [OF this] show ?case
  proof
    assume a: "fold pass es Map.empty k = Some t \<and> (complete e \<longrightarrow> k \<notin> known e)"
    with snoc.IH obtain pre e0 post where "es = pre @ e0 # post" "clock e0 = t" "k \<in> listed e0" "k \<notin> known e0"
      "\<forall>e' \<in> set post. complete e' \<longrightarrow> k \<notin> known e'" unfolding first_seen_def by blast
    with a show ?thesis unfolding first_seen_def
      by (intro exI [of _ pre] exI [of _ e0] exI [of _ "post @ [e]"]) auto
  next
    assume "k \<in> listed e \<and> k \<notin> known e \<and> t = clock e"
    then show ?thesis unfolding first_seen_def
      by (intro exI [of _ es] exI [of _ e] exI [of _ "[]"]) auto
  qed
qed simp

lemma acts_after_grace:
  assumes "k \<in> set (acted e (fold pass es Map.empty))" and "0 < grace e"
  shows "\<exists>pre e0 post. es = pre @ e0 # post \<and> k \<in> listed e0 \<and> grace e \<le> clock e - clock e0 \<and>
    (\<forall>e' \<in> set (e0 # post @ [e]). complete e' \<longrightarrow> k \<notin> known e')"
proof -
  from acted_due [OF assms(1)] assms(2) obtain t where t: "fold pass es Map.empty k = Some t"
    "grace e \<le> clock e - t" "k \<notin> known e" by auto
  from run_first_seen [OF t(1)] obtain pre e0 post where "es = pre @ e0 # post" "clock e0 = t" "k \<in> listed e0"
    "k \<notin> known e0" "\<forall>e' \<in> set post. complete e' \<longrightarrow> k \<notin> known e'" unfolding first_seen_def by blast
  with t show ?thesis by (intro exI [of _ pre] exI [of _ e0] exI [of _ post]) auto
qed

end

text \<open>What the runner sweep saw at a tick, and what the VM sweep saw.\<close>

record runner_tick =
  rtNow :: time
  rtRows :: "RowSnapshot list"
  rtNames :: "string list"
  rtRunners :: "string \<rightharpoonup> RunnerInfo"
  rtTruncated :: bool
  rtRemove :: "int \<Rightarrow> remove_reply"

record vm_tick =
  vtNow :: time
  vtRows :: "RowSnapshot list"
  vtOwned :: "poolVM list option"
  vtDestroyed :: "poolVM \<Rightarrow> bool"

abbreviation runner_sweep :: "GhConfig \<Rightarrow> runner_tick \<Rightarrow> (string \<rightharpoonup> time) \<Rightarrow> (string \<rightharpoonup> time) \<times> string list" where
  "runner_sweep cfg e \<equiv> cleanupOrphanRunners cfg (rtNow e) (rtRows e) (rtNames e) (rtRunners e) (rtTruncated e) (rtRemove e)"

abbreviation vm_sweep :: "GhConfig \<Rightarrow> vm_tick \<Rightarrow> (int \<rightharpoonup> time) \<Rightarrow> (int \<rightharpoonup> time) \<times> int list" where
  "vm_sweep cfg e \<equiv> sweepProxmoxOrphans cfg (vtNow e) (vtRows e) (vtOwned e) (vtDestroyed e)"

lemma cleanup_fold:
  assumes "foldl (cleanup_one cfg now known runners rm) (fs, acc) names = (fs', acc')"
  shows "(fs' k = Some t \<longrightarrow> fs k = Some t \<or> (k \<in> set names \<and> k \<notin> known \<and> t = now)) \<and>
    (k \<in> set acc' \<longrightarrow> k \<in> set acc \<or> (k \<in> set names \<and> k \<notin> known \<and>
      (\<exists>t. (fs k = Some t \<or> t = now) \<and> OrphanGrace cfg \<le> now - t)))"
  using assms
proof (induction names arbitrary: fs acc)
  case (Cons n ns)
  obtain fs1 acc1 where s: "cleanup_one cfg now known runners rm (fs, acc) n = (fs1, acc1)" by force
  with Cons.prems have "foldl (cleanup_one cfg now known runners rm) (fs1, acc1) ns = (fs', acc')" by simp
  from Cons.IH [OF this] s show ?case
    by (auto simp: cleanup_one_def split: if_splits option.splits)
qed simp

lemma sweep_fold:
  assumes "foldl (sweep_orphan cfg now known d) (fs, acc) pvs = (fs', acc')"
  shows "(fs' k = Some t \<longrightarrow> fs k = Some t \<or> (k \<in> vmVMID ` set pvs \<and> k \<notin> known \<and> t = now)) \<and>
    (k \<in> set acc' \<longrightarrow> k \<in> set acc \<or> (k \<in> vmVMID ` set pvs \<and> k \<notin> known \<and>
      (\<exists>t. (fs k = Some t \<or> t = now) \<and> OrphanGrace cfg \<le> now - t)))"
  using assms
proof (induction pvs arbitrary: fs acc)
  case (Cons p ps)
  obtain fs1 acc1 where s: "sweep_orphan cfg now known d (fs, acc) p = (fs1, acc1)" by force
  with Cons.prems have "foldl (sweep_orphan cfg now known d) (fs1, acc1) ps = (fs', acc')" by simp
  from Cons.IH [OF this] s show ?case
    by (auto simp: sweep_orphan_def split: if_splits option.splits)
qed simp

interpretation runner_clock: grace_clock "\<lambda>e. fst \<circ> runner_sweep cfg e" "\<lambda>e. snd \<circ> runner_sweep cfg e" rtNow
  "\<lambda>e. set (rtNames e)" "\<lambda>e. snapName ` set (rtRows e)" "\<lambda>_. OrphanGrace cfg" "\<lambda>_. True" for cfg
proof unfold_locales
  fix e :: runner_tick and fs k t
  let ?known = "snapName ` set (rtRows e)"
  obtain fs' acc' where r: "foldl (cleanup_one cfg (rtNow e) ?known (rtRunners e) (rtRemove e))
    (pruneOrphanTracking ?known (rtNames e) (rtTruncated e) fs, []) (rtNames e) = (fs', acc')" by force
  then have sw: "runner_sweep cfg e fs = (fs', acc')" by (simp add: cleanupOrphanRunners_def)
  note fold = cleanup_fold [OF r, of k]
  show "(fst \<circ> runner_sweep cfg e) fs k = Some t \<Longrightarrow>
      (fs k = Some t \<and> (True \<longrightarrow> k \<notin> ?known)) \<or> (k \<in> set (rtNames e) \<and> k \<notin> ?known \<and> t = rtNow e)"
    using sw fold [of t] by (auto simp: pruneOrphanTracking_def split: if_splits)
  show "k \<in> set ((snd \<circ> runner_sweep cfg e) fs) \<Longrightarrow> k \<in> set (rtNames e) \<and> k \<notin> ?known \<and>
      (\<exists>t. (fs k = Some t \<or> t = rtNow e) \<and> OrphanGrace cfg \<le> rtNow e - t)"
    using sw fold [of 0] by (auto simp: pruneOrphanTracking_def split: if_splits)
qed

interpretation vm_clock: grace_clock "\<lambda>e. fst \<circ> vm_sweep cfg e" "\<lambda>e. snd \<circ> vm_sweep cfg e" vtNow
  "\<lambda>e. vmVMID ` set (case_option [] id (vtOwned e))" "\<lambda>e. snapVMID ` set (vtRows e)" "\<lambda>_. OrphanGrace cfg"
  "\<lambda>e. vtOwned e \<noteq> None" for cfg
proof unfold_locales
  fix e :: vm_tick and fs k t
  let ?known = "snapVMID ` set (vtRows e)" and ?listed = "vmVMID ` set (case_option [] id (vtOwned e))"
  have both: "((fst \<circ> vm_sweep cfg e) fs k = Some t \<longrightarrow>
      (fs k = Some t \<and> (vtOwned e \<noteq> None \<longrightarrow> k \<notin> ?known)) \<or> (k \<in> ?listed \<and> k \<notin> ?known \<and> t = vtNow e)) \<and>
    (k \<in> set ((snd \<circ> vm_sweep cfg e) fs) \<longrightarrow> k \<in> ?listed \<and> k \<notin> ?known \<and>
      (\<exists>t. (fs k = Some t \<or> t = vtNow e) \<and> OrphanGrace cfg \<le> vtNow e - t))"
  proof (cases "vtOwned e")
    case None
    then show ?thesis by (simp add: sweepProxmoxOrphans_def)
  next
    case (Some pvs)
    obtain fs' acc' where r: "foldl (sweep_orphan cfg (vtNow e) ?known (vtDestroyed e))
      (\<lambda>vmid. if vmid \<in> ?known then None else fs vmid, []) pvs = (fs', acc')" by force
    with Some have sw: "vm_sweep cfg e fs = (fs', acc')" by (simp add: sweepProxmoxOrphans_def)
    show ?thesis using sweep_fold [OF r, of k t] Some sw by (auto split: if_splits)
  qed
  from both show "(fst \<circ> vm_sweep cfg e) fs k = Some t \<Longrightarrow>
      (fs k = Some t \<and> (vtOwned e \<noteq> None \<longrightarrow> k \<notin> ?known)) \<or> (k \<in> ?listed \<and> k \<notin> ?known \<and> t = vtNow e)" by blast
  from both show "k \<in> set ((snd \<circ> vm_sweep cfg e) fs) \<Longrightarrow> k \<in> ?listed \<and> k \<notin> ?known \<and>
      (\<exists>t. (fs k = Some t \<or> t = vtNow e) \<and> OrphanGrace cfg \<le> vtNow e - t)" by blast
qed

section \<open>Histories of ticks\<close>

text \<open>
  A history is a list of ticks, each with the pool as it was then: between two ticks the pool changes
  in any way. A tick that fails keeps the reconciler as it is.
\<close>

definition run_tick :: "(VM list \<Rightarrow> VM list) \<Rightarrow> Reconciler \<Rightarrow> tick_env \<times> manager \<Rightarrow> Reconciler" where
  "run_tick ord r h = (case Tick ord (fst h) r (snd h) of Inl _ \<Rightarrow> r | Inr (r', _) \<Rightarrow> r')"

definition fresh :: "GhConfig \<Rightarrow> Reconciler" where
  "fresh cfg = \<lparr>rcCfg = cfg, orphanFirstSeen = Map.empty, orphanProxmoxFirstSeen = Map.empty\<rparr>"

definition run_ticks :: "(VM list \<Rightarrow> VM list) \<Rightarrow> GhConfig \<Rightarrow> (tick_env \<times> manager) list \<Rightarrow> Reconciler" where
  "run_ticks ord cfg hs = foldl (run_tick ord) (fresh cfg) hs"

definition listing :: "GhConfig \<Rightarrow> tick_env \<Rightarrow> int option + ((string \<rightharpoonup> RunnerInfo) \<times> bool)" where
  "listing cfg e = snd (listRunnersByPrefix (teApi e) (teGiveup e) (RunnerNamePrefix cfg))"

definition runner_view :: "(VM list \<Rightarrow> VM list) \<Rightarrow> GhConfig \<Rightarrow> tick_env \<times> manager \<Rightarrow> runner_tick option" where
  "runner_view ord cfg h = (case listing cfg (fst h) of
     Inl _ \<Rightarrow> None
   | Inr (rs, tr) \<Rightarrow> Some \<lparr>rtNow = teNow (fst h), rtRows = ListRows ord (snd h), rtNames = teNames (fst h),
       rtRunners = rs, rtTruncated = tr, rtRemove = teRemove (fst h)\<rparr>)"

definition vm_view :: "(VM list \<Rightarrow> VM list) \<Rightarrow> GhConfig \<Rightarrow> tick_env \<times> manager \<Rightarrow> vm_tick option" where
  "vm_view ord cfg h = (case listing cfg (fst h) of
     Inl _ \<Rightarrow> None
   | Inr _ \<Rightarrow> Some \<lparr>vtNow = teNow (fst h), vtRows = ListRows ord (snd h), vtOwned = teOwned (fst h),
       vtDestroyed = teDestroyed (fst h)\<rparr>)"

lemma Tick_sweeps:
  assumes "rcCfg r = cfg"
  shows "Tick ord e r m = (case (runner_view ord cfg (e, m), vm_view ord cfg (e, m)) of
      (Some rt, Some vt) \<Rightarrow>
        Inr (r\<lparr>orphanFirstSeen := fst (runner_sweep cfg rt (orphanFirstSeen r)),
               orphanProxmoxFirstSeen := fst (vm_sweep cfg vt (orphanProxmoxFirstSeen r))\<rparr>,
             applyMatrix cfg (teNow e) (teStoreNow e) (ListRows ord m) (rtRunners rt) m,
             snd (runner_sweep cfg rt (orphanFirstSeen r)), snd (vm_sweep cfg vt (orphanProxmoxFirstSeen r)))
    | _ \<Rightarrow> Inl (GhErrList (projl (listing cfg e))))"
  using assms
  by (auto simp: Tick_def runner_view_def vm_view_def listing_def Let_def split: sum.split prod.split)

lemma map_filter_snoc:
  "List.map_filter f (xs @ [x]) = List.map_filter f xs @ (case f x of None \<Rightarrow> [] | Some y \<Rightarrow> [y])"
  by (simp add: map_filter_def split: option.split)

lemma run_ticks_sweeps:
  "rcCfg (run_ticks ord cfg hs) = cfg \<and>
   orphanFirstSeen (run_ticks ord cfg hs) = fold (\<lambda>e. fst \<circ> runner_sweep cfg e) (List.map_filter (runner_view ord cfg) hs) Map.empty \<and>
   orphanProxmoxFirstSeen (run_ticks ord cfg hs) = fold (\<lambda>e. fst \<circ> vm_sweep cfg e) (List.map_filter (vm_view ord cfg) hs) Map.empty"
proof (induction hs rule: rev_induct)
  case Nil
  then show ?case by (simp add: run_ticks_def fresh_def)
next
  case (snoc h hs)
  obtain e m where h [simp]: "h = (e, m)" by force
  have step: "run_ticks ord cfg (hs @ [h]) = run_tick ord (run_ticks ord cfg hs) (e, m)" by (simp add: run_ticks_def)
  show ?case
  proof (cases "listing cfg e")
    case (Inl st)
    then have "runner_view ord cfg (e, m) = None" "vm_view ord cfg (e, m) = None"
      by (simp_all add: runner_view_def vm_view_def)
    with snoc.IH show ?thesis unfolding step by (simp add: run_tick_def Tick_sweeps [of _ cfg] map_filter_snoc)
  next
    case (Inr l)
    then obtain rt vt where "runner_view ord cfg (e, m) = Some rt" "vm_view ord cfg (e, m) = Some vt"
      by (cases l) (simp add: runner_view_def vm_view_def)
    with snoc.IH show ?thesis unfolding step by (simp add: run_tick_def Tick_sweeps [of _ cfg] map_filter_snoc)
  qed
qed

lemma map_filter_split:
  "List.map_filter f xs = pre @ y # post \<Longrightarrow>
    \<exists>xs1 x xs2. xs = xs1 @ x # xs2 \<and> f x = Some y \<and> List.map_filter f xs2 = post"
proof (induction xs arbitrary: pre)
  case (Cons a xs)
  show ?case
  proof (cases "f a = None \<or> pre \<noteq> []")
    case True
    with Cons.prems obtain pre' where "List.map_filter f xs = pre' @ y # post"
      by (cases pre) (auto simp: map_filter_simps split: option.splits)
    with Cons.IH obtain xs1 x xs2 where "xs = xs1 @ x # xs2 \<and> f x = Some y \<and> List.map_filter f xs2 = post" by blast
    then show ?thesis by (intro exI [of _ "a # xs1"]) auto
  next
    case False
    with Cons.prems show ?thesis by (intro exI [of _ "[]"] exI [of _ a] exI [of _ xs]) (auto simp: map_filter_simps)
  qed
qed (simp add: map_filter_simps)

text \<open>A tick of a history whose listing succeeded, and in which the VM listing did too.\<close>

definition tick_ok :: "GhConfig \<Rightarrow> tick_env \<times> manager \<Rightarrow> bool" where
  "tick_ok cfg h \<longleftrightarrow> (\<exists>l. listing cfg (fst h) = Inr l)"

definition names_known :: "(VM list \<Rightarrow> VM list) \<Rightarrow> manager \<Rightarrow> string set" where
  "names_known ord m = snapName ` set (ListRows ord m)"

definition ids_known :: "(VM list \<Rightarrow> VM list) \<Rightarrow> manager \<Rightarrow> int set" where
  "ids_known ord m = snapVMID ` set (ListRows ord m)"

lemma map_filter_mem: "h \<in> set hs \<Longrightarrow> f h = Some y \<Longrightarrow> y \<in> set (List.map_filter f hs)"
  by (force simp: map_filter_def)


definition ex_gh :: GhConfig where
  "ex_gh = \<lparr>ghScope = \<lparr>scOrg = ''acme'', scRepo = ''''\<rparr>, PollInterval = 30 * second, FailureBackoffMax = 5 * minute,
     AssignedGrace = 5 * minute, RunningIdleGrace = minute, AssignedOfflineGrace = 2 * minute, OrphanGrace = minute,
     RunnerNamePrefix = ''gh''\<rparr>"

definition ex_tick :: "time \<Rightarrow> tick_env" where
  "ex_tick now = \<lparr>teApi = \<lambda>n p. PageOK [\<lparr>grName = ''gh-7'', grID = 7, grStatus = ''online'', grBusy = False\<rparr>] None,
     teGiveup = \<lambda>_. False, teNow = now, teStoreNow = now, teNames = [''gh-7''], teRemove = \<lambda>_. RemoveOK,
     teOwned = Some [\<lparr>vmVMID = 900, vmNode = ''pve1'', vmName = ''gh-9'', vmProfile = ''default''\<rparr>],
     teDestroyed = \<lambda>_. True\<rparr>"

lemma ex_tick_acts:
  "\<exists>r' m'. Tick (sort_key VMID) (ex_tick (3 * minute)) (run_ticks (sort_key VMID) ex_gh [(ex_tick minute, ex_pool [])]) (ex_pool []) =
     Inr (r', m', [''gh-7''], [900])"
proof -
  have "(case Tick (sort_key VMID) (ex_tick (3 * minute)) (run_ticks (sort_key VMID) ex_gh [(ex_tick minute, ex_pool [])]) (ex_pool []) of
     Inl _ \<Rightarrow> False | Inr (_, _, rs, gs) \<Rightarrow> rs = [''gh-7''] \<and> gs = [900])" by code_simp
  then show ?thesis by (auto split: sum.splits prod.splits)
qed




section \<open>What the table does to the pool\<close>

text \<open>The rule the table encodes, written out: when a row is destroyed, and when it is promoted.\<close>

definition destroy_due :: "GhConfig \<Rightarrow> time \<Rightarrow> RunnerInfo option \<Rightarrow> RowSnapshot \<Rightarrow> bool" where
  "destroy_due cfg now gr row \<longleftrightarrow>
     (let age = now - snapStateSince row in
      case snapState row of
        StateAssigned \<Rightarrow> (case gr of
            None \<Rightarrow> AssignedGrace cfg \<le> age
          | Some g \<Rightarrow> if riOnline g then \<not> riBusy g \<and> AssignedGrace cfg \<le> age else AssignedOfflineGrace cfg \<le> age)
      | StateRunning \<Rightarrow> (case gr of
            None \<Rightarrow> True
          | Some g \<Rightarrow> \<not> (riOnline g \<and> riBusy g) \<and> RunningIdleGrace cfg \<le> age)
      | _ \<Rightarrow> False)"

definition promote_due :: "RunnerInfo option \<Rightarrow> RowSnapshot \<Rightarrow> bool" where
  "promote_due gr row \<longleftrightarrow> snapState row \<in> {StateAssigned, StateHot} \<and> (\<exists>g. gr = Some g \<and> riOnline g \<and> riBusy g)"

lemma row_op_due:
  "row_op cfg now runners row =
     (if destroy_due cfg now (runners (snapName row)) row then opDestroy
      else if promote_due (runners (snapName row)) row then opPromote else opNoop)"
  by (cases "snapState row"; cases "runners (snapName row)")
    (auto simp: row_op_def destroy_due_def promote_due_def stateTransitionTable_def ghStateLabel_def Let_def)

lemma ForceDestroy_row:
  assumes "wf_table (mTable m)"
  shows "wf_table (mTable (snd (ForceDestroy m t i)))"
    and "j \<noteq> i \<Longrightarrow> txn_first (mTable (snd (ForceDestroy m t i))) j = txn_first (mTable m) j"
    and "txn_first (mTable m) i = Some v \<Longrightarrow> \<exists>w. txn_first (mTable (snd (ForceDestroy m t i))) i = Some w \<and>
      same_identity v w \<and> StateOf w \<in> {StateDraining, StateDestroying}"
proof -
  let ?fs = "[StateProvisioning, StateWarm, StateBooting, StateHot, StateAssigned, StateRunning, StateRecycling, StatePoison]"
  have "wf_table (mTable (snd (ForceDestroy m t i))) \<and>
    (j \<noteq> i \<longrightarrow> txn_first (mTable (snd (ForceDestroy m t i))) j = txn_first (mTable m) j) \<and>
    (txn_first (mTable m) i = Some v \<longrightarrow> (\<exists>w. txn_first (mTable (snd (ForceDestroy m t i))) i = Some w \<and>
      same_identity v w \<and> StateOf w \<in> {StateDraining, StateDestroying}))"
  proof (rule cas_cases [OF assms, of id t i ?fs StateDraining])
    assume "UpdateStateIn (mTable m) t i ?fs StateDraining id = Inr None"
      "\<And>v. txn_first (mTable m) i = Some v \<Longrightarrow> StateOf v \<notin> set ?fs"
    with assms show ?thesis by (cases "StateOf v") (auto simp: ForceDestroy_def same_identity_def)
  next
    fix v' T'
    assume "txn_first (mTable m) i = Some v'" "UpdateStateIn (mTable m) t i ?fs StateDraining id = Inr (Some T')"
      "txn_first T' = (txn_first (mTable m))(i \<mapsto> id (cas_row t StateDraining v'))" "wf_table T'"
    then show ?thesis by (auto simp: ForceDestroy_def cas_row_def same_identity_def)
  qed simp
  then show "wf_table (mTable (snd (ForceDestroy m t i)))"
    and "j \<noteq> i \<Longrightarrow> txn_first (mTable (snd (ForceDestroy m t i))) j = txn_first (mTable m) j"
    and "txn_first (mTable m) i = Some v \<Longrightarrow> \<exists>w. txn_first (mTable (snd (ForceDestroy m t i))) i = Some w \<and>
      same_identity v w \<and> StateOf w \<in> {StateDraining, StateDestroying}" by blast+
qed

lemma PromoteToRunning_row:
  assumes "wf_table (mTable m)"
  shows "wf_table (mTable (snd (PromoteToRunning m t i rid jid)))"
    and "j \<noteq> i \<Longrightarrow> txn_first (mTable (snd (PromoteToRunning m t i rid jid))) j = txn_first (mTable m) j"
    and "txn_first (mTable m) i = Some v \<Longrightarrow> txn_first (mTable (snd (PromoteToRunning m t i rid jid))) i =
      Some (if StateOf v \<in> {StateAssigned, StateHot}
            then (cas_row t StateRunning v)\<lparr>RunnerID := rid, JobID := (if jid \<noteq> 0 then jid else JobID v)\<rparr> else v)"
proof -
  let ?f = "\<lambda>v. v\<lparr>RunnerID := rid, JobID := (if jid \<noteq> 0 then jid else JobID v)\<rparr>"
  have "wf_table (mTable (snd (PromoteToRunning m t i rid jid))) \<and>
    (j \<noteq> i \<longrightarrow> txn_first (mTable (snd (PromoteToRunning m t i rid jid))) j = txn_first (mTable m) j) \<and>
    (txn_first (mTable m) i = Some v \<longrightarrow> txn_first (mTable (snd (PromoteToRunning m t i rid jid))) i =
      Some (if StateOf v \<in> {StateAssigned, StateHot} then ?f (cas_row t StateRunning v) else v))"
  proof (rule cas_cases [OF assms, of ?f t i "[StateAssigned, StateHot]" StateRunning])
    show "benign ?f" by (simp add: benign_def)
  next
    assume "UpdateStateIn (mTable m) t i [StateAssigned, StateHot] StateRunning ?f = Inr None"
      "\<And>v. txn_first (mTable m) i = Some v \<Longrightarrow> StateOf v \<notin> set [StateAssigned, StateHot]"
    with assms show ?thesis by (auto simp: PromoteToRunning_def)
  next
    fix v' T'
    assume "txn_first (mTable m) i = Some v'" "StateOf v' \<in> set [StateAssigned, StateHot]"
      "UpdateStateIn (mTable m) t i [StateAssigned, StateHot] StateRunning ?f = Inr (Some T')"
      "txn_first T' = (txn_first (mTable m))(i \<mapsto> ?f (cas_row t StateRunning v'))" "wf_table T'"
    then show ?thesis by (auto simp: PromoteToRunning_def)
  qed
  then show "wf_table (mTable (snd (PromoteToRunning m t i rid jid)))"
    and "j \<noteq> i \<Longrightarrow> txn_first (mTable (snd (PromoteToRunning m t i rid jid))) j = txn_first (mTable m) j"
    and "txn_first (mTable m) i = Some v \<Longrightarrow> txn_first (mTable (snd (PromoteToRunning m t i rid jid))) i =
      Some (if StateOf v \<in> {StateAssigned, StateHot}
            then (cas_row t StateRunning v)\<lparr>RunnerID := rid, JobID := (if jid \<noteq> 0 then jid else JobID v)\<rparr> else v)"
    by (auto simp: cas_row_def)
qed

lemma matrix_row_frame:
  assumes "wf_table (mTable m)"
  shows "wf_table (mTable (matrix_row cfg now t runners m row))"
    and "j \<noteq> snapVMID row \<Longrightarrow> txn_first (mTable (matrix_row cfg now t runners m row)) j = txn_first (mTable m) j"
  using ForceDestroy_row(1,2) [OF assms] PromoteToRunning_row(1,2) [OF assms] assms
  by (auto simp: matrix_row_def split: transitionOp.split)

lemma applyMatrix_other:
  assumes "wf_table (mTable m)" and "j \<notin> snapVMID ` set rows"
  shows "txn_first (mTable (applyMatrix cfg now t rows runners m)) j = txn_first (mTable m) j"
  using assms unfolding applyMatrix_def
proof (induction rows arbitrary: m)
  case (Cons row rows)
  then show ?case using matrix_row_frame [OF Cons.prems(1)] by simp
qed simp

text \<open>What the table makes of the row \<open>v\<close> when its snapshot is \<open>row\<close>.\<close>

definition row_outcome :: "GhConfig \<Rightarrow> time \<Rightarrow> RunnerInfo option \<Rightarrow> RowSnapshot \<Rightarrow> VM \<Rightarrow> VM \<Rightarrow> bool" where
  "row_outcome cfg now gr row v w \<longleftrightarrow> same_identity v w \<and>
     (if destroy_due cfg now gr row then StateOf w \<in> {StateDraining, StateDestroying}
      else if promote_due gr row \<and> StateOf v \<in> {StateAssigned, StateHot}
           then StateOf w = StateRunning \<and> RunnerID w = runner_id gr
      else w = v)"

lemma matrix_row_outcome:
  assumes "wf_table (mTable m)" and "txn_first (mTable m) (snapVMID row) = Some v"
  shows "\<exists>w. txn_first (mTable (matrix_row cfg now t runners m row)) (snapVMID row) = Some w \<and>
    row_outcome cfg now (runners (snapName row)) row v w"
proof -
  have refl: "same_identity v v" by (simp add: same_identity_def)
  have cas: "same_identity v (cas_row t StateRunning v\<lparr>RunnerID := a, JobID := b\<rparr>)" for a b
    by (simp add: same_identity_def cas_row_def)
  show ?thesis
    using ForceDestroy_row(3) [OF assms] PromoteToRunning_row(3) [OF assms] assms(2) refl cas
    by (auto simp: matrix_row_def row_op_due row_outcome_def cas_row_def)
qed

lemma applyMatrix_outcome:
  assumes "wf_table (mTable m)" and "distinct (map snapVMID rows)" and "row \<in> set rows"
    and "txn_first (mTable m) (snapVMID row) = Some v"
  shows "\<exists>w. txn_first (mTable (applyMatrix cfg now t rows runners m)) (snapVMID row) = Some w \<and>
    row_outcome cfg now (runners (snapName row)) row v w"
  using assms
proof (induction rows arbitrary: m)
  case (Cons r rows)
  let ?m = "matrix_row cfg now t runners m r"
  have fold: "applyMatrix cfg now t (r # rows) runners m = applyMatrix cfg now t rows runners ?m" by (simp add: applyMatrix_def)
  show ?case
  proof (cases "r = row")
    case True
    with Cons.prems(2) have "snapVMID row \<notin> snapVMID ` set rows" by auto
    with matrix_row_outcome [OF Cons.prems(1,4)] applyMatrix_other [OF matrix_row_frame(1) [OF Cons.prems(1)]] True
    show ?thesis unfolding fold by simp
  next
    case False
    with Cons.prems(2,3) have "row \<in> set rows" "snapVMID row \<noteq> snapVMID r" by (force simp: image_iff)+
    with Cons.prems show ?thesis
      unfolding fold by (intro Cons.IH) (auto simp: matrix_row_frame)
  qed
qed simp

definition snap :: "VM \<Rightarrow> RowSnapshot" where
  "snap r = \<lparr>snapVMID = VMID r, snapNode = Node r, snapName = Name r, snapProfile = Profile r,
     snapState = StateOf r, snapJobID = JobID r, snapRunnerID = RunnerID r,
     snapRecycleCount = RecycleCount r, snapStateSince = StateSince r, snapCreatedAt = CreatedAt r\<rparr>"

lemma ListRows_snap: "ListRows ord m = map snap (ListExcludingStates ord (mTable m) [StateDraining, StateDestroying])"
  by (simp add: ListRows_def snap_def)

lemma ListRows_distinct:
  assumes "row_order ord" and "wf_table (mTable m)"
  shows "distinct (map snapVMID (ListRows ord m))"
proof -
  have ids: "snapVMID \<circ> snap = VMID" by (auto simp: snap_def)
  have "distinct (map VMID (List ord (mTable m)))"
    using assms row_order.perm [OF assms(1), of "mTable m"]
    by (metis (no_types, lifting) List_def bucket_def filter_True mset_eq_imp_distinct_iff mset_map wf_table_def)
  then show ?thesis by (simp add: ListRows_snap ids ListExcludingStates_def distinct_map_filter)
qed

lemma ListRows_mem:
  assumes "row_order ord" and "wf_table (mTable m)" and "txn_first (mTable m) i = Some v"
  shows "StateOf v \<notin> {StateDraining, StateDestroying} \<Longrightarrow> snap v \<in> set (ListRows ord m)"
    and "StateOf v \<in> {StateDraining, StateDestroying} \<Longrightarrow> i \<notin> snapVMID ` set (ListRows ord m)"
proof -
  from txn_first_SomeD [OF assms(3)] have v: "v \<in> set (mTable m)" "VMID v = i" by auto
  have rows: "set (ListRows ord m) = snap ` {v \<in> set (mTable m). StateOf v \<notin> {StateDraining, StateDestroying}}"
    by (simp add: ListRows_snap row_order.ListExcludingStates_set [OF assms(1)])
  show "StateOf v \<notin> {StateDraining, StateDestroying} \<Longrightarrow> snap v \<in> set (ListRows ord m)"
    unfolding rows using v by blast
  have "u = v" if "u \<in> set (mTable m)" "VMID u = i" for u
    using assms(2) v that by (auto simp: wf_table_def distinct_map dest: inj_onD)
  then show "StateOf v \<in> {StateDraining, StateDestroying} \<Longrightarrow> i \<notin> snapVMID ` set (ListRows ord m)"
    unfolding rows by (auto simp: snap_def)
qed

text \<open>
  C20. A reconcile tick does to every row exactly what the documented table says. A row is destroyed if and
  only if it is assigned with its runner idle or unknown for the assigned grace or offline for the offline
  grace, or running with its runner unknown, or not online and busy for the idle grace; a row that is
  assigned or hot while its runner is online and busy becomes running under that runner's id; every
  other row, and every row already on its way out, is left as it was.\<close>

theorem tick_follows_table:
  assumes "row_order ord" and "wf_table (mTable m)" and "listing (rcCfg r) e = Inr (runners, truncated)"
    and "Tick ord e r m = Inr (r', m', removed, gone)" and "txn_first (mTable m) i = Some v"
  shows "\<exists>w. txn_first (mTable m') i = Some w \<and> same_identity v w \<and>
    (if destroy_due (rcCfg r) (teNow e) (runners (Name v)) (snap v) then StateOf w \<in> {StateDraining, StateDestroying}
     else if promote_due (runners (Name v)) (snap v) then StateOf w = StateRunning \<and> RunnerID w = runner_id (runners (Name v))
     else w = v)"
proof -
  have m': "m' = applyMatrix (rcCfg r) (teNow e) (teStoreNow e) (ListRows ord m) runners m"
    using assms(3,4) by (auto simp: Tick_sweeps [OF refl] runner_view_def vm_view_def)
  have i: "VMID v = i" using txn_first_SomeD [OF assms(5)] by simp
  show ?thesis
  proof (cases "StateOf v \<in> {StateDraining, StateDestroying}")
    case True
    then have "\<not> destroy_due (rcCfg r) (teNow e) (runners (Name v)) (snap v)" "\<not> promote_due (runners (Name v)) (snap v)"
      by (auto simp: destroy_due_def promote_due_def snap_def)
    then show ?thesis
      unfolding m' using applyMatrix_other [OF assms(2) ListRows_mem(2) [OF assms(1,2,5) True]] assms(5)
      by (simp add: same_identity_def)
  next
    case False
    have "promote_due (runners (Name v)) (snap v) \<Longrightarrow> StateOf v \<in> {StateAssigned, StateHot}"
      by (simp add: promote_due_def snap_def)
    then show ?thesis
      using applyMatrix_outcome [OF assms(2) ListRows_distinct [OF assms(1,2)] ListRows_mem(1) [OF assms(1,2,5) False],
          of v "rcCfg r" "teNow e" "teStoreNow e" runners] assms(5) i
      unfolding m' row_outcome_def by (auto simp: snap_def split: if_splits)
  qed
qed

lemma Tick_total: "listing (rcCfg r) e = Inr l \<Longrightarrow> \<exists>r' m' removed gone. Tick ord e r m = Inr (r', m', removed, gone)"
  by (cases l) (simp add: Tick_sweeps [OF refl] runner_view_def vm_view_def)

lemma ex_pool_one:
  "mTable (ex_pool [ex_vm 100 st]) = [ex_vm 100 st]" "wf_table [ex_vm 100 st]" "txn_first [ex_vm 100 st] 100 = Some (ex_vm 100 st)"
proof -
  show "mTable (ex_pool [ex_vm 100 st]) = [ex_vm 100 st]" by (cases st; code_simp)
qed (simp_all add: wf_table_def ex_vm_def indexable_def txn_first_def)

lemma ex_vm_fields: "Name (ex_vm i st) = ''gh''" "StateOf (ex_vm i st) = st" "StateSince (ex_vm i st) = 5"
  by (simp_all add: ex_vm_def new_row_def)

theorem tick_follows_table_witness:
  "\<exists>r' m' removed gone w. Tick (sort_key VMID) (ex_tick minute) (fresh ex_gh) (ex_pool [ex_vm 100 StateRunning]) =
     Inr (r', m', removed, gone) \<and> txn_first (mTable m') 100 = Some w \<and> StateOf w \<in> {StateDraining, StateDestroying}"
proof -
  have "(case listing (rcCfg (fresh ex_gh)) (ex_tick minute) of Inl _ \<Rightarrow> False | Inr (rs, _) \<Rightarrow> rs ''gh'' = None)" by code_simp
  then obtain rs tr where l: "listing (rcCfg (fresh ex_gh)) (ex_tick minute) = Inr (rs, tr)" "rs ''gh'' = None"
    by (auto split: sum.splits)
  obtain r' m' removed gone where t: "Tick (sort_key VMID) (ex_tick minute) (fresh ex_gh) (ex_pool [ex_vm 100 StateRunning]) =
     Inr (r', m', removed, gone)" using Tick_total [OF l(1)] by blast
  have "destroy_due (rcCfg (fresh ex_gh)) (teNow (ex_tick minute)) None (snap (ex_vm 100 StateRunning))"
    by (simp add: destroy_due_def snap_def ex_vm_fields)
  with tick_follows_table [OF by_vmid.row_order_axioms _ l(1) t, of 100 "ex_vm 100 StateRunning"] l(2) t
  show ?thesis by (auto simp: ex_pool_one ex_vm_fields)
qed

text \<open>
  C23. The table is applied to a listing cut short at the page cap as if it were complete: a running row
  whose runner was not among the fetched pages is destroyed at once, whatever its age, although the
  runner may be online and busy on a page the listing never reached.\<close>

theorem truncated_listing_destroys:
  assumes "row_order ord" and "wf_table (mTable m)" and "listing (rcCfg r) e = Inr (runners, True)"
    and "txn_first (mTable m) i = Some v" and "StateOf v = StateRunning" and "runners (Name v) = None"
  shows "\<exists>r' m' removed gone w. Tick ord e r m = Inr (r', m', removed, gone) \<and>
    txn_first (mTable m') i = Some w \<and> StateOf w \<in> {StateDraining, StateDestroying}"
proof -
  obtain r' m' removed gone where t: "Tick ord e r m = Inr (r', m', removed, gone)" using Tick_total [OF assms(3)] by blast
  have m': "m' = applyMatrix (rcCfg r) (teNow e) (teStoreNow e) (ListRows ord m) runners m"
    using assms(3) t by (auto simp: Tick_sweeps [OF refl] runner_view_def vm_view_def)
  have "StateOf v \<notin> {StateDraining, StateDestroying}" and i: "snapVMID (snap v) = i" "snapName (snap v) = Name v"
    using assms(5) txn_first_SomeD [OF assms(4)] by (auto simp: snap_def)
  from applyMatrix_outcome [OF assms(2) ListRows_distinct [OF assms(1,2)] ListRows_mem(1) [OF assms(1,2,4) this(1)]]
    assms(4-6) i t show ?thesis
    unfolding m' by (fastforce simp: row_outcome_def destroy_due_def snap_def)
qed

text \<open>More than fifty pages of runners, with the row's own runner, online and busy, on the next one.\<close>

definition ex_deep :: tick_env where
  "ex_deep = (ex_tick minute)\<lparr>teApi := \<lambda>n p. PageOK
     (if p = 50 then [\<lparr>grName = ''gh'', grID = 5, grStatus = ''online'', grBusy = True\<rparr>] else []) (Some (p + 1)), teNames := []\<rparr>"

theorem truncated_listing_destroys_witness:
  "teApi ex_deep 0 50 = PageOK [\<lparr>grName = ''gh'', grID = 5, grStatus = ''online'', grBusy = True\<rparr>] (Some 51) \<and>
   (\<exists>r' m' removed gone w. Tick (sort_key VMID) ex_deep (fresh ex_gh) (ex_pool [ex_vm 100 StateRunning]) = Inr (r', m', removed, gone) \<and>
     txn_first (mTable m') 100 = Some w \<and> StateOf w \<in> {StateDraining, StateDestroying})"
proof -
  have "(case listing (rcCfg (fresh ex_gh)) ex_deep of Inl _ \<Rightarrow> False | Inr (rs, tr) \<Rightarrow> tr \<and> rs ''gh'' = None)" by code_simp
  then obtain rs where l: "listing (rcCfg (fresh ex_gh)) ex_deep = Inr (rs, True)" "rs ''gh'' = None"
    by (auto split: sum.splits)
  show ?thesis
    using truncated_listing_destroys [OF by_vmid.row_order_axioms _ l(1), of "ex_pool [ex_vm 100 StateRunning]" 100 "ex_vm 100 StateRunning"] l(2)
    by (simp add: ex_pool_one ex_vm_fields) (simp add: ex_deep_def)
qed

section \<open>Cost and completeness of the listing\<close>

lemma retry_page_calls:
  assumes "retry_page tries api giveup n page = (n', reply)"
  shows "n' \<le> n + tries \<and> (\<forall>rs nx. reply = Inr (rs, nx) \<longrightarrow> (\<exists>k. api k page = PageOK rs nx))"
  using assms
proof (induction tries api giveup n page rule: retry_page.induct)
  case (2 tries api giveup n page)
  show ?case
  proof (cases "api n page")
    case (PageOK rs nx)
    with "2.prems" show ?thesis by auto
  next
    case (PageErr st)
    show ?thesis
    proof (cases "\<not> isTransientListError (PageErr st) \<or> tries = 0 \<or> giveup n")
      case True
      with "2.prems" PageErr show ?thesis by auto
    next
      case False
      with "2.prems" PageErr have "retry_page tries api giveup (Suc n) page = (n', reply)" by auto
      with "2.IH" [OF PageErr False] show ?thesis by auto
    qed
  qed
qed auto

text \<open>The pages the next-page links lead to.\<close>

inductive page_reach :: "(int \<Rightarrow> int option) \<Rightarrow> int \<Rightarrow> int \<Rightarrow> bool" for nx where
  start: "page_reach nx p p"
| follow: "nx p = Some q \<Longrightarrow> q \<noteq> 0 \<Longrightarrow> page_reach nx q r \<Longrightarrow> page_reach nx p r"

inductive_simps page_reach_iff: "page_reach nx p r"

definition on_pages :: "(int \<Rightarrow> gh_runner list) \<Rightarrow> (int \<Rightarrow> int option) \<Rightarrow> string \<Rightarrow> int \<Rightarrow> string set" where
  "on_pages rs nx pre p = {grName g | g q. page_reach nx p q \<and> g \<in> set (rs q) \<and> prefix pre (grName g)}"

text \<open>An API that, as long as it answers, answers the same page in the same way; it may fail at any call.\<close>

definition consistent_pages :: "(nat \<Rightarrow> int \<Rightarrow> page_reply) \<Rightarrow> (int \<Rightarrow> gh_runner list) \<Rightarrow> (int \<Rightarrow> int option) \<Rightarrow> bool" where
  "consistent_pages api rs nx \<longleftrightarrow> (\<forall>n p gs q. api n p = PageOK gs q \<longrightarrow> gs = rs p \<and> q = nx p)"

lemma on_pages_step:
  "on_pages rs nx pre p = grName ` {g \<in> set (rs p). prefix pre (grName g)} \<union>
     (case nx p of None \<Rightarrow> {} | Some q \<Rightarrow> if q = 0 then {} else on_pages rs nx pre q)"
proof -
  have "page_reach nx p q \<longleftrightarrow> q = p \<or> (\<exists>p'. nx p = Some p' \<and> p' \<noteq> 0 \<and> page_reach nx p' q)" for q
    by (subst page_reach_iff) auto
  then show ?thesis by (auto simp: on_pages_def split: option.split)
qed

lemma add_runners_dom:
  "dom (foldl (add_runner pre) out gs) = dom out \<union> grName ` {g \<in> set gs. prefix pre (grName g)}"
  by (induction gs arbitrary: out) (auto simp: add_runner_def)

lemma list_pages_listing:
  assumes "consistent_pages api rs nx"
    and "list_pages k api giveup pre n page out = (n', reply)"
  shows "n' \<le> n + k * listPageMaxTries \<and>
    (\<forall>out' tr. reply = Inr (out', tr) \<longrightarrow> dom out' \<subseteq> dom out \<union> on_pages rs nx pre page \<and>
      (\<not> tr \<longrightarrow> dom out' = dom out \<union> on_pages rs nx pre page))"
  using assms(2)
proof (induction k arbitrary: n page out)
  case (Suc k)
  obtain n1 reply1 where r: "listRunnersPageWithRetry api giveup n page = (n1, reply1)" by force
  then have n1: "n1 \<le> n + listPageMaxTries"
    and ok: "\<And>gs q. reply1 = Inr (gs, q) \<Longrightarrow> gs = rs page \<and> q = nx page"
    using retry_page_calls [of listPageMaxTries api giveup n page n1 reply1] assms(1)
    by (auto simp: listRunnersPageWithRetry_def consistent_pages_def)
  let ?out = "foldl (add_runner pre) out (rs page)"
  consider st where "reply1 = Inl st" | "reply1 = Inr (rs page, nx page)" "nx page = None \<or> nx page = Some 0"
    | q where "reply1 = Inr (rs page, nx page)" "nx page = Some q" "q \<noteq> 0"
  proof (cases reply1)
    case (Inr a)
    then obtain gs q0 where "reply1 = Inr (gs, q0)" by (cases a) auto
    with ok have "reply1 = Inr (rs page, nx page)" by blast
    with that show ?thesis by (cases "nx page") blast+
  qed (rule that(1))
  then show ?case
  proof cases
    case 1
    with Suc.prems r n1 show ?thesis by auto
  next
    case 2
    with Suc.prems r have "n' = n1" "reply = Inr (?out, False)" by (auto simp: Let_def)
    moreover have "dom ?out = dom out \<union> on_pages rs nx pre page"
      using 2(2) add_runners_dom on_pages_step [of rs nx pre page] by auto
    ultimately show ?thesis using n1 by simp
  next
    case 3
    with Suc.prems r have l: "list_pages k api giveup pre n1 q ?out = (n', reply)" by (simp add: Let_def)
    have "on_pages rs nx pre page = grName ` {g \<in> set (rs page). prefix pre (grName g)} \<union> on_pages rs nx pre q"
      using 3 on_pages_step [of rs nx pre page] by simp
    with Suc.IH [OF l] n1 show ?thesis by (simp add: add_runners_dom Un_assoc)
  qed
qed auto

text \<open>
  A listing of the runners costs at most 150 calls of the API, whatever fails. Of an API whose pages
  are consistent it returns only runners of the prefix that are on pages the links lead to, and unless it
  reports a cut at the page cap it returns all of them; a page that cannot be fetched fails the whole
  listing, so that no partial result passes for a complete one.\<close>

theorem listing_complete:
  assumes "consistent_pages api rs nx"
    and "listRunnersByPrefix api giveup pre = (calls, reply)"
  shows "calls \<le> 150 \<and>
    (\<forall>out truncated. reply = Inr (out, truncated) \<longrightarrow> dom out \<subseteq> on_pages rs nx pre 0 \<and>
      (\<not> truncated \<longrightarrow> dom out = on_pages rs nx pre 0))"
  using list_pages_listing [OF assms(1), of maxListPages giveup pre 0 0 Map.empty calls reply] assms(2)
  by (simp add: listRunnersByPrefix_def maxListPages_def listPageMaxTries_def)

theorem listing_complete_witness:
  "\<exists>calls out. listRunnersByPrefix (teApi (ex_tick 0)) (\<lambda>_. False) ''gh'' = (calls, Inr (out, False)) \<and> calls \<le> 150 \<and>
     dom out = on_pages (\<lambda>_. [\<lparr>grName = ''gh-7'', grID = 7, grStatus = ''online'', grBusy = False\<rparr>]) (\<lambda>_. None) ''gh'' 0"
proof -
  have "(case snd (listRunnersByPrefix (teApi (ex_tick 0)) (\<lambda>_. False) ''gh'') of Inl _ \<Rightarrow> False | Inr (_, tr) \<Rightarrow> \<not> tr)" by code_simp
  then obtain out where "snd (listRunnersByPrefix (teApi (ex_tick 0)) (\<lambda>_. False) ''gh'') = Inr (out, False)"
    by (auto split: sum.splits)
  then obtain calls where l: "listRunnersByPrefix (teApi (ex_tick 0)) (\<lambda>_. False) ''gh'' = (calls, Inr (out, False))"
    by (metis prod.collapse)
  have "consistent_pages (teApi (ex_tick 0))
      (\<lambda>_. [\<lparr>grName = ''gh-7'', grID = 7, grStatus = ''online'', grBusy = False\<rparr>]) (\<lambda>_. None)"
    by (simp add: consistent_pages_def ex_tick_def)
  note c = listing_complete [OF this l]
  have "calls \<le> 150" by (rule conjunct1 [OF c])
  moreover have "dom out \<subseteq> on_pages (\<lambda>_. [\<lparr>grName = ''gh-7'', grID = 7, grStatus = ''online'', grBusy = False\<rparr>]) (\<lambda>_. None) ''gh'' 0 \<and>
      (\<not> False \<longrightarrow> dom out = on_pages (\<lambda>_. [\<lparr>grName = ''gh-7'', grID = 7, grStatus = ''online'', grBusy = False\<rparr>]) (\<lambda>_. None) ''gh'' 0)"
    by (rule conjunct2 [OF c, THEN spec, THEN spec, THEN mp, OF refl])
  ultimately show ?thesis using l by (intro exI [of _ calls] exI [of _ out]) simp
qed

section \<open>Delays\<close>

lemma Run_delays_append:
  "Run_delays cfg nb k (oks @ True # js) = Run_delays cfg nb k (oks @ [True]) @ Run_delays cfg nb 0 js"
  by (induction oks arbitrary: k) auto

lemma Run_delays_failures: "Run_delays cfg nb k (replicate j False) = map nb [k..<k + j]"
proof (induction j arbitrary: k)
  case (Suc j)
  have "[k..<k + Suc j] = k # [Suc k..<Suc k + j]" by (simp add: upt_rec)
  with Suc show ?case by simp
qed simp

lemma Run_delays_Nil [simp]: "Run_delays cfg nb k oks = [] \<longleftrightarrow> oks = []"
  by (cases oks) auto

lemma Run_delays_values: "set (Run_delays cfg nb k oks) \<subseteq> insert (PollInterval cfg) (range nb)"
  by (induction oks arbitrary: k) auto

lemma backoff_closed:
  fixes nb :: "nat \<Rightarrow> duration"
  assumes "0 < p" and "p \<le> mx" and "nb 0 = p" and "\<And>k. nb (Suc k) = min (2 * nb k) mx"
  shows "nb k = min (p * 2 ^ k) mx"
proof (induction k)
  case (Suc k)
  show ?case
  proof (cases "p * 2 ^ k \<le> mx")
    case True
    with Suc assms(4) show ?thesis by (simp add: ac_simps)
  next
    case False
    with assms(1,2) have "nb k = mx" "mx \<le> p * 2 ^ Suc k" using Suc by (auto simp: min_def)
    with assms show ?thesis by simp
  qed
qed (use assms in simp)

text \<open>
  With a backoff object that starts at the poll interval and doubles up to its maximum, every wait of
  the loop lies between the poll interval and the maximum; a successful tick is followed by a wait of the
  poll interval, and the wait after the \<open>j + 1\<close>-st consecutive failure is the poll interval doubled
  \<open>j\<close> times, capped at the maximum.\<close>

theorem backoff_delays:
  assumes "0 < PollInterval cfg" and "PollInterval cfg \<le> FailureBackoffMax cfg"
    and "nextBackOff 0 = PollInterval cfg"
    and "\<And>k. nextBackOff (Suc k) = min (2 * nextBackOff k) (FailureBackoffMax cfg)"
  shows "(\<forall>d \<in> set (gh_Run cfg nextBackOff oks). PollInterval cfg \<le> d \<and> d \<le> FailureBackoffMax cfg) \<and>
    last (gh_Run cfg nextBackOff (oks @ [True])) = PollInterval cfg \<and>
    last (gh_Run cfg nextBackOff (oks @ True # replicate (Suc j) False)) = min (PollInterval cfg * 2 ^ j) (FailureBackoffMax cfg)"
proof -
  note nb = backoff_closed [OF assms]
  have "PollInterval cfg \<le> PollInterval cfg * 2 ^ k" for k :: nat
    using assms(1) by (simp add: mult_le_cancel_left1)
  with nb assms(2) have range: "PollInterval cfg \<le> nextBackOff k \<and> nextBackOff k \<le> FailureBackoffMax cfg" for k by simp
  have ends: "last (Run_delays cfg nextBackOff k (oks @ [True])) = PollInterval cfg" for k
    by (induction oks arbitrary: k) auto
  have fails: "last (Run_delays cfg nextBackOff 0 (replicate (Suc j) False)) = nextBackOff j"
    unfolding Run_delays_failures by simp
  have "\<forall>d \<in> set (gh_Run cfg nextBackOff oks). PollInterval cfg \<le> d \<and> d \<le> FailureBackoffMax cfg"
    using range assms(2) Run_delays_values [of cfg nextBackOff 0 oks] by (auto simp: gh_Run_def)
  moreover have "last (gh_Run cfg nextBackOff (oks @ True # replicate (Suc j) False)) = nextBackOff j"
    using fails Run_delays_append [of cfg nextBackOff 0 oks "replicate (Suc j) False"]
    by (simp add: gh_Run_def del: replicate_Suc)
  ultimately show ?thesis using ends nb by (simp add: gh_Run_def)
qed

theorem backoff_delays_witness:
  "last (gh_Run ex_gh (\<lambda>k. min (30 * second * 2 ^ k) (5 * minute)) ([False] @ True # replicate (Suc 2) False)) = 120 * second"
proof -
  have step: "min (30 * second * 2 ^ Suc k) (5 * minute) =
      min (2 * min (30 * second * 2 ^ k) (5 * minute)) (FailureBackoffMax ex_gh)" for k
    by (simp add: ex_gh_def min_def)
  show ?thesis
    using backoff_delays [of ex_gh "\<lambda>k. min (30 * second * 2 ^ k) (5 * minute)", OF _ _ _ step, of "[False]" 2]
    by (simp add: ex_gh_def)
qed

section \<open>The sweep acts\<close>

lemma sweep_keeps: "set acc \<subseteq> set (snd (foldl (sweep_orphan gcfg now known destroyed) (fs, acc) pvs))"
proof (induction pvs arbitrary: fs acc)
  case (Cons x pvs)
  obtain fs' acc' where s: "sweep_orphan gcfg now known destroyed (fs, acc) x = (fs', acc')" by force
  then have "set acc \<subseteq> set acc'" by (auto simp: sweep_orphan_def split: if_splits option.splits)
  then show ?case using Cons.IH [of acc' fs'] s by auto
qed simp

lemma sweep_acts:
  assumes "pv \<in> set pvs" "vmVMID pv \<notin> known" "fs (vmVMID pv) = Some first" "distinct (map vmVMID pvs)"
    and "OrphanGrace gcfg \<le> now - first"
  shows "vmVMID pv \<in> set (snd (foldl (sweep_orphan gcfg now known destroyed) (fs, acc) pvs))"
  using assms(1-4)
proof (induction pvs arbitrary: fs acc)
  case (Cons x pvs)
  obtain fs' acc' where s: "sweep_orphan gcfg now known destroyed (fs, acc) x = (fs', acc')" by force
  show ?case
  proof (cases "x = pv")
    case True
    then have "vmVMID pv \<in> set acc'" using s Cons.prems assms(5) by (auto simp: sweep_orphan_def split: if_splits)
    then show ?thesis using sweep_keeps [of acc' gcfg now known destroyed fs' pvs] s True by auto
  next
    case False
    then have *: "vmVMID x \<noteq> vmVMID pv" "pv \<in> set pvs" using Cons.prems by auto
    then have "fs' (vmVMID pv) = Some first" using s Cons.prems(3) by (auto simp: sweep_orphan_def split: if_splits option.splits)
    then show ?thesis using Cons.IH [of fs' acc'] Cons.prems * s by simp
  qed
qed simp

text \<open>A listed VM without a row that was first seen the grace ago is destroyed by this tick's sweep.\<close>

theorem old_orphan_swept:
  assumes "pv \<in> set pvs" "vmVMID pv \<notin> snapVMID ` set rows" "distinct (map vmVMID pvs)"
    and "fs (vmVMID pv) = Some first" "OrphanGrace gcfg \<le> now - first"
  shows "vmVMID pv \<in> set (snd (sweepProxmoxOrphans gcfg now rows (Some pvs) destroyed fs))"
  using assms sweep_acts [OF assms(1,2) _ assms(3,5)] by (simp add: sweepProxmoxOrphans_def Let_def)

end
