(* ===== verification/Scaler.thy ===== *)
theory Scaler
  imports Reconcile Router Priority Quotas "HOL-Library.Sublist" "HOL-Library.List_Lexorder" "HOL-Library.Char_ord"
begin

text \<open>
  The scaler (\<^verbatim>\<open>internal/scaler/scaler.go\<close>): the listener's three callbacks, translated into
  operations of the pool manager.

  A callback is a function from the pool to its result and the new pool. The metrics it bumps are part
  of the result, as a list of events. What GitHub and Proxmox reply is an argument. The goroutines that
  provision the acquired VMs run in any order: the order is an argument, a permutation of the VMs.
\<close>

section \<open>Configuration and state\<close>

record ScalerConfig =
  ScaleSetID :: int
  ScaleSetName :: string
  WorkFolder :: string
  NamePrefix :: string

text \<open>
  The two counters of \<^verbatim>\<open>QuotaCounter\<close>, reading the table at the time of the call; \<open>None\<close> is an
  error of the lookup. \<open>store_counter\<close> is the one the program wires.
\<close>

record QuotaCounter =
  qcByOrg :: "table \<Rightarrow> string \<Rightarrow> int option"
  qcByRepo :: "table \<Rightarrow> string \<Rightarrow> int option"

definition store_counter :: "(VM list \<Rightarrow> VM list) \<Rightarrow> QuotaCounter" where
  "store_counter ord = \<lparr>qcByOrg = \<lambda>T org. Some (CountByOrg ord T org), qcByRepo = \<lambda>T repo. Some (CountByRepo ord T repo)\<rparr>"

record Scaler =
  slCfg :: ScalerConfig
  slRouter :: "Router option"
  slQuotas :: "Resolver option"
  slPriority :: "Matcher option"
  slCounter :: "QuotaCounter option"

definition scaler_New :: "ScalerConfig \<Rightarrow> Scaler" where
  "scaler_New c =
     \<lparr>slCfg = (if WorkFolder c = '''' then c\<lparr>WorkFolder := ''_work''\<rparr> else c),
      slRouter = None, slQuotas = None, slPriority = None, slCounter = None\<rparr>"

datatype metric =
    MetricUnrouted string
  | MetricPriority string
  | MetricQuotaThrottled Scope string

section \<open>Names\<close>

definition vmidFromRunnerName :: "string \<Rightarrow> string \<Rightarrow> int option" where
  "vmidFromRunnerName nm pre =
     (if \<not> prefix pre nm then None
      else case Atoi (drop (length pre) nm) of
             None \<Rightarrow> None
           | Some vmid \<Rightarrow> if vmid \<le> 0 then None else Some vmid)"

section \<open>Metric labels\<close>

definition unroutedLabelsBucketCount :: "64 word" where
  "unroutedLabelsBucketCount = 64"

definition byte_of :: "char \<Rightarrow> 64 word" where
  "byte_of c = word_of_nat (of_char c)"

text \<open>\<^verbatim>\<open>%02d\<close>\<close>

definition pad2 :: "nat \<Rightarrow> string" where
  "pad2 n = (if n < 10 then CHR ''0'' # digits n else digits n)"

definition bucketNameForMetric :: "string \<Rightarrow> string" where
  "bucketNameForMetric nm =
     (if nm = '''' then ''empty''
      else ''bucket-'' @ pad2 (unat (fnv64a (map byte_of nm) mod unroutedLabelsBucketCount)))"

fun join_bar :: "string list \<Rightarrow> string" where
  "join_bar [] = ''''"
| "join_bar [x] = x"
| "join_bar (x # y # ys) = x @ CHR ''|'' # join_bar (y # ys)"

definition joinLabelsForMetric :: "string list \<Rightarrow> string" where
  "joinLabelsForMetric ls =
     (if ls = [] then ''empty''
      else ''bucket-'' @ pad2 (unat (fnv64a (map byte_of (join_bar (sort ls))) mod unroutedLabelsBucketCount)))"

section \<open>Job callbacks\<close>

record JobStarted =
  jsRunnerName :: string
  jsRunnerID :: int
  jsOwnerName :: string
  jsRepositoryName :: string
  jsRequestLabels :: "string list"

definition classifyJob :: "Scaler \<Rightarrow> JobStarted \<Rightarrow> string \<times> string \<times> Class" where
  "classifyJob s info =
     (let org = jsOwnerName info;
          repo = (if jsOwnerName info \<noteq> '''' \<and> jsRepositoryName info \<noteq> ''''
                  then jsOwnerName info @ ''/'' @ jsRepositoryName info else '''') in
      (org, repo, Classify (slPriority s)
         \<lparr>jobOrg = org, jobRepo = jsRepositoryName info, WorkflowLabels = jsRequestLabels info\<rparr>))"

definition recordPriority :: "Class \<Rightarrow> metric list" where
  "recordPriority class = [MetricPriority (className class)]"

definition quotaCount :: "Scaler \<Rightarrow> table \<Rightarrow> Scope \<Rightarrow> string \<Rightarrow> int option" where
  "quotaCount s T scope nm =
     (case slCounter s of
        None \<Rightarrow> Some 0
      | Some qc \<Rightarrow> (case scope of ScopeRepo \<Rightarrow> qcByRepo qc T nm | ScopeOrg \<Rightarrow> qcByOrg qc T nm | ScopeNone \<Rightarrow> Some 0))"

definition recordQuota :: "Scaler \<Rightarrow> table \<Rightarrow> string \<Rightarrow> string \<Rightarrow> metric list" where
  "recordQuota s T org repo =
     (if \<not> Enabled (slQuotas s) then []
      else
        (let r = Resolve (slQuotas s) org repo in
         if resultScope r = ScopeNone \<or> Cap r = 0 then []
         else case quotaCount s T (resultScope r) (resultName r) of
                None \<Rightarrow> []
              | Some n \<Rightarrow>
                  if Cap r < n then [MetricQuotaThrottled (resultScope r) (bucketNameForMetric (resultName r))] else []))"

definition recordRouting :: "Scaler \<Rightarrow> string list \<Rightarrow> metric list" where
  "recordRouting s jobLabels =
     (case slRouter s of
        None \<Rightarrow> []
      | Some r \<Rightarrow> (case Route (Some r) jobLabels of
                    Inl _ \<Rightarrow> [MetricUnrouted (joinLabelsForMetric jobLabels)]
                  | Inr _ \<Rightarrow> []))"

text \<open>The error of the stamp is logged and dropped; the one of \<^verbatim>\<open>MarkRunning\<close> is returned.\<close>

definition HandleJobStarted ::
  "Scaler \<Rightarrow> time \<Rightarrow> JobStarted \<Rightarrow> manager \<Rightarrow> pool_error option \<times> manager \<times> metric list" where
  "HandleJobStarted s now info m =
     (let routing = recordRouting s (jsRequestLabels info) in
      case vmidFromRunnerName (jsRunnerName info) (NamePrefix (slCfg s)) of
        None \<Rightarrow> (None, m, routing)
      | Some vmid \<Rightarrow>
          (let (org, repo, class) = classifyJob s info;
               m1 = snd (StampJobMetadata m now vmid \<lparr>metaOrg = org, metaRepo = repo, metaPriorityClass = className class\<rparr>);
               (err, m2) = MarkRunning m1 now vmid (jsRunnerID info) in
           (err, m2, routing @ recordPriority class @ recordQuota s (mTable m1) org repo)))"

definition HandleJobCompleted :: "Scaler \<Rightarrow> time \<Rightarrow> string \<Rightarrow> manager \<Rightarrow> pool_error option \<times> manager" where
  "HandleJobCompleted s now runnerName m =
     (case vmidFromRunnerName runnerName (NamePrefix (slCfg s)) of
        None \<Rightarrow> (None, m)
      | Some vmid \<Rightarrow> MarkCompleted m now vmid)"

section \<open>Provisioning\<close>

text \<open>One call of \<^verbatim>\<open>InjectJITConfig\<close>: done, the guest agent not ready yet, or any other failure.\<close>

datatype inject_reply = InjectOK | InjectAgentNotReady | InjectFailed

definition isTransientInjectError :: "inject_reply \<Rightarrow> bool" where
  "isTransientInjectError r = (r = InjectAgentNotReady)"

record injectRetryConfig =
  ircInitialInterval :: duration
  ircMaxInterval :: duration
  ircMaxAttempts :: nat
  ircMaxElapsed :: duration

definition defaultInjectRetry :: injectRetryConfig where
  "defaultInjectRetry = \<lparr>ircInitialInterval = 2 * second, ircMaxInterval = 10 * second, ircMaxAttempts = 6,
     ircMaxElapsed = 60 * second\<rparr>"

text \<open>
  What GitHub and Proxmox do for one acquired VM: whether a provisioning slot was got before the context
  ended, the lookup of a stale registration before and after (\<open>None\<close> for a failed lookup), whether its
  removal succeeds, the minted runner (\<open>None\<close> for an error, \<open>Some None\<close> for a reply without runner),
  the replies of the injections, and after which of them the retry budget is spent or the context ends.
\<close>

record prov_env =
  peSlot :: bool
  peStale :: "bool \<Rightarrow> (int option) option"
  peRemoved :: "int \<Rightarrow> bool"
  peJit :: "(int option) option"
  peInject :: "nat \<Rightarrow> inject_reply"
  peGiveup :: "nat \<Rightarrow> bool"

fun inject_tries :: "nat \<Rightarrow> (nat \<Rightarrow> inject_reply) \<Rightarrow> (nat \<Rightarrow> bool) \<Rightarrow> nat \<Rightarrow> bool" where
  "inject_tries 0 reply giveup n = False"
| "inject_tries (Suc tries) reply giveup n =
     (if reply n = InjectOK then True
      else if \<not> isTransientInjectError (reply n) then False
      else if tries = 0 \<or> giveup n then False
      else inject_tries tries reply giveup (Suc n))"

definition injectWithRetry :: "prov_env \<Rightarrow> bool" where
  "injectWithRetry e = inject_tries (ircMaxAttempts defaultInjectRetry) (peInject e) (peGiveup e) 0"

text \<open>The ids of the registrations that were removed.\<close>

definition cleanupStaleRunnerByName :: "prov_env \<Rightarrow> bool \<Rightarrow> int list" where
  "cleanupStaleRunnerByName e after =
     (case peStale e after of
        Some (Some rid) \<Rightarrow> if peRemoved e rid then [rid] else []
      | _ \<Rightarrow> [])"

definition provisionOne :: "time \<Rightarrow> prov_env \<Rightarrow> poolVM \<Rightarrow> manager \<Rightarrow> bool \<times> manager \<times> int list" where
  "provisionOne now e vmObj m =
     (let stale = cleanupStaleRunnerByName e False in
      case peJit e of
        None \<Rightarrow> (False, snd (MarkCompleted m now (vmVMID vmObj)), stale)
      | Some runner \<Rightarrow>
          (let runnerID = (case runner of None \<Rightarrow> 0 | Some rid \<Rightarrow> rid);
               m1 = (if runnerID > 0 then snd (SetRunnerID m now (vmVMID vmObj) runnerID) else m) in
           if \<not> injectWithRetry e
           then (False, snd (MarkCompleted m1 now (vmVMID vmObj)), stale @ cleanupStaleRunnerByName e True)
           else (True, m1, stale)))"

text \<open>A VM's turn: without a slot it is released at once.\<close>

definition provision_turn :: "time \<Rightarrow> (int \<Rightarrow> prov_env) \<Rightarrow> int \<times> manager \<Rightarrow> poolVM \<Rightarrow> int \<times> manager" where
  "provision_turn now env s vmObj =
     (case s of (delivered, m) \<Rightarrow>
        let e = env (vmVMID vmObj) in
        if \<not> peSlot e then (delivered, snd (MarkCompleted m now (vmVMID vmObj)))
        else (case provisionOne now e vmObj m of (ok, m', _) \<Rightarrow> (if ok then delivered + 1 else delivered, m')))"

definition provisionAcquired ::
  "time \<Rightarrow> (int \<Rightarrow> prov_env) \<Rightarrow> (poolVM list \<Rightarrow> poolVM list) \<Rightarrow> poolVM list \<Rightarrow> manager \<Rightarrow> int \<times> manager" where
  "provisionAcquired now env sched vms m = foldl (provision_turn now env) (0, m) (sched vms)"

text \<open>At most \<open>need\<close> claims; the first error, of whatever kind, ends the loop.\<close>

fun preAcquireVMs :: "(VM list \<Rightarrow> VM list) \<Rightarrow> time \<Rightarrow> int \<Rightarrow> nat \<Rightarrow> manager \<Rightarrow> poolVM list \<times> manager" where
  "preAcquireVMs ord now n 0 m = ([], m)"
| "preAcquireVMs ord now n (Suc need) m =
     (case Acquire ord m now 0 n of
        (Inl _, m') \<Rightarrow> ([], m')
      | (Inr vmObj, m') \<Rightarrow> (case preAcquireVMs ord now n need m' of (vms, m'') \<Rightarrow> (vmObj # vms, m'')))"

definition HandleDesiredRunnerCount ::
  "(VM list \<Rightarrow> VM list) \<Rightarrow> time \<Rightarrow> (int \<Rightarrow> prov_env) \<Rightarrow> (poolVM list \<Rightarrow> poolVM list) \<Rightarrow> int \<Rightarrow> manager \<Rightarrow> int \<times> manager" where
  "HandleDesiredRunnerCount ord now env sched n m =
     (let m0 = SetDesiredCount m n in
      if n \<le> 0 then (0, m0)
      else
        (let need = n - Busy (pool_Stats ord m0) in
         if need \<le> 0 then (0, m0)
         else
           (let (vms, m1) = preAcquireVMs ord now n (nat need) m0 in
            if vms = [] then (0, m1) else provisionAcquired now env sched vms m1)))"

section \<open>Runner names\<close>

text \<open>
  The VMID can be read back from the runner name the pool gives a VM, the prefix followed by the
  decimal VMID, and a name with anything but further digits after the VMID is rejected.\<close>

theorem runner_name_round_trip:
  assumes "0 < vmid" and "vmid \<le> 9223372036854775807"
  shows "vmidFromRunnerName (pre @ itoa vmid) pre = Some vmid \<and>
    (\<not> (48 \<le> (of_char c :: nat) \<and> (of_char c :: nat) \<le> 57) \<longrightarrow> vmidFromRunnerName (pre @ itoa vmid @ c # rest) pre = None)"
  using assms Atoi_digits [of "nat vmid" "[]"] Atoi_digits [of "nat vmid" "c # rest"]
  by (auto simp: vmidFromRunnerName_def itoa_def)

theorem runner_name_round_trip_witness:
  "vmidFromRunnerName (''gh-runner-'' @ itoa 10042) ''gh-runner-'' = Some 10042 \<and>
   vmidFromRunnerName (''gh-runner-'' @ itoa 10042 @ ''xyz'') ''gh-runner-'' = None"
  using runner_name_round_trip [of 10042 "''gh-runner-''" "CHR ''x''" "''yz''"] by simp

section \<open>Cardinality of the metric labels\<close>

lemma bucket_range: "unat (h mod unroutedLabelsBucketCount) < 64"
proof -
  have "h mod (64 :: 64 word) < 64" by (rule word_mod_less_divisor) simp
  then show ?thesis by (simp add: unroutedLabelsBucketCount_def word_less_nat_alt)
qed

text \<open>
  The labels the scaler puts on its metrics are of bounded cardinality whatever a workflow author
  writes: job label sets and organisation or repository names are rendered as one of at most 65 strings.
  A set of job labels is rendered the same in whatever order it arrives.\<close>

theorem metric_labels_bounded:
  "card (range joinLabelsForMetric \<union> range bucketNameForMetric) \<le> 65 \<and>
   (mset ls = mset ls' \<longrightarrow> joinLabelsForMetric ls = joinLabelsForMetric ls')"
proof -
  let ?B = "insert ''empty'' ((\<lambda>n. ''bucket-'' @ pad2 n) ` {..<64 :: nat})"
  have "range joinLabelsForMetric \<union> range bucketNameForMetric \<subseteq> ?B"
    using bucket_range by (auto simp: joinLabelsForMetric_def bucketNameForMetric_def)
  then have "card (range joinLabelsForMetric \<union> range bucketNameForMetric) \<le> card ?B" by (intro card_mono) auto
  also have "\<dots> \<le> Suc (card ((\<lambda>n. ''bucket-'' @ pad2 n) ` {..<64 :: nat}))" by (rule card_insert_le_m1) auto
  also have "\<dots> \<le> 65" using card_image_le [of "{..<64 :: nat}" "\<lambda>n. ''bucket-'' @ pad2 n"] by simp
  finally have "card (range joinLabelsForMetric \<union> range bucketNameForMetric) \<le> 65" .
  moreover have "joinLabelsForMetric ls = joinLabelsForMetric ls'" if "mset ls = mset ls'"
  proof -
    from that have "sort ls = sort ls'" by (metis properties_for_sort mset_sort sorted_sort)
    moreover from that have "ls = [] \<longleftrightarrow> ls' = []" by auto
    ultimately show ?thesis by (simp add: joinLabelsForMetric_def)
  qed
  ultimately show ?thesis by blast
qed

theorem metric_labels_bounded_witness:
  "joinLabelsForMetric [''linux'', ''gpu''] = joinLabelsForMetric [''gpu'', ''linux'']"
  using metric_labels_bounded [of "[''linux'', ''gpu'']" "[''gpu'', ''linux'']"] by (simp add: add_mset_commute)

section \<open>Counting busy rows\<close>

definition busy_ids :: "table \<Rightarrow> int set" where
  "busy_ids T = {i. \<exists>v. txn_first T i = Some v \<and> busy v}"

lemma busy_ids_card: "wf_table T \<Longrightarrow> finite (busy_ids T) \<and> length (filter busy T) = card (busy_ids T)"
proof -
  assume wf: "wf_table T"
  then have d: "distinct (map VMID T)" by (simp add: wf_table_def)
  have "busy_ids T = VMID ` set (filter busy T)"
    using txn_first_iff [OF d] by (auto simp: busy_ids_def)
  moreover have "distinct (map VMID (filter busy T))" using d by (simp add: distinct_map_filter)
  ultimately show ?thesis by (metis List.finite_set distinct_card length_map set_map)
qed

lemma busy_ids_update:
  assumes "txn_first T' = (txn_first T)(i \<mapsto> w)"
  shows "busy_ids T' = (if busy w then insert i (busy_ids T) else busy_ids T - {i})"
  using assms by (auto simp: busy_ids_def)

lemma Busy_rows: "row_order ord \<Longrightarrow> Busy (pool_Stats ord m) = int (length (filter busy (mTable m)))"
proof -
  assume o: "row_order ord"
  have each: "Stats ord (mTable m) st = Some (int (length (filter (\<lambda>v. StateOf v = st) (mTable m))))" for st
    by (cases st) (simp_all add: Stats_def AllStates_def row_order.bucket_length [OF o])
  have "filter busy (mTable m) = filter (\<lambda>v. StateOf v = StateAssigned \<or> StateOf v = StateRunning) (mTable m)"
    by (simp add: busy_def cong: filter_cong)
  then show ?thesis
    by (simp add: Busy_def pool_Stats_def statsFromRaw_def map_get_def each length_filter_disj)
qed

section \<open>Acquiring\<close>

lemma Acquire_row:
  assumes "row_order ord" and "wf_table (mTable m)" and "Acquire ord m now 0 n = (Inr vm, m')" and "0 < n"
  obtains v w where "txn_first (mTable m) (vmVMID vm) = Some v" and "StateOf v = StateHot"
    and "txn_first (mTable m') = (txn_first (mTable m))(vmVMID vm \<mapsto> w)" and "StateOf w = StateAssigned"
    and "same_identity v w" and "wf_table (mTable m')" and "int (length (filter busy (mTable m'))) \<le> n"
    and "length (filter busy (mTable m')) = Suc (length (filter busy (mTable m)))"
proof -
  from assms(3) obtain row T' where a: "AcquireHotInProfile ord (mTable m) now '''' 0 (MaxConcurrentRunners (mCfg m)) n = Inr (row, T')"
    "vm = pool_vm row (Profile row)" "mTable m' = T'"
    by (auto simp: Acquire_def AcquireHot_def split: sum.splits store_error.splits)
  obtain v where v: "txn_first (mTable m) (VMID v) = Some v" "StateOf v = StateHot"
      "row = v\<lparr>StateOf := StateAssigned, JobID := 0, StateSince := now, UpdatedAt := now\<rparr>" "T' = put (mTable m) row"
      "indexable row" "VMID row = VMID v"
    using row_order.acquire_row [OF assms(1,2) a(1)] by metis
  have id: "vmVMID vm = VMID v" using a(2) v(6) by (simp add: pool_vm_def)
  have f: "txn_first T' = (txn_first (mTable m))(VMID v \<mapsto> row)" using v(4,6) by (simp add: fun_eq_iff put_first)
  have "0 < VMID v" using assms(2) txn_first_SomeD [OF v(1)] by (auto simp: wf_table_def)
  then have wf: "wf_table T'" unfolding v(4) using v(5,6) by (intro wf_put [OF assms(2)]) auto
  have c: "countBusy ord T' '''' \<le> n \<and> countBusy ord T' '''' = countBusy ord (mTable m) '''' + 1"
    using row_order.acquire_caps [OF assms(1,2) a(1)] assms(4) by blast
  have b: "countBusy ord T '''' = int (length (filter busy T))" for T
    by (simp add: row_order.countBusy_busy [OF assms(1)])
  show ?thesis
    using that [of v row] v id f wf c unfolding b a(3) by (simp add: same_identity_def)
qed

lemma Acquire_refused:
  "Acquire ord m now j n = (Inl e, m') \<Longrightarrow> mTable m' = mTable m"
  by (auto simp: Acquire_def split: sum.splits store_error.splits)

text \<open>The claimed VMs are distinct, their rows were hot and are assigned, and each added one busy row.\<close>

lemma preAcquire_rows:
  assumes "row_order ord" and "0 < n" and "wf_table (mTable m)" and "preAcquireVMs ord now n k m = (vms, m')"
  shows "wf_table (mTable m') \<and> length vms \<le> k \<and> distinct (map vmVMID vms) \<and>
    length (filter busy (mTable m')) = length (filter busy (mTable m)) + length vms \<and>
    (vms \<noteq> [] \<longrightarrow> int (length (filter busy (mTable m'))) \<le> n) \<and>
    (\<forall>vm \<in> set vms. \<exists>v w. txn_first (mTable m) (vmVMID vm) = Some v \<and> StateOf v = StateHot \<and>
       txn_first (mTable m') (vmVMID vm) = Some w \<and> StateOf w = StateAssigned) \<and>
    (\<forall>i. i \<notin> vmVMID ` set vms \<longrightarrow> txn_first (mTable m') i = txn_first (mTable m) i)"
  using assms(3,4)
proof (induction k arbitrary: m vms)
  case (Suc k)
  show ?case
  proof (cases "Acquire ord m now 0 n")
    case (Pair r m1)
    show ?thesis
    proof (cases r)
      case (Inl e)
      with Suc.prems Pair show ?thesis by (auto simp: Acquire_refused)
    next
      case (Inr vm)
      with Suc.prems(2) Pair obtain vms' where p: "preAcquireVMs ord now n k m1 = (vms', m')" "vms = vm # vms'"
        by (auto split: prod.splits)
      from Pair Inr have a: "Acquire ord m now 0 n = (Inr vm, m1)" by simp
      from Acquire_row [OF assms(1) Suc.prems(1) a assms(2)] obtain v w where
        v: "txn_first (mTable m) (vmVMID vm) = Some v" "StateOf v = StateHot"
          "txn_first (mTable m1) = (txn_first (mTable m))(vmVMID vm \<mapsto> w)" "StateOf w = StateAssigned"
          "wf_table (mTable m1)" "int (length (filter busy (mTable m1))) \<le> n"
          "length (filter busy (mTable m1)) = Suc (length (filter busy (mTable m)))" by metis
      note IH = Suc.IH [OF v(5) p(1)]
      have ids: "u \<in> set vms' \<Longrightarrow> vmVMID u \<noteq> vmVMID vm" for u
        using IH v(3,4) by fastforce
      have rest: "\<exists>v w. txn_first (mTable m) (vmVMID u) = Some v \<and> StateOf v = StateHot \<and>
          txn_first (mTable m') (vmVMID u) = Some w \<and> StateOf w = StateAssigned" if "u \<in> set vms'" for u
        using IH that ids [OF that] v(3) by (metis fun_upd_other)
      have new: "vmVMID vm \<notin> vmVMID ` set vms'" using ids by fastforce
      then have "txn_first (mTable m') (vmVMID vm) = Some w" using IH v(3) by simp
      with new IH rest v p(2) show ?thesis by (cases "vms' = []") auto
    qed
  qed
qed auto

section \<open>Delivering\<close>

lemma MarkCompleted_assigned:
  assumes "wf_table (mTable m)" and "txn_first (mTable m) i = Some v" and "StateOf v = StateAssigned"
  shows "wf_table (mTable (snd (MarkCompleted m now i))) \<and>
    (\<exists>w. txn_first (mTable (snd (MarkCompleted m now i))) = (txn_first (mTable m))(i \<mapsto> w) \<and> same_identity v w \<and>
      StateOf w \<in> {StateRecycling, StateDraining})"
proof -
  let ?to = "if shouldRecycle m now v then StateRecycling else StateDraining" and ?f = "\<lambda>v. v\<lparr>StateSince := now\<rparr>"
  have get: "Get (mTable m) i = Inr v" using assms(2) by (simp add: Get_def)
  show ?thesis
  proof (rule cas_cases [OF assms(1), of ?f now i "[StateAssigned, StateRunning]" ?to])
    show "benign ?f" by simp
  next
    assume "\<And>v. txn_first (mTable m) i = Some v \<Longrightarrow> StateOf v \<notin> set [StateAssigned, StateRunning]"
    with assms show ?thesis by auto
  next
    fix v' T'
    assume "txn_first (mTable m) i = Some v'" "UpdateStateIn (mTable m) now i [StateAssigned, StateRunning] ?to ?f = Inr (Some T')"
      "txn_first T' = (txn_first (mTable m))(i \<mapsto> ?f (cas_row now ?to v'))" "wf_table T'"
    with assms(2,3) show ?thesis
      by (auto simp: MarkCompleted_def get MarkCompleted_from_def same_identity_def cas_row_def)
  qed
qed

lemma SetRunnerID_row:
  assumes "wf_table (mTable m)" and "txn_first (mTable m) i = Some v" and "0 < rid"
  shows "wf_table (mTable (snd (SetRunnerID m now i rid))) \<and>
    txn_first (mTable (snd (SetRunnerID m now i rid))) = (txn_first (mTable m))(i \<mapsto> v\<lparr>RunnerID := rid, UpdatedAt := now\<rparr>)"
  by (rule update_cases [OF assms(1), of "\<lambda>v. v\<lparr>RunnerID := rid\<rparr>" now i])
    (use assms in \<open>auto simp: SetRunnerID_def\<close>)

definition minted :: "prov_env \<Rightarrow> int" where
  "minted e = (case peJit e of Some (Some rid) \<Rightarrow> rid | _ \<Rightarrow> 0)"

definition delivers :: "prov_env \<Rightarrow> bool" where
  "delivers e \<longleftrightarrow> peSlot e \<and> peJit e \<noteq> None \<and> injectWithRetry e"

text \<open>What becomes of an acquired row: delivered with the minted runner's id, or released.\<close>

definition turn_outcome :: "prov_env \<Rightarrow> VM \<Rightarrow> bool" where
  "turn_outcome e w \<longleftrightarrow>
     (if delivers e then StateOf w = StateAssigned \<and> (0 < minted e \<longrightarrow> RunnerID w = minted e)
      else StateOf w \<in> {StateRecycling, StateDraining})"

lemma provision_turn_row:
  assumes "wf_table (mTable m)" and "txn_first (mTable m) (vmVMID vm) = Some v" and "StateOf v = StateAssigned"
    and "provision_turn now env (d, m) vm = (d', m')" and "e = env (vmVMID vm)"
  shows "wf_table (mTable m') \<and> d' = d + (if delivers e then 1 else 0) \<and>
    (\<exists>w. txn_first (mTable m') = (txn_first (mTable m))(vmVMID vm \<mapsto> w) \<and> turn_outcome e w)"
proof -
  let ?i = "vmVMID vm" and ?rid = "minted e"
  let ?m1 = "if ?rid > 0 then snd (SetRunnerID m now ?i ?rid) else m"
  define v1 where "v1 = (if ?rid > 0 then v\<lparr>RunnerID := ?rid, UpdatedAt := now\<rparr> else v)"
  have one: "wf_table (mTable ?m1) \<and> txn_first (mTable ?m1) = (txn_first (mTable m))(?i \<mapsto> v1)"
    using SetRunnerID_row [OF assms(1,2)] assms(1,2) by (auto simp: v1_def fun_upd_idem)
  have st: "StateOf v1 = StateAssigned" "0 < ?rid \<longrightarrow> RunnerID v1 = ?rid" using assms(3) by (auto simp: v1_def)
  note release = MarkCompleted_assigned [OF assms(1-3), of now]
  have "wf_table (mTable (snd (MarkCompleted ?m1 now ?i))) \<and>
      (\<exists>w. txn_first (mTable (snd (MarkCompleted ?m1 now ?i))) = (txn_first (mTable ?m1))(?i \<mapsto> w) \<and>
        same_identity v1 w \<and> StateOf w \<in> {StateRecycling, StateDraining})"
    by (rule MarkCompleted_assigned) (use one st in auto)
  then have undo: "wf_table (mTable (snd (MarkCompleted ?m1 now ?i))) \<and>
      (\<exists>w. txn_first (mTable (snd (MarkCompleted ?m1 now ?i))) = (txn_first (mTable m))(?i \<mapsto> w) \<and>
        StateOf w \<in> {StateRecycling, StateDraining})"
    using one by auto
  consider "\<not> peSlot e \<or> peJit e = None" | "peSlot e" "peJit e \<noteq> None" "\<not> injectWithRetry e" | "delivers e"
    unfolding delivers_def by blast
  then show ?thesis
  proof cases
    case 1
    then have "(d', m') = (d, snd (MarkCompleted m now ?i))" using assms(4,5)
      by (auto simp: provision_turn_def provisionOne_def Let_def split: if_splits)
    with 1 release show ?thesis by (auto simp: turn_outcome_def delivers_def)
  next
    case 2
    then have "(d', m') = (d, snd (MarkCompleted ?m1 now ?i))" using assms(4,5)
      by (auto simp: provision_turn_def provisionOne_def minted_def Let_def split: option.splits)
    with 2 undo show ?thesis by (auto simp: turn_outcome_def delivers_def)
  next
    case 3
    then have "(d', m') = (d + 1, ?m1)" using assms(4,5)
      by (auto simp: provision_turn_def provisionOne_def minted_def delivers_def Let_def split: option.splits)
    with 3 one st show ?thesis by (auto simp: turn_outcome_def)
  qed
qed

lemma provision_turns:
  assumes "wf_table (mTable m)" and "distinct (map vmVMID vms)"
    and "\<forall>vm \<in> set vms. \<exists>v. txn_first (mTable m) (vmVMID vm) = Some v \<and> StateOf v = StateAssigned"
    and "foldl (provision_turn now env) (d, m) vms = (d', m')"
  shows "wf_table (mTable m') \<and> d' = d + int (length (filter (\<lambda>vm. delivers (env (vmVMID vm))) vms)) \<and>
    (\<forall>vm \<in> set vms. \<exists>w. txn_first (mTable m') (vmVMID vm) = Some w \<and> turn_outcome (env (vmVMID vm)) w) \<and>
    (\<forall>i. i \<notin> vmVMID ` set vms \<longrightarrow> txn_first (mTable m') i = txn_first (mTable m) i)"
  using assms
proof (induction vms arbitrary: d m)
  case (Cons vm vms)
  obtain d1 m1 where t: "provision_turn now env (d, m) vm = (d1, m1)" by force
  from Cons.prems(3) obtain v where v: "txn_first (mTable m) (vmVMID vm) = Some v" "StateOf v = StateAssigned" by auto
  from provision_turn_row [OF Cons.prems(1) v t refl] obtain w where
    w: "wf_table (mTable m1)" "d1 = d + (if delivers (env (vmVMID vm)) then 1 else 0)"
      "txn_first (mTable m1) = (txn_first (mTable m))(vmVMID vm \<mapsto> w)" "turn_outcome (env (vmVMID vm)) w" by auto
  from Cons.prems(2) have new: "vmVMID vm \<notin> vmVMID ` set vms" and d: "distinct (map vmVMID vms)" by auto
  have r: "\<forall>u \<in> set vms. \<exists>v. txn_first (mTable m1) (vmVMID u) = Some v \<and> StateOf v = StateAssigned"
    using Cons.prems(3) new w(3) by (auto simp: image_iff)
  from t Cons.prems(4) have f: "foldl (provision_turn now env) (d1, m1) vms = (d', m')" by simp
  from Cons.IH [OF w(1) d r f] w new show ?case by auto
qed simp

lemma provisionAcquired_rows:
  assumes "\<forall>xs. mset (sched xs) = mset xs" and "wf_table (mTable m)" and "distinct (map vmVMID vms)"
    and "\<forall>vm \<in> set vms. \<exists>v. txn_first (mTable m) (vmVMID vm) = Some v \<and> StateOf v = StateAssigned"
    and "provisionAcquired now env sched vms m = (d, m')"
  shows "wf_table (mTable m') \<and> d = int (length (filter (\<lambda>vm. delivers (env (vmVMID vm))) vms)) \<and>
    (\<forall>vm \<in> set vms. \<exists>w. txn_first (mTable m') (vmVMID vm) = Some w \<and> turn_outcome (env (vmVMID vm)) w) \<and>
    (\<forall>i. i \<notin> vmVMID ` set vms \<longrightarrow> txn_first (mTable m') i = txn_first (mTable m) i)"
proof -
  from assms(1) have ms: "mset (sched vms) = mset vms" by blast
  then have s: "set (sched vms) = set vms" by (metis set_mset_mset)
  have "mset (map vmVMID (sched vms)) = mset (map vmVMID vms)" using ms by simp
  then have d: "distinct (map vmVMID (sched vms))" using assms(3) by (metis mset_eq_imp_distinct_iff)
  have f: "foldl (provision_turn now env) (0, m) (sched vms) = (d, m')" using assms(5) by (simp add: provisionAcquired_def)
  from provision_turns [OF assms(2) d _ f] s assms(4) mset_eq_length_filter [OF ms] show ?thesis by simp
qed

text \<open>
  C19. Every VM the scaler claims for a demand message ends in one of two ways, whatever GitHub and Proxmox
  reply, whenever the context ends and in whatever order the workers finish. It was hot, and either it
  got its slot, its configuration and its injection, is counted as delivered, and stays assigned under the
  id of the runner minted for it; or it is not counted and its row is released to recycling or draining.
  No other row of the pool changes.\<close>

theorem delivery_outcome:
  assumes "row_order ord" and "wf_table (mTable m)" and "0 < n" and "\<forall>xs. mset (sched xs) = mset xs"
    and "preAcquireVMs ord now n need m = (vms, m1)" and "provisionAcquired now env sched vms m1 = (delivered, m2)"
  shows "delivered = int (length (filter (\<lambda>vm. delivers (env (vmVMID vm))) vms)) \<and>
    (\<forall>vm \<in> set vms. (\<exists>v. txn_first (mTable m) (vmVMID vm) = Some v \<and> StateOf v = StateHot) \<and>
      (\<exists>w. txn_first (mTable m2) (vmVMID vm) = Some w \<and>
        (if delivers (env (vmVMID vm))
         then StateOf w = StateAssigned \<and> (0 < minted (env (vmVMID vm)) \<longrightarrow> RunnerID w = minted (env (vmVMID vm)))
         else StateOf w \<in> {StateRecycling, StateDraining}))) \<and>
    (\<forall>i. i \<notin> vmVMID ` set vms \<longrightarrow> txn_first (mTable m2) i = txn_first (mTable m) i)"
proof -
  note acq = preAcquire_rows [OF assms(1,3,2,5)]
  then have "\<forall>vm \<in> set vms. \<exists>v. txn_first (mTable m1) (vmVMID vm) = Some v \<and> StateOf v = StateAssigned" by blast
  from provisionAcquired_rows [OF assms(4) _ _ this assms(6)] acq show ?thesis
    unfolding turn_outcome_def by metis
qed

lemma released_busy:
  assumes "wf_table (mTable m)" and "wf_table (mTable m')" and "distinct (map vmVMID vms)"
    and "\<forall>vm \<in> set vms. \<exists>v. txn_first (mTable m) (vmVMID vm) = Some v \<and> StateOf v = StateAssigned"
    and "\<forall>vm \<in> set vms. \<exists>w. txn_first (mTable m') (vmVMID vm) = Some w \<and> turn_outcome (env (vmVMID vm)) w"
    and "\<forall>i. i \<notin> vmVMID ` set vms \<longrightarrow> txn_first (mTable m') i = txn_first (mTable m) i"
  shows "length (filter busy (mTable m')) + length (filter (\<lambda>vm. \<not> delivers (env (vmVMID vm))) vms) = length (filter busy (mTable m))"
proof -
  let ?lost = "filter (\<lambda>vm. \<not> delivers (env (vmVMID vm))) vms"
  have out: "busy w \<longleftrightarrow> delivers e" if "turn_outcome e w" for e w
    using that by (auto simp: turn_outcome_def busy_def split: if_splits)
  have "i \<in> busy_ids (mTable m') \<longleftrightarrow> i \<in> busy_ids (mTable m) - vmVMID ` set ?lost" for i
  proof (cases "i \<in> vmVMID ` set vms")
    case False
    with assms(6) show ?thesis by (auto simp: busy_ids_def)
  next
    case True
    then obtain vm where vm: "vm \<in> set vms" "i = vmVMID vm" by blast
    have only: "i \<in> vmVMID ` set ?lost \<longleftrightarrow> \<not> delivers (env i)" using True vm by auto
    from assms(4,5) vm obtain v w where "txn_first (mTable m) i = Some v" "StateOf v = StateAssigned"
      "txn_first (mTable m') i = Some w" "turn_outcome (env i) w" by metis
    with out only show ?thesis by (auto simp: busy_ids_def busy_def)
  qed
  then have eq: "busy_ids (mTable m') = busy_ids (mTable m) - vmVMID ` set ?lost" by blast
  have sub: "vmVMID ` set ?lost \<subseteq> busy_ids (mTable m)"
    using assms(4) by (auto simp: busy_ids_def busy_def)
  have "card (vmVMID ` set ?lost) = length ?lost"
    using distinct_card [of "map vmVMID ?lost"] distinct_map_filter [OF assms(3)] by simp
  with eq sub busy_ids_card [OF assms(1)] busy_ids_card [OF assms(2)] show ?thesis
    by (metis card_Diff_subset card_mono finite_subset le_add_diff_inverse2)
qed

text \<open>
  C18. A demand message is served up to the requested total and never beyond: with \<open>b\<close> busy VMs before,
  the handler delivers at most \<open>count - b\<close> runners, and afterwards exactly the delivered ones are busy in
  addition, so that the busy VMs exceed the requested count only if they did before. Repeating a message
  that is already satisfied changes no row, as does a count of zero or less.\<close>

theorem desired_count_served:
  assumes "row_order ord" and "wf_table (mTable m)" and "\<forall>xs. mset (sched xs) = mset xs"
    and "HandleDesiredRunnerCount ord now env sched n m = (delivered, m')"
    and "b = int (length (filter busy (mTable m)))"
  shows "wf_table (mTable m') \<and> 0 \<le> delivered \<and> delivered \<le> max 0 (n - b) \<and>
    int (length (filter busy (mTable m'))) = b + delivered \<and> (n \<le> b \<longrightarrow> mTable m' = mTable m)"
proof -
  let ?m0 = "SetDesiredCount m n"
  have t0: "mTable ?m0 = mTable m" by (simp add: SetDesiredCount_def Let_def)
  have busy: "Busy (pool_Stats ord ?m0) = b" using Busy_rows [OF assms(1), of ?m0] t0 assms(5) by simp
  show ?thesis
  proof (cases "0 < n \<and> b < n")
    case False
    then have "delivered = 0 \<and> m' = ?m0" using assms(4) busy by (auto simp: HandleDesiredRunnerCount_def Let_def split: if_splits)
    with t0 assms(2,5) show ?thesis by simp
  next
    case True
    obtain vms m1 where p: "preAcquireVMs ord now n (nat (n - b)) ?m0 = (vms, m1)" by force
    have wf0: "wf_table (mTable ?m0)" using assms(2) t0 by simp
    from True have n: "0 < n" by simp
    note acq = preAcquire_rows [OF assms(1) n wf0 p]
    have res: "(delivered, m') = (if vms = [] then (0, m1) else provisionAcquired now env sched vms m1)"
      using assms(4) True busy p by (simp add: HandleDesiredRunnerCount_def Let_def)
    have all: "\<forall>vm \<in> set vms. \<exists>v. txn_first (mTable m1) (vmVMID vm) = Some v \<and> StateOf v = StateAssigned" using acq by blast
    show ?thesis
    proof (cases "vms = []")
      case True
      with res acq t0 assms(5) \<open>0 < n \<and> b < n\<close> show ?thesis by simp
    next
      case False
      with res have pr: "provisionAcquired now env sched vms m1 = (delivered, m')" by simp
      have w1: "wf_table (mTable m1)" and d1: "distinct (map vmVMID vms)" using acq by blast+
      note fin = provisionAcquired_rows [OF assms(3) w1 d1 all pr]
      then have "length (filter busy (mTable m')) + length (filter (\<lambda>vm. \<not> delivers (env (vmVMID vm))) vms) =
          length (filter busy (mTable m1))"
        by (intro released_busy [OF w1 _ d1 all]) blast+
      moreover have "length vms = length (filter (\<lambda>vm. delivers (env (vmVMID vm))) vms) +
          length (filter (\<lambda>vm. \<not> delivers (env (vmVMID vm))) vms)" by (rule sum_length_filter_compl [symmetric])
      moreover have "int (length vms) \<le> n - b" using acq True by linarith
      ultimately show ?thesis using fin acq t0 assms(5) True by simp
    qed
  qed
qed

definition ex_env :: "int \<Rightarrow> prov_env" where
  "ex_env i = \<lparr>peSlot = True, peStale = \<lambda>_. Some None, peRemoved = \<lambda>_. True, peJit = Some (Some (1000 + i)),
     peInject = \<lambda>n. if i = 101 then InjectFailed else if n = 0 then InjectAgentNotReady else InjectOK, peGiveup = \<lambda>_. False\<rparr>"

lemma ex_pool_three:
  "mTable (ex_pool [ex_vm 100 StateHot, ex_vm 101 StateHot, ex_vm 102 StateRunning]) =
     [ex_vm 100 StateHot, ex_vm 101 StateHot, ex_vm 102 StateRunning]"
  "wf_table [ex_vm 100 StateHot, ex_vm 101 StateHot, ex_vm 102 StateRunning]"
proof -
  show "mTable (ex_pool [ex_vm 100 StateHot, ex_vm 101 StateHot, ex_vm 102 StateRunning]) =
     [ex_vm 100 StateHot, ex_vm 101 StateHot, ex_vm 102 StateRunning]" by code_simp
qed (simp add: wf_table_def ex_vm_def indexable_def)

theorem delivery_outcome_witness:
  "\<exists>vms m1 m2. preAcquireVMs (sort_key VMID) 9 3 2 (ex_pool [ex_vm 100 StateHot, ex_vm 101 StateHot, ex_vm 102 StateRunning]) = (vms, m1) \<and>
     provisionAcquired 9 ex_env rev vms m1 = (1, m2) \<and> length vms = 2"
proof -
  let ?m = "ex_pool [ex_vm 100 StateHot, ex_vm 101 StateHot, ex_vm 102 StateRunning]"
  obtain vms m1 where p: "preAcquireVMs (sort_key VMID) 9 3 2 ?m = (vms, m1)" by force
  obtain d m2 where r: "provisionAcquired 9 ex_env rev vms m1 = (d, m2)" by force
  have "map vmVMID (fst (preAcquireVMs (sort_key VMID) 9 3 2 ?m)) = [100, 101]" by code_simp
  then have v: "map vmVMID vms = [100, 101]" using p by simp
  then obtain x y where xy: "vms = [x, y]" "vmVMID x = 100" "vmVMID y = 101" by auto
  have "delivers (ex_env 100)" "\<not> delivers (ex_env 101)" by code_simp+
  with delivery_outcome [OF by_vmid.row_order_axioms _ _ _ p r] xy have "d = 1" by (simp add: ex_pool_three)
  with p r xy show ?thesis by auto
qed

theorem desired_count_served_witness:
  "\<exists>m'. HandleDesiredRunnerCount (sort_key VMID) 9 ex_env rev 3
      (ex_pool [ex_vm 100 StateHot, ex_vm 101 StateHot, ex_vm 102 StateRunning]) = (1, m') \<and>
    int (length (filter busy (mTable m'))) = 2"
proof -
  let ?m = "ex_pool [ex_vm 100 StateHot, ex_vm 101 StateHot, ex_vm 102 StateRunning]"
  obtain d m' where h: "HandleDesiredRunnerCount (sort_key VMID) 9 ex_env rev 3 ?m = (d, m')" by force
  have "fst (HandleDesiredRunnerCount (sort_key VMID) 9 ex_env rev 3 ?m) = 1" by code_simp
  with h have "d = 1" by simp
  moreover have "int (length (filter busy (mTable ?m))) = 1" unfolding ex_pool_three by (simp add: busy_def ex_vm_def)
  ultimately show ?thesis
    using desired_count_served [OF by_vmid.row_order_axioms _ _ h refl] h by (simp add: ex_pool_three)
qed

section \<open>Job callbacks\<close>

lemma StampJobMetadata_row:
  assumes "wf_table (mTable m)" and "txn_first (mTable m) i = Some v"
  shows "wf_table (mTable (snd (StampJobMetadata m now i meta))) \<and>
    (\<exists>w. txn_first (mTable (snd (StampJobMetadata m now i meta))) = (txn_first (mTable m))(i \<mapsto> w) \<and>
      (w = (stamp_meta meta v)\<lparr>UpdatedAt := now\<rparr> \<or> w = v \<and> metaOrg meta = '''' \<and> metaRepo meta = '''' \<and> metaPriorityClass meta = ''''))"
proof (cases "metaOrg meta = '''' \<and> metaRepo meta = '''' \<and> metaPriorityClass meta = ''''")
  case True
  with assms show ?thesis
    by (intro conjI exI [of _ v]) (simp_all add: StampJobMetadata_def fun_upd_idem)
next
  case False
  have ident: "VMID (stamp_meta meta u) = VMID u \<and> Profile (stamp_meta meta u) = Profile u \<and> CreatedAt (stamp_meta meta u) = CreatedAt u" for u
    by (simp add: stamp_meta_def)
  show ?thesis
    by (rule update_cases [OF assms(1) ident, of now i]) (use False assms in \<open>auto simp: StampJobMetadata_def\<close>)
qed

text \<open>
  The report that a job started, for a VM that exists, stamps the job's organisation, repository and
  priority class on the row and moves an assigned row to running under the reported runner id; a row in
  any other state keeps its state and runner. Nothing else changes and the handler does not fail.\<close>

theorem job_started_marks:
  assumes "wf_table (mTable m)" and "vmidFromRunnerName (jsRunnerName info) (NamePrefix (slCfg s)) = Some vmid"
    and "txn_first (mTable m) vmid = Some v" and "HandleJobStarted s now info m = (err, m', ms)"
    and "classifyJob s info = (org, repo, class)"
  shows "err = None \<and> (\<exists>w. txn_first (mTable m') = (txn_first (mTable m))(vmid \<mapsto> w) \<and> same_identity v w \<and>
    Org w = (if org \<noteq> '''' then org else Org v) \<and> Repo w = (if repo \<noteq> '''' then repo else Repo v) \<and>
    PriorityClass w = (if className class \<noteq> '''' then className class else PriorityClass v) \<and>
    (if StateOf v = StateAssigned then StateOf w = StateRunning \<and> RunnerID w = jsRunnerID info
     else StateOf w = StateOf v \<and> RunnerID w = RunnerID v))"
proof -
  let ?meta = "\<lparr>metaOrg = org, metaRepo = repo, metaPriorityClass = className class\<rparr>"
  let ?m1 = "snd (StampJobMetadata m now vmid ?meta)" and ?f = "\<lambda>v. v\<lparr>RunnerID := jsRunnerID info\<rparr>"
  from StampJobMetadata_row [OF assms(1,3), of now ?meta] obtain v1 where
    one: "wf_table (mTable ?m1)" "txn_first (mTable ?m1) = (txn_first (mTable m))(vmid \<mapsto> v1)"
      "v1 = v \<and> org = '''' \<and> repo = '''' \<and> className class = '''' \<or> v1 = (stamp_meta ?meta v)\<lparr>UpdatedAt := now\<rparr>"
    by auto
  have run: "(err, m') = MarkRunning ?m1 now vmid (jsRunnerID info)"
    using assms(2,4,5) by (auto simp: HandleJobStarted_def Let_def split: prod.splits)
  have v1: "same_identity v v1" "StateOf v1 = StateOf v" "RunnerID v1 = RunnerID v"
      "Org v1 = (if org \<noteq> '''' then org else Org v)" "Repo v1 = (if repo \<noteq> '''' then repo else Repo v)"
      "PriorityClass v1 = (if className class \<noteq> '''' then className class else PriorityClass v)"
    using one(3) by (auto simp: stamp_meta_def same_identity_def)
  show ?thesis
  proof (rule cas_cases [OF one(1), of ?f now vmid "[StateAssigned]" StateRunning])
    show "benign ?f" by simp
  next
    assume "UpdateStateIn (mTable ?m1) now vmid [StateAssigned] StateRunning ?f = Inr None"
      "\<And>u. txn_first (mTable ?m1) vmid = Some u \<Longrightarrow> StateOf u \<notin> set [StateAssigned]"
    with run one(2) v1(2) have "err = None" "m' = ?m1" "StateOf v \<noteq> StateAssigned"
      by (simp_all add: MarkRunning_def UpdateState_eq)
    with one(2) v1 show ?thesis by (intro conjI exI [of _ v1]) simp_all
  next
    fix u T'
    assume "txn_first (mTable ?m1) vmid = Some u" "StateOf u \<in> set [StateAssigned]"
      "UpdateStateIn (mTable ?m1) now vmid [StateAssigned] StateRunning ?f = Inr (Some T')"
      "txn_first T' = (txn_first (mTable ?m1))(vmid \<mapsto> ?f (cas_row now StateRunning u))"
    with run one(2) v1(2) have "err = None" "StateOf v = StateAssigned"
        "txn_first (mTable m') = (txn_first (mTable m))(vmid \<mapsto> ?f (cas_row now StateRunning v1))"
      by (simp_all add: MarkRunning_def UpdateState_eq)
    with v1 show ?thesis
      by (intro conjI exI [of _ "?f (cas_row now StateRunning v1)"]) (simp_all add: cas_row_def same_identity_def)
  qed
qed

definition ex_scaler :: Scaler where
  "ex_scaler = scaler_New \<lparr>ScaleSetID = 1, ScaleSetName = ''s'', WorkFolder = '''', NamePrefix = ''gh-''\<rparr>"

definition ex_job :: JobStarted where
  "ex_job = \<lparr>jsRunnerName = ''gh-100'', jsRunnerID = 7, jsOwnerName = ''acme'', jsRepositoryName = ''research'',
     jsRequestLabels = [''linux'']\<rparr>"

theorem job_started_marks_witness:
  "\<exists>m' ms w. HandleJobStarted ex_scaler 9 ex_job (ex_pool [ex_vm 100 StateAssigned]) = (None, m', ms) \<and>
     txn_first (mTable m') 100 = Some w \<and> StateOf w = StateRunning \<and> Repo w = ''acme/research''"
proof -
  let ?m = "ex_pool [ex_vm 100 StateAssigned]"
  have T: "mTable ?m = [ex_vm 100 StateAssigned]" by code_simp
  have wf: "wf_table (mTable ?m)" unfolding T by (simp add: wf_table_def ex_vm_def indexable_def)
  have row: "txn_first (mTable ?m) 100 = Some (ex_vm 100 StateAssigned)" "StateOf (ex_vm 100 StateAssigned) = StateAssigned"
    unfolding T by (simp_all add: txn_first_def ex_vm_def)
  have n: "vmidFromRunnerName (jsRunnerName ex_job) (NamePrefix (slCfg ex_scaler)) = Some 100" by code_simp
  obtain err m' ms where h: "HandleJobStarted ex_scaler 9 ex_job ?m = (err, m', ms)" by (metis prod_cases3)
  have c: "classifyJob ex_scaler ex_job = (''acme'', ''acme/research'', ZeroClass)" by code_simp
  from job_started_marks [OF wf n row(1) h c] row h show ?thesis by auto
qed

text \<open>
  Priority selectors see the bare repository name: a job whose repository name has no slash is never
  put into a class whose selector names a repository in owner/repository form, although the quota
  bucket of the same job is in that form.\<close>

theorem repo_selector_bare_name:
  assumes "CHR ''/'' \<notin> set (jsRepositoryName info)" and "jsOwnerName info \<noteq> ''''" and "jsRepositoryName info \<noteq> ''''"
    and "classifyJob s info = (org, repo, class)"
  shows "CHR ''/'' \<notin> set (matchRepo (ClassMatch class)) \<and> repo = jsOwnerName info @ ''/'' @ jsRepositoryName info"
proof -
  let ?j = "\<lparr>jobOrg = jsOwnerName info, jobRepo = jsRepositoryName info, WorkflowLabels = jsRequestLabels info\<rparr>"
  from assms(2-4) have c: "class = Classify (slPriority s) ?j" and r: "repo = jsOwnerName info @ ''/'' @ jsRepositoryName info"
    by (auto simp: classifyJob_def Let_def)
  have ok: "satisfies (ClassMatch c) ?j" if "scan_best (\<lambda>c. satisfies (ClassMatch c) ?j)
      (\<lambda>c b. specificity (ClassMatch c) > specificity (ClassMatch b)) None cs = Some c" for cs c
    using scan_best_first [OF _ that, of "\<lambda>c. - specificity (ClassMatch c)"] by auto
  have "class = ZeroClass \<or> satisfies (ClassMatch class) ?j"
    unfolding c Classify_def using ok by (auto split: option.splits)
  with assms(1) r show ?thesis by (auto simp: ZeroClass_def no_match_def satisfies_def split: if_splits)
qed

theorem repo_selector_bare_name_witness:
  "\<exists>class. classifyJob (ex_scaler\<lparr>slPriority := Some \<lparr>classes = [\<lparr>className = ''best_effort'',
      ClassMatch = no_match\<lparr>matchRepo := ''acme/research''\<rparr>, Weight = 1, Preempt = False\<rparr>]\<rparr>\<rparr>) ex_job =
    (''acme'', ''acme/research'', class) \<and> CHR ''/'' \<notin> set (matchRepo (ClassMatch class))"
proof -
  let ?s = "ex_scaler\<lparr>slPriority := Some \<lparr>classes = [\<lparr>className = ''best_effort'',
      ClassMatch = no_match\<lparr>matchRepo := ''acme/research''\<rparr>, Weight = 1, Preempt = False\<rparr>]\<rparr>\<rparr>"
  obtain org repo cl where c: "classifyJob ?s ex_job = (org, repo, cl)" by (metis prod_cases3)
  have "fst (classifyJob ?s ex_job) = ''acme''" by code_simp
  with repo_selector_bare_name [OF _ _ _ c] c show ?thesis by (simp add: ex_job_def)
qed
end
