(* ===== verification/Config.thy ===== *)
theory Config
  imports Complex_Main Tags Decimal
begin

text \<open>
  The configuration (\<^verbatim>\<open>internal/config/config.go\<close>) from the decoded YAML on: defaults,
  resolution and validation, with the checks in the order the code makes them and the first failing
  one as the result.

  A record has the fields of its struct that these functions or the ones that build the components
  read. A pointer that may be nil is an option. What the code asks the outside for is an argument
  (\<open>cfg_env\<close>): the parsed scheme of a URL, whether a CIDR or a cron expression parses, whether a
  time zone or a file exists, the host's name, and the verdict of the struct-tag validator, a
  third-party library.
\<close>

section \<open>Durations\<close>

record Dur =
  durD :: duration
  durSet :: bool

definition OrDefault :: "Dur \<Rightarrow> duration \<Rightarrow> duration" where
  "OrDefault d def = (if \<not> durSet d then def else durD d)"

definition setDefault :: "Dur \<Rightarrow> duration \<Rightarrow> Dur" where
  "setDefault d def = (if \<not> durSet d then \<lparr>durD = def, durSet = True\<rparr> else d)"

abbreviation hour :: duration where
  "hour \<equiv> 60 * minute"

abbreviation millisecond :: duration where
  "millisecond \<equiv> 1000000"

section \<open>The structs\<close>

record QuotaOverrideC =
  qoOrg :: string
  qoRepo :: string
  qoMaxConcurrent :: int

record QuotasConfig =
  qcDefaultPerRepo :: int
  qcDefaultPerOrg :: int
  qcOverrides :: "QuotaOverrideC list"

record PriorityClassConfig =
  pcName :: string
  pcWorkflowLabel :: string
  pcRepo :: string
  pcOrg :: string
  pcWeight :: int
  pcPreempt :: bool

record GitHubScope =
  gsOrg :: string
  gsRepo :: string

record GitHubAppConfig =
  gaClientID :: string
  gaAppID :: int
  gaInstallationID :: int
  gaPrivateKeyPath :: string
  gaConfigURL :: string
  gaConfigBaseURL :: string
  gaRESTBaseURL :: string

record GitHubPATConfig =
  gpToken :: string
  gpConfigURL :: string
  gpConfigBaseURL :: string

record GitHubConfig =
  gcAuthMode :: string
  gcApp :: "GitHubAppConfig option"
  gcPAT :: "GitHubPATConfig option"
  gcScope :: GitHubScope
  gcPollInterval :: Dur
  gcAssignedGrace :: Dur
  gcRunningIdleGrace :: Dur
  gcAssignedOfflineGrace :: Dur

record ScaleSetConfig =
  scName :: string
  scLabels :: "string list"
  scRunnerGroup :: string
  scMaxConcurrentRunners :: int

record VMIDRangeC =
  vrMin :: int
  vrMax :: int

record ScheduleConfig =
  shName :: string
  shCron :: string
  shDuration :: Dur
  shTimezone :: string
  shHotSize :: int
  shWarmSize :: int
  shCronSchedule :: "(time \<Rightarrow> time) option"

record ProfileNICConfig =
  niBridge :: string
  niVLANTag :: int
  niVLANUntagged :: bool
  niMTU :: int

record ProfileIPAMConfig =
  ipBackend :: string
  ipPool :: "string list"

record ProfileNetworkConfig =
  pnBridge :: string
  pnVLANTag :: int
  pnVLANUntagged :: bool
  pnMTU :: int
  pnExtraNICs :: "ProfileNICConfig list"
  pnIPAM :: "ProfileIPAMConfig option"

text \<open>Fractions such as the canary's failure rate are rationals.\<close>

record ProfileConfigC =
  pfName :: string
  pfLabels :: "string list"
  pfTemplateVMID :: int
  pfCPUCores :: int
  pfMemoryMB :: int
  pfDiskGB :: int
  pfHotSize :: "int option"
  pfWarmSize :: "int option"
  pfMaxConcurrentRunners :: "int option"
  pfBootMaxAttempts :: "int option"
  pfVMMaxAge :: Dur
  pfNetwork :: "ProfileNetworkConfig option"
  pfCanaryTemplateVMID :: int
  pfCanaryPercent :: int
  pfCanaryMaxFailureRate :: rat
  pfSchedules :: "ScheduleConfig list"

record ScaleSetEntry =
  seName :: string
  seLabels :: "string list"
  seRunnerGroup :: string
  seMaxConcurrentRunners :: int
  seScope :: GitHubScope
  seProfiles :: "ProfileConfigC list"
  seVMIDRange :: "VMIDRangeC option"

record ProxmoxConfig =
  pxEndpoint :: string
  pxTokenSecret :: string
  pxTemplateVMID :: int
  pxVMIDRange :: VMIDRangeC
  pxBridge :: string
  pxVLANTag :: int
  pxLinked :: "bool option"
  pxFirewallEnabled :: bool
  pxFirewallGroup :: string
  pxFirewallDHCP :: "bool option"

record AffinityRuleC =
  afMatchProfile :: string
  afPreferNodes :: "string list"
  afRequire :: bool
  afAntiProfile :: string

record NodesConfig =
  ncStrategy :: string
  ncMembers :: "string list"
  ncSingleNode :: string
  ncAffinity :: "AffinityRuleC list"

record CapacityConfig =
  ccEnabled :: bool
  ccRefreshInterval :: Dur
  ccReserveMemoryMB :: int
  ccReserveFractionSet :: bool
  ccCPUOvercommitSet :: bool
  ccEvictIdleForDemand :: bool

record PoolConfigC =
  poHotSize :: int
  poWarmSize :: int
  poGlobalMax :: int
  poReconcileInterval :: Dur
  poVMMaxAge :: Dur
  poDrainTimeout :: Dur
  poBootMaxAttempts :: int
  poPowerPollInterval :: Dur
  poVMIDReuseCooldown :: Dur
  poOrphanGrace :: Dur
  poRecycleMode :: string
  poCloneInflightGrace :: Dur
  poSchedules :: "ScheduleConfig list"
  poCapacity :: CapacityConfig

record TLSConfig =
  tlCertFile :: string
  tlKeyFile :: string
  tlCAFile :: string

record ClusterRaftPeer =
  rpNodeID :: string
  rpRaftAddr :: string
  rpHTTPAddr :: string

record ClusterRaftConfig =
  raNodeID :: string
  raBindAddr :: string
  raAdvertiseAddr :: string
  raDataDir :: string
  raPeers :: "ClusterRaftPeer list"
  raBootstrap :: bool
  raHeartbeatTimeout :: Dur
  raElectionTimeout :: Dur
  raCommitTimeout :: Dur
  raTLS :: "TLSConfig option"

record ObservabilityConfig =
  obHTTPAddr :: string
  obLogLevel :: string
  obLogFormat :: string

record AdminAPIConfig =
  adHTTPAddr :: string
  adSharedSecret :: string
  adTrustedProxies :: "string list option"
  adTLS :: "TLSConfig option"

record Config =
  cfGitHub :: GitHubConfig
  cfScaleSet :: ScaleSetConfig
  cfScalesets :: "ScaleSetEntry list"
  cfProxmox :: ProxmoxConfig
  cfNodes :: NodesConfig
  cfPool :: PoolConfigC
  cfProfiles :: "ProfileConfigC list"
  cfQuotas :: QuotasConfig
  cfPriority :: "PriorityClassConfig list"
  cfObservability :: ObservabilityConfig
  cfAdminAPI :: AdminAPIConfig
  cfClusterMode :: string
  cfRaft :: ClusterRaftConfig

definition LinkedOrDefault :: "ProxmoxConfig \<Rightarrow> bool" where
  "LinkedOrDefault p = (case pxLinked p of None \<Rightarrow> True | Some b \<Rightarrow> b)"

definition DHCPOrDefault :: "ProxmoxConfig \<Rightarrow> bool" where
  "DHCPOrDefault p = (case pxFirewallDHCP p of None \<Rightarrow> True | Some b \<Rightarrow> b)"

definition derefIntDefault :: "int option \<Rightarrow> int \<Rightarrow> int" where
  "derefIntDefault p d = (case p of None \<Rightarrow> d | Some n \<Rightarrow> n)"

definition HotSizeOrDefault :: "ProfileConfigC \<Rightarrow> int \<Rightarrow> int" where
  "HotSizeOrDefault p d = derefIntDefault (pfHotSize p) d"

definition WarmSizeOrDefault :: "ProfileConfigC \<Rightarrow> int \<Rightarrow> int" where
  "WarmSizeOrDefault p d = derefIntDefault (pfWarmSize p) d"

definition MaxConcurrentRunnersOrDefault :: "ProfileConfigC \<Rightarrow> int \<Rightarrow> int" where
  "MaxConcurrentRunnersOrDefault p d = derefIntDefault (pfMaxConcurrentRunners p) d"

definition BootMaxAttemptsOrDefault :: "ProfileConfigC \<Rightarrow> int \<Rightarrow> int" where
  "BootMaxAttemptsOrDefault p d = derefIntDefault (pfBootMaxAttempts p) d"

definition asScaleSetConfig :: "ScaleSetEntry \<Rightarrow> ScaleSetConfig" where
  "asScaleSetConfig e = \<lparr>scName = seName e, scLabels = seLabels e, scRunnerGroup = seRunnerGroup e,
     scMaxConcurrentRunners = seMaxConcurrentRunners e\<rparr>"

section \<open>Defaults\<close>

definition applyCapacityDefaults :: "CapacityConfig \<Rightarrow> CapacityConfig" where
  "applyCapacityDefaults c =
     c\<lparr>ccRefreshInterval := setDefault (ccRefreshInterval c) (15 * second),
       ccReserveMemoryMB := (if ccReserveMemoryMB c = 0 \<and> \<not> ccReserveFractionSet c then 2048 else ccReserveMemoryMB c)\<rparr>"

definition RecycleModeDestroy :: string where
  "RecycleModeDestroy = ''destroy''"

definition RecycleModeSnapshotRollback :: string where
  "RecycleModeSnapshotRollback = ''snapshot_rollback''"

definition applyPoolDefaults :: "PoolConfigC \<Rightarrow> PoolConfigC" where
  "applyPoolDefaults p =
     p\<lparr>poReconcileInterval := setDefault (poReconcileInterval p) (10 * second),
       poVMMaxAge := setDefault (poVMMaxAge p) (24 * hour),
       poDrainTimeout := setDefault (poDrainTimeout p) (30 * minute),
       poBootMaxAttempts := (if poBootMaxAttempts p = 0 then 3 else poBootMaxAttempts p),
       poPowerPollInterval := setDefault (poPowerPollInterval p) (3 * second),
       poVMIDReuseCooldown := setDefault (poVMIDReuseCooldown p) (30 * second),
       poOrphanGrace := setDefault (poOrphanGrace p) (60 * second),
       poCloneInflightGrace := setDefault (poCloneInflightGrace p) (5 * minute),
       poRecycleMode := (if poRecycleMode p = '''' then RecycleModeDestroy else poRecycleMode p),
       poCapacity := applyCapacityDefaults (poCapacity p)\<rparr>"

definition applyObservabilityDefaults :: "ObservabilityConfig \<Rightarrow> ObservabilityConfig" where
  "applyObservabilityDefaults o' =
     o'\<lparr>obHTTPAddr := (if obHTTPAddr o' = '''' then '':9100'' else obHTTPAddr o'),
        obLogLevel := (if obLogLevel o' = '''' then ''info'' else obLogLevel o'),
        obLogFormat := (if obLogFormat o' = '''' then ''json'' else obLogFormat o')\<rparr>"

definition applyGitHubDefaults :: "GitHubConfig \<Rightarrow> GitHubConfig" where
  "applyGitHubDefaults g =
     g\<lparr>gcPollInterval := setDefault (gcPollInterval g) (15 * second),
       gcAssignedGrace := setDefault (gcAssignedGrace g) (5 * minute),
       gcRunningIdleGrace := setDefault (gcRunningIdleGrace g) (30 * second),
       gcAssignedOfflineGrace := setDefault (gcAssignedOfflineGrace g) (2 * minute)\<rparr>"

definition applyClusterDefaults :: "Config \<Rightarrow> Config" where
  "applyClusterDefaults c =
     c\<lparr>cfClusterMode := (if cfClusterMode c = '''' then ''standalone'' else cfClusterMode c),
       cfRaft := (cfRaft c)
         \<lparr>raHeartbeatTimeout := setDefault (raHeartbeatTimeout (cfRaft c)) second,
          raElectionTimeout := setDefault (raElectionTimeout (cfRaft c)) second,
          raCommitTimeout := setDefault (raCommitTimeout (cfRaft c)) (50 * millisecond)\<rparr>\<rparr>"

definition applyAdminAPIDefaults :: "AdminAPIConfig \<Rightarrow> AdminAPIConfig" where
  "applyAdminAPIDefaults a =
     (case adTrustedProxies a of
        None \<Rightarrow> a\<lparr>adTrustedProxies := Some [''127.0.0.0/8'', ''::1/128'']\<rparr>
      | Some _ \<Rightarrow> a)"

definition defaultProfileName :: string where
  "defaultProfileName = ''default''"

text \<open>The profile made up for a scale set that declares none.\<close>

definition synth_profile :: "PoolConfigC \<Rightarrow> ScaleSetEntry \<Rightarrow> ProfileConfigC" where
  "synth_profile po s =
     \<lparr>pfName = defaultProfileName, pfLabels = seLabels s, pfTemplateVMID = 0, pfCPUCores = 0, pfMemoryMB = 0, pfDiskGB = 0,
      pfHotSize = Some (poHotSize po), pfWarmSize = Some (poWarmSize po),
      pfMaxConcurrentRunners = Some (seMaxConcurrentRunners s), pfBootMaxAttempts = Some (poBootMaxAttempts po),
      pfVMMaxAge = poVMMaxAge po, pfNetwork = None, pfCanaryTemplateVMID = 0, pfCanaryPercent = 0,
      pfCanaryMaxFailureRate = 0, pfSchedules = poSchedules po\<rparr>"

definition inherit_profile :: "PoolConfigC \<Rightarrow> ScaleSetEntry \<Rightarrow> ProfileConfigC \<Rightarrow> ProfileConfigC" where
  "inherit_profile po s p =
     p\<lparr>pfHotSize := Some (HotSizeOrDefault p (poHotSize po)),
       pfWarmSize := Some (WarmSizeOrDefault p (poWarmSize po)),
       pfMaxConcurrentRunners := Some (MaxConcurrentRunnersOrDefault p (seMaxConcurrentRunners s)),
       pfBootMaxAttempts := Some (BootMaxAttemptsOrDefault p (poBootMaxAttempts po)),
       pfVMMaxAge := (if durSet (pfVMMaxAge p) then pfVMMaxAge p else poVMMaxAge po)\<rparr>"

definition normalize_entry :: "PoolConfigC \<Rightarrow> ScaleSetEntry \<Rightarrow> ScaleSetEntry" where
  "normalize_entry po s =
     s\<lparr>seProfiles := (if length (seProfiles s) = 0 then [synth_profile po s] else map (inherit_profile po s) (seProfiles s))\<rparr>"

definition normalizeScalesets :: "Config \<Rightarrow> Config" where
  "normalizeScalesets c =
     (let sets = (if length (cfScalesets c) = 0 \<and>
                     (scName (cfScaleSet c) \<noteq> '''' \<or> scMaxConcurrentRunners (cfScaleSet c) \<noteq> 0)
                  then [\<lparr>seName = scName (cfScaleSet c), seLabels = scLabels (cfScaleSet c),
                         seRunnerGroup = scRunnerGroup (cfScaleSet c),
                         seMaxConcurrentRunners = scMaxConcurrentRunners (cfScaleSet c), seScope = gcScope (cfGitHub c),
                         seProfiles = cfProfiles c, seVMIDRange = None\<rparr>]
                  else cfScalesets c);
          c1 = c\<lparr>cfScalesets := map (normalize_entry (cfPool c)) sets\<rparr> in
      case cfScalesets c1 of
        [s] \<Rightarrow> c1\<lparr>cfScaleSet := asScaleSetConfig s, cfProfiles := seProfiles s,
                 cfGitHub := (cfGitHub c1)\<lparr>gcScope := seScope s\<rparr>\<rparr>
      | _ \<Rightarrow> c1)"

definition ApplyDefaults :: "Config \<Rightarrow> Config" where
  "ApplyDefaults c =
     (let c1 = c\<lparr>cfPool := applyPoolDefaults (cfPool c)\<rparr>;
          c2 = c1\<lparr>cfObservability := applyObservabilityDefaults (cfObservability c1)\<rparr>;
          c3 = c2\<lparr>cfGitHub := applyGitHubDefaults (cfGitHub c2)\<rparr>;
          c4 = applyClusterDefaults c3;
          c5 = c4\<lparr>cfAdminAPI := applyAdminAPIDefaults (cfAdminAPI c4)\<rparr>
      in normalizeScalesets c5)"

section \<open>Resolution\<close>

text \<open>An error: the setting it is about and the indexes in the lists it sits in.\<close>

datatype config_error = CErr string "nat list"

record cfg_env =
  envStructOK :: "Config \<Rightarrow> bool"
  envScheme :: "string \<Rightarrow> string option"
  envCIDR :: "string \<Rightarrow> bool"
  envFile :: "string \<Rightarrow> bool"
  envLocation :: "string \<Rightarrow> bool"
  envCron :: "string \<Rightarrow> string \<Rightarrow> (time \<Rightarrow> time) option"
  envHOSTNAME :: string
  envHostname :: "string option"

text \<open>The loops over a list that stop at the first error, and a chain of checks.\<close>

fun first_err :: "(nat \<Rightarrow> 'a \<Rightarrow> 'e option) \<Rightarrow> nat \<Rightarrow> 'a list \<Rightarrow> 'e option" where
  "first_err f i [] = None"
| "first_err f i (x # xs) = (case f i x of Some e \<Rightarrow> Some e | None \<Rightarrow> first_err f (Suc i) xs)"

fun checks :: "'e option list \<Rightarrow> 'e option" where
  "checks [] = None"
| "checks (c # cs) = (case c of Some e \<Rightarrow> Some e | None \<Rightarrow> checks cs)"

definition guard :: "bool \<Rightarrow> 'e \<Rightarrow> 'e option" where
  "guard bad e = (if bad then Some e else None)"

definition validateGitHubURLs :: "string \<Rightarrow> string \<Rightarrow> nat \<Rightarrow> config_error option" where
  "validateGitHubURLs configURL configBaseURL numScalesets =
     (if configURL \<noteq> '''' \<and> configBaseURL \<noteq> '''' then Some (CErr ''config_url: exclusive'' [])
      else if configURL \<noteq> '''' \<and> numScalesets > 1 then Some (CErr ''config_url: multi-scaleset'' [])
      else None)"

definition resolveGitHubAuth :: "Config \<Rightarrow> config_error option" where
  "resolveGitHubAuth c =
     (let g = cfGitHub c; n = length (cfScalesets c) in
      checks
        [case gcPAT g of
           None \<Rightarrow> None
         | Some pat \<Rightarrow> if gpToken pat = '''' then Some (CErr ''github.pat.token'' [])
                      else validateGitHubURLs (gpConfigURL pat) (gpConfigBaseURL pat) n,
         case gcApp g of
           None \<Rightarrow> None
         | Some app \<Rightarrow>
             (let hasClient = gaClientID app \<noteq> ''''; hasAppID = gaAppID app > 0 in
              if hasClient \<and> hasAppID then Some (CErr ''github.app: both'' [])
              else if \<not> hasClient \<and> \<not> hasAppID then Some (CErr ''github.app: none'' [])
              else validateGitHubURLs (gaConfigURL app) (gaConfigBaseURL app) n),
         if n \<le> 1 then
           (if gsOrg (gcScope g) = '''' \<and> gsRepo (gcScope g) = '''' then Some (CErr ''github.scope: empty'' [])
            else if gsOrg (gcScope g) \<noteq> '''' \<and> gsRepo (gcScope g) \<noteq> '''' then Some (CErr ''github.scope: both'' [])
            else None)
         else None])"

definition bridge_char :: "char \<Rightarrow> bool" where
  "bridge_char ch \<longleftrightarrow> lower ch \<or> upper ch \<or> digit ch \<or> ch = CHR ''_'' \<or> ch = CHR ''.'' \<or> ch = CHR ''-''"

definition nicBridgeAllowed :: "string \<Rightarrow> bool" where
  "nicBridgeAllowed s \<longleftrightarrow> s \<noteq> '''' \<and> list_all bridge_char s"

definition validateNIC :: "string \<Rightarrow> int \<Rightarrow> int \<Rightarrow> config_error option" where
  "validateNIC bridge vlanTag mtu =
     (if bridge \<noteq> '''' \<and> \<not> nicBridgeAllowed bridge then Some (CErr ''bridge'' [])
      else if vlanTag < 0 \<or> vlanTag > 4094 then Some (CErr ''vlan_tag'' [])
      else if mtu < 0 \<or> mtu > 9216 then Some (CErr ''mtu'' [])
      else None)"

definition resolveProxmox :: "Config \<Rightarrow> config_error option" where
  "resolveProxmox c =
     (if pxTokenSecret (cfProxmox c) = '''' then Some (CErr ''proxmox.auth.token_secret'' [])
      else validateNIC (pxBridge (cfProxmox c)) (pxVLANTag (cfProxmox c)) 0)"

definition resolveNodeSelector :: "Config \<Rightarrow> config_error option" where
  "resolveNodeSelector c =
     (let n = cfNodes c in
      if ncStrategy n = ''single'' then (if ncSingleNode n = '''' then Some (CErr ''nodes.single_node'' []) else None)
      else if ncStrategy n = ''round_robin'' \<or> ncStrategy n = ''least_loaded''
      then (if length (ncMembers n) = 0 then Some (CErr ''nodes.members'' []) else None)
      else None)"

definition resolvePool :: "Config \<Rightarrow> config_error option" where
  "resolvePool c =
     (let p = cfPool c; g = cfGitHub c in
      checks
        [guard (durD (poPowerPollInterval p) \<le> 0) (CErr ''pool.power_poll_interval'' []),
         guard (durD (poVMIDReuseCooldown p) \<le> 0) (CErr ''pool.vmid_reuse_cooldown'' []),
         guard (durD (poOrphanGrace p) \<le> 0) (CErr ''pool.orphan_grace'' []),
         guard (durD (poCloneInflightGrace p) \<le> 0) (CErr ''pool.clone_inflight_grace'' []),
         guard (ccEnabled (poCapacity p) \<and> durD (ccRefreshInterval (poCapacity p)) \<le> 0)
           (CErr ''pool.capacity.refresh_interval'' []),
         guard (durD (gcPollInterval g) \<le> 0) (CErr ''github.poll_interval'' []),
         guard (durD (gcAssignedGrace g) \<le> 0) (CErr ''github.assigned_grace'' []),
         guard (durD (gcRunningIdleGrace g) \<le> 0) (CErr ''github.running_idle_grace'' []),
         guard (durD (gcAssignedOfflineGrace g) \<le> 0) (CErr ''github.assigned_offline_grace'' []),
         guard (poRecycleMode p \<noteq> RecycleModeDestroy \<and> poRecycleMode p \<noteq> RecycleModeSnapshotRollback) (CErr ''pool.recycle_mode'' [])])"

text \<open>Schedules are resolved in place: the list with the parsed expressions, or the first error.\<close>

fun resolveSchedules :: "cfg_env \<Rightarrow> nat \<Rightarrow> string set \<Rightarrow> ScheduleConfig list \<Rightarrow> config_error + ScheduleConfig list" where
  "resolveSchedules e i seen [] = Inr []"
| "resolveSchedules e i seen (s # ss) =
     (if shName s \<in> seen then Inl (CErr ''schedules: duplicate'' [i])
      else if durD (shDuration s) \<le> 0 then Inl (CErr ''schedules.duration'' [i])
      else if shTimezone s \<noteq> '''' \<and> \<not> envLocation e (shTimezone s) then Inl (CErr ''schedules.timezone'' [i])
      else case envCron e (shCron s) (shTimezone s) of
             None \<Rightarrow> Inl (CErr ''schedules.cron'' [i])
           | Some sched \<Rightarrow>
               (case resolveSchedules e (Suc i) (insert (shName s) seen) ss of
                  Inl er \<Rightarrow> Inl er
                | Inr ss' \<Rightarrow> Inr (s\<lparr>shCronSchedule := Some sched\<rparr> # ss')))"

fun resolve_profile_schedules :: "cfg_env \<Rightarrow> ProfileConfigC list \<Rightarrow> config_error + ProfileConfigC list" where
  "resolve_profile_schedules e [] = Inr []"
| "resolve_profile_schedules e (p # ps) =
     (case resolveSchedules e 0 {} (pfSchedules p) of
        Inl er \<Rightarrow> Inl er
      | Inr ss \<Rightarrow>
          (case resolve_profile_schedules e ps of
             Inl er \<Rightarrow> Inl er
           | Inr ps' \<Rightarrow> Inr (p\<lparr>pfSchedules := ss\<rparr> # ps')))"

text \<open>
  The legacy list is a copy of the first scale set's profiles that shares their schedules, so resolving
  it resolves those of the first scale set.
\<close>

definition resolveProfiles :: "cfg_env \<Rightarrow> Config \<Rightarrow> config_error + Config" where
  "resolveProfiles e c =
     (case first_err (\<lambda>si s. first_err (\<lambda>i p. guard (durSet (pfVMMaxAge p) \<and> durD (pfVMMaxAge p) \<le> 0) (CErr ''profiles.vm_max_age'' [si, i]))
             0 (seProfiles s)) 0 (cfScalesets c) of
        Some er \<Rightarrow> Inl er
      | None \<Rightarrow>
          (let legacy = (case cfScalesets c of [] \<Rightarrow> cfProfiles c | s # _ \<Rightarrow> seProfiles s) in
           case resolve_profile_schedules e legacy of
             Inl er \<Rightarrow> Inl er
           | Inr ps \<Rightarrow> Inr (c\<lparr>cfProfiles := ps,
                            cfScalesets := (case cfScalesets c of [] \<Rightarrow> [] | s # ss \<Rightarrow> s\<lparr>seProfiles := ps\<rparr> # ss)\<rparr>)))"

fun check_peers :: "nat \<Rightarrow> string set \<Rightarrow> ClusterRaftPeer list \<Rightarrow> config_error option" where
  "check_peers i seen [] = None"
| "check_peers i seen (p # ps) =
     (if rpNodeID p = '''' then Some (CErr ''cluster.raft.peers.node_id'' [i])
      else if rpNodeID p \<in> seen then Some (CErr ''cluster.raft.peers: duplicate'' [i])
      else if rpRaftAddr p = '''' then Some (CErr ''cluster.raft.peers.raft_addr'' [i])
      else check_peers (Suc i) (insert (rpNodeID p) seen) ps)"

definition resolveCluster :: "cfg_env \<Rightarrow> Config \<Rightarrow> config_error + Config" where
  "resolveCluster e c =
     (let r = cfRaft c;
          nid = (if raNodeID r \<noteq> '''' then raNodeID r
                 else if envHOSTNAME e \<noteq> '''' then envHOSTNAME e
                 else case envHostname e of Some h \<Rightarrow> h | None \<Rightarrow> '''');
          c' = c\<lparr>cfRaft := r\<lparr>raNodeID := nid\<rparr>\<rparr> in
      if cfClusterMode c \<noteq> ''raft'' then Inr c'
      else
        (case checks
           [guard (nid = '''') (CErr ''cluster.raft.node_id'' []),
            guard (raBindAddr r = '''') (CErr ''cluster.raft.bind_addr'' []),
            guard (length (raPeers r) = 0) (CErr ''cluster.raft.peers'' []),
            check_peers 0 {} (raPeers r),
            guard (nid \<notin> rpNodeID ` set (raPeers r)) (CErr ''cluster.raft.peers: self'' []),
            guard (raDataDir r = '''') (CErr ''cluster.raft.data_dir'' [])] of
           Some er \<Rightarrow> Inl er
         | None \<Rightarrow> Inr c'))"

definition Resolve_config :: "cfg_env \<Rightarrow> Config \<Rightarrow> config_error + Config" where
  "Resolve_config e c =
     (case checks [resolveGitHubAuth c, resolveProxmox c, resolveNodeSelector c, resolvePool c] of
        Some er \<Rightarrow> Inl er
      | None \<Rightarrow> (case resolveProfiles e c of Inl er \<Rightarrow> Inl er | Inr c' \<Rightarrow> resolveCluster e c'))"

section \<open>Validation\<close>

definition validateStruct :: "cfg_env \<Rightarrow> Config \<Rightarrow> config_error option" where
  "validateStruct e c = guard (\<not> envStructOK e c) (CErr ''struct'' [])"

definition validateSizing :: "Config \<Rightarrow> config_error option" where
  "validateSizing c =
     (if length (cfScalesets c) = 1 \<and> scMaxConcurrentRunners (cfScaleSet c) > 0 \<and>
         poHotSize (cfPool c) + poWarmSize (cfPool c) > scMaxConcurrentRunners (cfScaleSet c)
      then Some (CErr ''pool.hot_size+pool.warm_size'' [])
      else if vrMin (pxVMIDRange (cfProxmox c)) \<le> pxTemplateVMID (cfProxmox c) \<and>
              pxTemplateVMID (cfProxmox c) \<le> vrMax (pxVMIDRange (cfProxmox c))
      then Some (CErr ''proxmox.template_vmid'' [])
      else None)"

definition validateProxmoxSecurity :: "cfg_env \<Rightarrow> Config \<Rightarrow> config_error option" where
  "validateProxmoxSecurity e c =
     (if pxFirewallEnabled (cfProxmox c) \<and> pxFirewallGroup (cfProxmox c) = '''' then Some (CErr ''proxmox.firewall.security_group'' [])
      else if envScheme e (pxEndpoint (cfProxmox c)) \<noteq> Some ''https'' then Some (CErr ''proxmox.endpoint'' [])
      else None)"

definition TLSConfig_validate :: "cfg_env \<Rightarrow> TLSConfig \<Rightarrow> config_error option" where
  "TLSConfig_validate e t = checks
     [guard (tlCertFile t = '''') (CErr ''tls.cert_file'' []),
      guard (tlKeyFile t = '''') (CErr ''tls.key_file'' []),
      guard (\<not> envFile e (tlCertFile t)) (CErr ''tls.cert_file'' []),
      guard (\<not> envFile e (tlKeyFile t)) (CErr ''tls.key_file'' []),
      guard (tlCAFile t \<noteq> '''' \<and> \<not> envFile e (tlCAFile t)) (CErr ''tls.ca_file'' [])]"

definition validateTLSAndProxies :: "cfg_env \<Rightarrow> Config \<Rightarrow> config_error option" where
  "validateTLSAndProxies e c = checks
     [first_err (\<lambda>_ cidr. guard (\<not> envCIDR e cidr) (CErr ''admin_api.trusted_proxies'' [])) 0
        (case adTrustedProxies (cfAdminAPI c) of None \<Rightarrow> [] | Some l \<Rightarrow> l),
      case adTLS (cfAdminAPI c) of None \<Rightarrow> None | Some t \<Rightarrow> TLSConfig_validate e t,
      case raTLS (cfRaft c) of None \<Rightarrow> None | Some t \<Rightarrow> TLSConfig_validate e t]"

definition check_range :: "nat \<Rightarrow> nat \<Rightarrow> ScaleSetEntry \<Rightarrow> config_error option" where
  "check_range n i s =
     (case seVMIDRange s of
        None \<Rightarrow> guard (n > 1) (CErr ''vmid_range'' [i])
      | Some r \<Rightarrow> if vrMin r \<le> 0 then Some (CErr ''vmid_range.min'' [i])
                 else if vrMax r \<le> vrMin r then Some (CErr ''vmid_range.max'' [i]) else None)"

definition ranges_disjoint :: "VMIDRangeC \<Rightarrow> VMIDRangeC \<Rightarrow> bool" where
  "ranges_disjoint a b \<longleftrightarrow> vrMax a < vrMin b \<or> vrMax b < vrMin a"

fun check_overlap :: "VMIDRangeC list \<Rightarrow> config_error option" where
  "check_overlap [] = None"
| "check_overlap (a # bs) =
     (if list_all (ranges_disjoint a) bs then check_overlap bs else Some (CErr ''vmid_range: overlap'' []))"

definition validateScalesetVMIDRanges :: "Config \<Rightarrow> config_error option" where
  "validateScalesetVMIDRanges c = checks
     [first_err (check_range (length (cfScalesets c))) 0 (cfScalesets c),
      check_overlap (List.map_filter seVMIDRange (cfScalesets c))]"

fun check_entries :: "Config \<Rightarrow> nat \<Rightarrow> string set \<Rightarrow> string set \<Rightarrow> string set \<Rightarrow> ScaleSetEntry list \<Rightarrow> config_error option" where
  "check_entries c i names tags scopes [] = None"
| "check_entries c i names tags scopes (s # ss) =
     (if seName s \<in> names then Some (CErr ''scalesets: duplicate name'' [i])
      else case OwnerTag (seName s) of
             Inl _ \<Rightarrow> Some (CErr ''scalesets.name'' [i])
           | Inr tag \<Rightarrow>
               if tag \<in> tags then Some (CErr ''scalesets: owner tag'' [i])
               else
                 (let hasOrg = gsOrg (seScope s) \<noteq> ''''; hasRepo = gsRepo (seScope s) \<noteq> '''';
                      scopeKey = ''org:'' @ gsOrg (seScope s) @ ''|repo:'' @ gsRepo (seScope s) in
                  if hasOrg \<and> hasRepo then Some (CErr ''scalesets.scope: both'' [i])
                  else if \<not> hasOrg \<and> \<not> hasRepo then Some (CErr ''scalesets.scope: empty'' [i])
                  else if scopeKey \<in> scopes then Some (CErr ''scalesets.scope: duplicate'' [i])
                  else if seMaxConcurrentRunners s \<le> 0 \<and> \<not> ccEnabled (poCapacity (cfPool c))
                  then Some (CErr ''scalesets.max_concurrent_runners'' [i])
                  else if seMaxConcurrentRunners s > 0 \<and>
                          poHotSize (cfPool c) + poWarmSize (cfPool c) > seMaxConcurrentRunners s
                  then Some (CErr ''scalesets: hot_size+warm_size'' [i])
                  else check_entries c (Suc i) (insert (seName s) names) (insert tag tags) (insert scopeKey scopes) ss))"

definition validateScalesets :: "Config \<Rightarrow> config_error option" where
  "validateScalesets c = checks
     [guard (length (cfScalesets c) = 0) (CErr ''scalesets'' []),
      check_entries c 0 {} {} {} (cfScalesets c),
      validateScalesetVMIDRanges c]"

definition profileNameRE :: "string \<Rightarrow> bool" where
  "profileNameRE s =
     (case s of
        [] \<Rightarrow> False
      | ch # cs \<Rightarrow> (lower ch \<or> digit ch) \<and> list_all (\<lambda>d. lower d \<or> digit d \<or> d = CHR ''-'') cs \<and> length cs \<le> 62)"

definition labelsNotIn :: "string list \<Rightarrow> string list \<Rightarrow> string list" where
  "labelsNotIn want have = filter (\<lambda>l. l \<notin> set have) want"

definition validateProfileLabels :: "nat \<Rightarrow> ScaleSetEntry \<Rightarrow> nat \<Rightarrow> ProfileConfigC \<Rightarrow> config_error option" where
  "validateProfileLabels si s pk p =
     (if length (labelsNotIn (pfLabels p) (seLabels s)) > 0 then Some (CErr ''profiles.labels: extra'' [si, pk])
      else if length (labelsNotIn (seLabels s) (pfLabels p)) > 0 then Some (CErr ''profiles.labels: missing'' [si, pk])
      else None)"

definition validateProfileFootprint :: "Config \<Rightarrow> nat \<Rightarrow> nat \<Rightarrow> ProfileConfigC \<Rightarrow> config_error option" where
  "validateProfileFootprint c si pk p =
     (if \<not> ccEnabled (poCapacity (cfPool c)) then None
      else if pfMemoryMB p \<le> 0 then Some (CErr ''profiles.memory_mb'' [si, pk])
      else if ccCPUOvercommitSet (poCapacity (cfPool c)) \<and> pfCPUCores p \<le> 0 then Some (CErr ''profiles.cpu'' [si, pk])
      else None)"

text \<open>The caps a profile's sizes are held against; without a static cap there is nothing to check.\<close>

definition check_sizes :: "Config \<Rightarrow> nat \<Rightarrow> nat \<Rightarrow> ProfileConfigC \<Rightarrow> int \<Rightarrow> config_error option" where
  "check_sizes c si i p maxConc =
     (if maxConc \<le> 0 then None
      else if HotSizeOrDefault p (poHotSize (cfPool c)) + WarmSizeOrDefault p (poWarmSize (cfPool c)) > maxConc
      then Some (CErr ''profiles: hot_size+warm_size'' [si, i])
      else first_err (\<lambda>j s. guard (shHotSize s + shWarmSize s > maxConc) (CErr ''schedules: hot_size+warm_size'' [si, i, j]))
             0 (pfSchedules p))"

definition check_profile :: "Config \<Rightarrow> nat \<Rightarrow> ScaleSetEntry \<Rightarrow> nat \<Rightarrow> ProfileConfigC \<Rightarrow> config_error option" where
  "check_profile c si s i p =
     (let maxConc = MaxConcurrentRunnersOrDefault p (seMaxConcurrentRunners s) in
      checks
        [validateProfileLabels si s i p,
         validateProfileFootprint c si i p,
         guard (maxConc \<le> 0 \<and> \<not> ccEnabled (poCapacity (cfPool c))) (CErr ''profiles.max_concurrent_runners'' [si, i]),
         (case pfBootMaxAttempts p of None \<Rightarrow> None | Some n \<Rightarrow> guard (n < 1) (CErr ''profiles.boot_max_attempts'' [si, i])),
         check_sizes c si i p maxConc])"

fun check_profiles_of :: "Config \<Rightarrow> nat \<Rightarrow> ScaleSetEntry \<Rightarrow> nat \<Rightarrow> string set \<Rightarrow> ProfileConfigC list \<Rightarrow> config_error option" where
  "check_profiles_of c si s i seen [] = None"
| "check_profiles_of c si s i seen (p # ps) =
     (if \<not> profileNameRE (pfName p) then Some (CErr ''profiles.name'' [si, i])
      else if pfName p \<in> seen then Some (CErr ''profiles: duplicate'' [si, i])
      else case check_profile c si s i p of
             Some er \<Rightarrow> Some er
           | None \<Rightarrow> check_profiles_of c si s (Suc i) (insert (pfName p) seen) ps)"

definition profile_caps :: "Config \<Rightarrow> int list" where
  "profile_caps c = concat (map (\<lambda>s. map (\<lambda>p. MaxConcurrentRunnersOrDefault p (seMaxConcurrentRunners s)) (seProfiles s)) (cfScalesets c))"

definition validateProfiles :: "Config \<Rightarrow> config_error option" where
  "validateProfiles c = checks
     [first_err (\<lambda>si s. if length (seProfiles s) = 0 then Some (CErr ''profiles'' [si])
                      else check_profiles_of c si s 0 {} (seProfiles s)) 0 (cfScalesets c),
      guard (poGlobalMax (cfPool c) > 0 \<and> list_all (\<lambda>n. 0 < n) (profile_caps c) \<and>
             sum_list (profile_caps c) > poGlobalMax (cfPool c)) (CErr ''pool.global_max'' [])]"

definition validateQuotas :: "Config \<Rightarrow> config_error option" where
  "validateQuotas c =
     first_err (\<lambda>i o'. guard ((qoOrg o' \<noteq> '''') = (qoRepo o' \<noteq> '''')) (CErr ''quotas.overrides.match'' [i])) 0
       (qcOverrides (cfQuotas c))"

fun check_classes :: "nat \<Rightarrow> string set \<Rightarrow> PriorityClassConfig list \<Rightarrow> config_error option" where
  "check_classes i seen [] = None"
| "check_classes i seen (cl # cls) =
     (if pcName cl = '''' then Some (CErr ''priority.classes.name'' [i])
      else if pcName cl \<in> seen then Some (CErr ''priority.classes: duplicate'' [i])
      else check_classes (Suc i) (insert (pcName cl) seen) cls)"

definition validatePriority :: "Config \<Rightarrow> config_error option" where
  "validatePriority c = check_classes 0 {} (cfPriority c)"

definition knownProfiles :: "Config \<Rightarrow> string set" where
  "knownProfiles c = (\<Union>s \<in> set (cfScalesets c). pfName ` set (seProfiles s))"

definition knownNodes :: "Config \<Rightarrow> string set" where
  "knownNodes c = set (ncMembers (cfNodes c)) \<union> (if ncSingleNode (cfNodes c) \<noteq> '''' then {ncSingleNode (cfNodes c)} else {})"

definition check_rule :: "Config \<Rightarrow> nat \<Rightarrow> AffinityRuleC \<Rightarrow> config_error option" where
  "check_rule c i r = checks
     [guard (afMatchProfile r \<noteq> '''' \<and> afMatchProfile r \<notin> knownProfiles c) (CErr ''nodes.affinity.match.profile'' [i]),
      guard (afAntiProfile r \<noteq> '''' \<and> afAntiProfile r \<notin> knownProfiles c) (CErr ''nodes.affinity.anti_affinity_with.profile'' [i]),
      first_err (\<lambda>j n. guard (n \<notin> knownNodes c) (CErr ''nodes.affinity.prefer_nodes'' [i, j])) 0 (afPreferNodes r),
      guard (afRequire r \<and> length (afPreferNodes r) = 0) (CErr ''nodes.affinity.require'' [i])]"

definition validateNodeAffinity :: "Config \<Rightarrow> config_error option" where
  "validateNodeAffinity c = first_err (check_rule c) 0 (ncAffinity (cfNodes c))"

definition check_network :: "nat \<Rightarrow> nat \<Rightarrow> ProfileConfigC \<Rightarrow> config_error option" where
  "check_network si i p =
     (case pfNetwork p of
        None \<Rightarrow> None
      | Some nw \<Rightarrow> checks
          [validateNIC (pnBridge nw) (pnVLANTag nw) (pnMTU nw),
           first_err (\<lambda>j nic. if niBridge nic = '''' then Some (CErr ''network.extra_nics.bridge'' [si, i, j])
                             else validateNIC (niBridge nic) (niVLANTag nic) (niMTU nic)) 0 (pnExtraNICs nw),
           (case pnIPAM nw of
              None \<Rightarrow> None
            | Some ip \<Rightarrow>
                if ipBackend ip = '''' \<or> ipBackend ip = ''noop''
                then guard (length (ipPool ip) > 0) (CErr ''ipam.pool: noop'' [si, i])
                else if ipBackend ip = ''static''
                then guard (length (ipPool ip) = 0) (CErr ''ipam.pool'' [si, i])
                else Some (CErr ''ipam.backend'' [si, i]))])"

definition validateProfileNetworks :: "Config \<Rightarrow> config_error option" where
  "validateProfileNetworks c = first_err (\<lambda>si s. first_err (check_network si) 0 (seProfiles s)) 0 (cfScalesets c)"

definition validateProfileCanaries :: "Config \<Rightarrow> config_error option" where
  "validateProfileCanaries c =
     first_err (\<lambda>si s. first_err (\<lambda>i p.
       if pfCanaryTemplateVMID p = 0 then checks
         [guard (pfCanaryPercent p > 0) (CErr ''canary_percent'' [si, i]),
          guard (pfCanaryMaxFailureRate p > 0) (CErr ''canary_max_failure_rate'' [si, i])]
       else None) 0 (seProfiles s)) 0 (cfScalesets c)"

definition Validate_config :: "cfg_env \<Rightarrow> Config \<Rightarrow> config_error option" where
  "Validate_config e c = checks
     [validateStruct e c, validateSizing c, validateProxmoxSecurity e c, validateTLSAndProxies e c, validateScalesets c,
      validateProfiles c, validateQuotas c, validatePriority c, validateNodeAffinity c, validateProfileNetworks c,
      validateProfileCanaries c]"

text \<open>\<^verbatim>\<open>loadInto\<close> after the YAML and the environment have been decoded.\<close>

definition loadInto :: "cfg_env \<Rightarrow> Config \<Rightarrow> config_error + Config" where
  "loadInto e c =
     (if length (cfScalesets c) > 0 \<and>
         (scName (cfScaleSet c) \<noteq> '''' \<or> scMaxConcurrentRunners (cfScaleSet c) \<noteq> 0 \<or> length (cfProfiles c) > 0 \<or>
          gsOrg (gcScope (cfGitHub c)) \<noteq> '''' \<or> gsRepo (gcScope (cfGitHub c)) \<noteq> '''')
      then Inl (CErr ''scalesets: mixed'' [])
      else case Resolve_config e (ApplyDefaults c) of
             Inl er \<Rightarrow> Inl er
           | Inr c' \<Rightarrow> (case Validate_config e c' of Some er \<Rightarrow> Inl er | None \<Rightarrow> Inr c'))"

section \<open>Key paths of the schema\<close>

definition stripSliceIndices :: "string \<Rightarrow> string" where
  "stripSliceIndices key = Join_with CHR ''.'' (filter (\<lambda>p. Atoi p = None) (Split_on CHR ''.'' key))"

text \<open>\<open>schemaKeySet\<close>: the key paths that the walk over the struct tags registers.\<close>

definition isSchemaKey :: "string set \<Rightarrow> string \<Rightarrow> bool" where
  "isSchemaKey schemaKeySet key \<longleftrightarrow> key \<in> schemaKeySet \<or> stripSliceIndices key \<in> schemaKeySet"

definition rejectUnknownYAMLKeys :: "string set \<Rightarrow> string list \<Rightarrow> string option" where
  "rejectUnknownYAMLKeys schemaKeySet keys = find (\<lambda>key. \<not> isSchemaKey schemaKeySet key) keys"

section \<open>What an accepted configuration guarantees\<close>

lemma checks_None: "checks cs = None \<longleftrightarrow> list_all (\<lambda>c. c = None) cs"
  by (induction cs) (auto split: option.splits)

lemma guard_None [simp]: "guard bad e = None \<longleftrightarrow> \<not> bad"
  by (simp add: guard_def)

lemma first_err_None: "first_err f i xs = None \<longleftrightarrow> (\<forall>j < length xs. f (i + j) (xs ! j) = None)"
proof (induction xs arbitrary: i)
  case (Cons x xs)
  have "(\<forall>j < length (x # xs). f (i + j) ((x # xs) ! j) = None) \<longleftrightarrow>
        f i x = None \<and> (\<forall>j < length xs. f (Suc i + j) (xs ! j) = None)"
    by (auto simp: nth_Cons split: nat.splits)
  then show ?case by (auto simp: Cons.IH split: option.splits)
qed simp

lemma first_err_all: "first_err f i xs = None \<Longrightarrow> x \<in> set xs \<Longrightarrow> \<exists>j. f j x = None"
  by (auto simp: first_err_None in_set_conv_nth)

text \<open>The validators of a configuration that passes, one fact each.\<close>

lemma Validate_None:
  assumes "Validate_config e c = None"
  shows "validateSizing c = None" "validateScalesets c = None" "validateProfiles c = None"
    "validateQuotas c = None" "validatePriority c = None" "validateNodeAffinity c = None"
    "validateProfileNetworks c = None" "validateProfileCanaries c = None" "validateStruct e c = None"
  using assms by (simp_all add: Validate_config_def checks_None del: checks.simps)

lemma loadInto_Inr:
  assumes "loadInto e c = Inr c'"
  shows "Resolve_config e (ApplyDefaults c) = Inr c'" "Validate_config e c' = None"
  using assms by (auto simp: loadInto_def split: if_splits sum.splits option.splits)

fun entries_ok :: "Config \<Rightarrow> ScaleSetEntry \<Rightarrow> bool" where
  "entries_ok c s \<longleftrightarrow> (\<exists>t. OwnerTag (seName s) = Inr t) \<and>
     ((gsOrg (seScope s) \<noteq> '''') \<noteq> (gsRepo (seScope s) \<noteq> '''')) \<and>
     (seMaxConcurrentRunners s > 0 \<or> ccEnabled (poCapacity (cfPool c))) \<and>
     (seMaxConcurrentRunners s > 0 \<longrightarrow> poHotSize (cfPool c) + poWarmSize (cfPool c) \<le> seMaxConcurrentRunners s)"

definition scope_key :: "ScaleSetEntry \<Rightarrow> string" where
  "scope_key s = ''org:'' @ gsOrg (seScope s) @ ''|repo:'' @ gsRepo (seScope s)"

lemma check_entries_sound:
  "check_entries c i names tags scopes ss = None \<Longrightarrow>
     list_all (entries_ok c) ss \<and>
     distinct (map seName ss) \<and> seName ` set ss \<inter> names = {} \<and>
     distinct (map (\<lambda>s. OwnerTag (seName s)) ss) \<and> (\<lambda>s. OwnerTag (seName s)) ` set ss \<inter> Inr ` tags = {} \<and>
     distinct (map scope_key ss) \<and> scope_key ` set ss \<inter> scopes = {}"
proof (induction ss arbitrary: i names tags scopes)
  case (Cons s ss)
  obtain t where t: "OwnerTag (seName s) = Inr t"
    using Cons.prems by (cases "OwnerTag (seName s)") (auto split: if_splits)
  note eq = check_entries.simps(2) [of c i names tags scopes s ss, folded scope_key_def, unfolded t sum.case Let_def]
  have new: "seName s \<notin> names" "t \<notin> tags" "scope_key s \<notin> scopes" "entries_ok c s"
    using Cons.prems t unfolding eq by (auto split: if_splits)
  have rest: "check_entries c (Suc i) (insert (seName s) names) (insert t tags) (insert (scope_key s) scopes) ss = None"
    using Cons.prems unfolding eq by (simp split: if_splits)
  show ?case using Cons.IH [OF rest] new t by auto
qed simp

lemma check_overlap_sound: "check_overlap rs = None \<Longrightarrow> sorted_wrt ranges_disjoint rs"
  by (induction rs) (auto split: if_splits simp: list_all_iff)

lemma validateScalesets_None:
  assumes "validateScalesets c = None"
  shows "cfScalesets c \<noteq> []" "check_entries c 0 {} {} {} (cfScalesets c) = None"
    "first_err (check_range (length (cfScalesets c))) 0 (cfScalesets c) = None"
    "check_overlap (List.map_filter seVMIDRange (cfScalesets c)) = None"
  using assms by (simp_all add: validateScalesets_def validateScalesetVMIDRanges_def checks_None del: checks.simps)

text \<open>Distinct scale sets of an accepted configuration have distinct names, owner tags and scopes.\<close>

lemma accepted_distinct:
  assumes "validateScalesets c = None"
  shows "distinct (map seName (cfScalesets c))" "distinct (map (\<lambda>s. OwnerTag (seName s)) (cfScalesets c))"
    "distinct (map scope_key (cfScalesets c))" "\<forall>s \<in> set (cfScalesets c). entries_ok c s"
  using check_entries_sound [OF validateScalesets_None(2) [OF assms]] unfolding list_all_iff by blast+

lemma map_filter_pairwise:
  assumes "sorted_wrt P (List.map_filter f xs)" "i < j" "j < length xs" "f (xs ! i) = Some a" "f (xs ! j) = Some b"
  shows "P a b"
  using assms
proof (induction xs arbitrary: i j)
  case (Cons x xs)
  obtain j' where j: "j = Suc j'" using Cons.prems(2) by (cases j) auto
  show ?case
  proof (cases i)
    case 0
    have "b \<in> set (List.map_filter f xs)"
      using Cons.prems(3,5) j by (auto simp: List.map_filter_def intro!: image_eqI [of _ _ "xs ! j'"])
    then show ?thesis using Cons.prems(1,4) 0 by (auto simp: List.map_filter_def)
  next
    case (Suc i')
    have "sorted_wrt P (List.map_filter f xs)"
      using Cons.prems(1) by (cases "f x") (simp_all add: List.map_filter_def)
    then show ?thesis using Cons.IH [of i' j'] Cons.prems(2-5) j Suc by simp
  qed
qed simp

lemma accepted_ranges:
  assumes "validateScalesets c = None" "i < j" "j < length (cfScalesets c)"
  obtains a b where "seVMIDRange (cfScalesets c ! i) = Some a" "seVMIDRange (cfScalesets c ! j) = Some b"
    "ranges_disjoint a b"
proof -
  have range: "check_range (length (cfScalesets c)) k (cfScalesets c ! k) = None" if "k < length (cfScalesets c)" for k
    using validateScalesets_None(3) [OF assms(1)] that by (simp add: first_err_None)
  obtain a where a: "seVMIDRange (cfScalesets c ! i) = Some a"
    using range [of i] assms(2,3) by (cases "seVMIDRange (cfScalesets c ! i)") (auto simp: check_range_def)
  obtain b where b: "seVMIDRange (cfScalesets c ! j) = Some b"
    using range [of j] assms(2,3) by (cases "seVMIDRange (cfScalesets c ! j)") (auto simp: check_range_def)
  show thesis
    using that [OF a b] map_filter_pairwise [OF check_overlap_sound [OF validateScalesets_None(4) [OF assms(1)]] assms(2,3) a b]
    by simp
qed

text \<open>The profiles of an accepted configuration.\<close>

lemma check_profiles_of_sound:
  "check_profiles_of c si s i seen ps = None \<Longrightarrow>
     distinct (map pfName ps) \<and> pfName ` set ps \<inter> seen = {} \<and>
     (\<forall>p \<in> set ps. profileNameRE (pfName p) \<and> (\<exists>k. check_profile c si s k p = None))"
proof (induction ps arbitrary: i seen)
  case (Cons p ps)
  have now: "profileNameRE (pfName p)" "pfName p \<notin> seen" "check_profile c si s i p = None"
    and rest: "check_profiles_of c si s (Suc i) (insert (pfName p) seen) ps = None"
    using Cons.prems by (auto split: if_splits option.splits)
  show ?case using Cons.IH [OF rest] now by auto
qed simp

lemma accepted_profiles:
  assumes "validateProfiles c = None" "s \<in> set (cfScalesets c)"
  shows "seProfiles s \<noteq> []" "distinct (map pfName (seProfiles s))"
    "\<forall>p \<in> set (seProfiles s). profileNameRE (pfName p) \<and> (\<exists>si k. check_profile c si s k p = None)"
proof -
  have "first_err (\<lambda>si s. if length (seProfiles s) = 0 then Some (CErr ''profiles'' [si])
          else check_profiles_of c si s 0 {} (seProfiles s)) 0 (cfScalesets c) = None"
    using assms(1) by (simp add: validateProfiles_def checks_None del: checks.simps)
  from first_err_all [OF this assms(2)] obtain si where si: "seProfiles s \<noteq> []" "check_profiles_of c si s 0 {} (seProfiles s) = None"
    by (auto split: if_splits)
  with check_profiles_of_sound [OF si(2)]
  show "seProfiles s \<noteq> []" "distinct (map pfName (seProfiles s))"
    "\<forall>p \<in> set (seProfiles s). profileNameRE (pfName p) \<and> (\<exists>si k. check_profile c si s k p = None)" by blast+
qed

lemma check_profile_None:
  assumes "check_profile c si s k p = None"
  defines "cap \<equiv> MaxConcurrentRunnersOrDefault p (seMaxConcurrentRunners s)"
  shows "set (pfLabels p) = set (seLabels s)" "cap > 0 \<or> ccEnabled (poCapacity (cfPool c))"
    "cap > 0 \<longrightarrow> HotSizeOrDefault p (poHotSize (cfPool c)) + WarmSizeOrDefault p (poWarmSize (cfPool c)) \<le> cap"
    "ccEnabled (poCapacity (cfPool c)) \<longrightarrow> pfMemoryMB p > 0"
proof -
  have all: "validateProfileLabels si s k p = None" "validateProfileFootprint c si k p = None"
    "\<not> (cap \<le> 0 \<and> \<not> ccEnabled (poCapacity (cfPool c)))" "check_sizes c si k p cap = None"
    using assms(1) unfolding check_profile_def Let_def checks_None cap_def by simp_all
  show "set (pfLabels p) = set (seLabels s)"
    using all(1) by (auto simp: validateProfileLabels_def labelsNotIn_def filter_empty_conv split: if_splits)
  show "cap > 0 \<or> ccEnabled (poCapacity (cfPool c))" using all(3) by auto
  show "cap > 0 \<longrightarrow> HotSizeOrDefault p (poHotSize (cfPool c)) + WarmSizeOrDefault p (poWarmSize (cfPool c)) \<le> cap"
    using all(4) by (auto simp: check_sizes_def split: if_splits)
  show "ccEnabled (poCapacity (cfPool c)) \<longrightarrow> pfMemoryMB p > 0"
    using all(2) by (auto simp: validateProfileFootprint_def split: if_splits)
qed

text \<open>Resolution changes the schedules of the profiles and the node id only.\<close>

lemma Resolve_fields:
  assumes "Resolve_config e c = Inr c'"
  shows "cfPool c' = cfPool c" "cfGitHub c' = cfGitHub c" "cfNodes c' = cfNodes c" "cfProxmox c' = cfProxmox c"
    "resolvePool c = None" "resolveNodeSelector c = None" "length (cfScalesets c') = length (cfScalesets c)"
proof -
  obtain c1 where 1: "resolveProfiles e c = Inr c1" "resolveCluster e c1 = Inr c'"
    and 2: "resolvePool c = None" "resolveNodeSelector c = None"
    using assms by (auto simp: Resolve_config_def checks_None simp del: checks.simps split: option.splits sum.splits)
  have "cfPool c1 = cfPool c \<and> cfGitHub c1 = cfGitHub c \<and> cfNodes c1 = cfNodes c \<and> cfProxmox c1 = cfProxmox c \<and>
        length (cfScalesets c1) = length (cfScalesets c)"
    using 1(1) by (auto simp: resolveProfiles_def Let_def split: option.splits sum.splits list.splits)
  moreover have "cfPool c' = cfPool c1 \<and> cfGitHub c' = cfGitHub c1 \<and> cfNodes c' = cfNodes c1 \<and> cfProxmox c' = cfProxmox c1 \<and>
        cfScalesets c' = cfScalesets c1"
    using 1(2) by (auto simp: resolveCluster_def Let_def simp del: checks.simps split: option.splits if_splits)
  ultimately show "cfPool c' = cfPool c" "cfGitHub c' = cfGitHub c" "cfNodes c' = cfNodes c" "cfProxmox c' = cfProxmox c"
    "resolvePool c = None" "resolveNodeSelector c = None" "length (cfScalesets c') = length (cfScalesets c)"
    using 2 by simp_all
qed
end
