(* ===== verification/Provisioner.thy ===== *)
theory Provisioner
  imports Config Reconcile Decimal "HOL-Library.Sublist"
begin

text \<open>
  The Proxmox side (\<^verbatim>\<open>internal/provisioner/provisioner.go\<close> and \<^verbatim>\<open>agent.go\<close>). The
  Proxmox client is a third-party library: its answers are the fields of a record \<open>pve\<close>, and every
  state-changing call an operation issues is written to a log, in order, with the operation stopping
  at the first call that fails. What the firewall calls mean for the VM is replayed from that log.
\<close>

section \<open>Errors\<close>

datatype sentinel =
    ErrVMNotFound | ErrVMAlreadyRunning | ErrGuestAgentNotReady | ErrTemplateNotFound
  | ErrLinkedCloneCrossNode | ErrFirewallGroupNotFound | ProxmoxErrNotFound

text \<open>An error: what \<^verbatim>\<open>errors.Is\<close> finds in its chain, and its text.\<close>

record perr =
  errIs :: "sentinel set"
  errText :: string

fun sentinel_text :: "sentinel \<Rightarrow> string" where
  "sentinel_text ErrVMNotFound = ''provisioner: vm not found''"
| "sentinel_text ErrVMAlreadyRunning = ''provisioner: vm already running''"
| "sentinel_text ErrGuestAgentNotReady = ''provisioner: qemu-guest-agent not ready''"
| "sentinel_text ErrTemplateNotFound = ''provisioner: template VMID not found on any node''"
| "sentinel_text ErrLinkedCloneCrossNode = ''provisioner: linked clones must target the template's node''"
| "sentinel_text ErrFirewallGroupNotFound = ''provisioner: configured firewall security group not found in datacenter firewall''"
| "sentinel_text ProxmoxErrNotFound = ''not found''"

definition Errorf :: "string \<Rightarrow> perr" where
  "Errorf s = \<lparr>errIs = {}, errText = s\<rparr>"

text \<open>\<^verbatim>\<open>fmt.Errorf("text: %w", err)\<close>, and the two-sentinel form the classifiers use.\<close>

definition wrapf :: "string \<Rightarrow> perr \<Rightarrow> perr" where
  "wrapf s e = e\<lparr>errText := s @ '': '' @ errText e\<rparr>"

definition wrap_as :: "sentinel \<Rightarrow> perr \<Rightarrow> perr" where
  "wrap_as s e = \<lparr>errIs = insert s (errIs e), errText = sentinel_text s @ '': '' @ errText e\<rparr>"

definition sentinel_err :: "sentinel \<Rightarrow> string \<Rightarrow> perr" where
  "sentinel_err s t = \<lparr>errIs = {s}, errText = sentinel_text s @ '': '' @ t\<rparr>"

fun Contains :: "string \<Rightarrow> string \<Rightarrow> bool" where
  "Contains [] sub \<longleftrightarrow> sub = []"
| "Contains (c # cs) sub \<longleftrightarrow> prefix sub (c # cs) \<or> Contains cs sub"

definition httpStatusFromError :: "perr \<Rightarrow> int" where
  "httpStatusFromError e =
     (let s = errText e; d = takeWhile digit s; rest = dropWhile digit s in
      if length d \<noteq> 3 \<or> (rest \<noteq> [] \<and> hd rest \<noteq> CHR '' '') then 0
      else case undigits 0 d of None \<Rightarrow> 0 | Some n \<Rightarrow> if n < 100 \<or> n > 599 then 0 else n)"

definition classifyTypedError :: "perr \<Rightarrow> perr option" where
  "classifyTypedError e = (if ProxmoxErrNotFound \<in> errIs e then Some (wrap_as ErrVMNotFound e) else None)"

definition classifyByHTTPStatus :: "perr \<Rightarrow> perr option" where
  "classifyByHTTPStatus e = (if httpStatusFromError e = 404 then Some (wrap_as ErrVMNotFound e) else None)"

definition classifyByMessage :: "perr \<Rightarrow> perr option" where
  "classifyByMessage e =
     (if Contains (errText e) ''does not exist'' then Some (wrap_as ErrVMNotFound e)
      else if Contains (errText e) ''already running'' then Some (wrap_as ErrVMAlreadyRunning e)
      else None)"

definition proxmoxErrorClassifiers :: "(perr \<Rightarrow> perr option) list" where
  "proxmoxErrorClassifiers = [classifyTypedError, classifyByHTTPStatus, classifyByMessage]"

fun first_class :: "(perr \<Rightarrow> perr option) list \<Rightarrow> perr \<Rightarrow> perr" where
  "first_class [] e = e"
| "first_class (c # cs) e = (case c e of Some w \<Rightarrow> w | None \<Rightarrow> first_class cs e)"

definition classifyProxmoxError :: "perr \<Rightarrow> perr" where
  "classifyProxmoxError e = first_class proxmoxErrorClassifiers e"

definition isNotFound :: "perr \<Rightarrow> bool" where
  "isNotFound e \<longleftrightarrow> ErrVMNotFound \<in> errIs (classifyProxmoxError e)"

definition isAlreadyRunning :: "perr \<Rightarrow> bool" where
  "isAlreadyRunning e \<longleftrightarrow> ErrVMAlreadyRunning \<in> errIs (classifyProxmoxError e)"

definition isGuestAgentNotReady :: "perr \<Rightarrow> bool" where
  "isGuestAgentNotReady e \<longleftrightarrow>
     Contains (errText e) ''is not running'' \<or>
     Contains (errText e) ''QEMU guest agent is not running'' \<or>
     Contains (errText e) ''no QEMU guest agent configured''"

definition wrapGuestAgent :: "perr option \<Rightarrow> perr option" where
  "wrapGuestAgent r =
     (case r of
        None \<Rightarrow> None
      | Some e \<Rightarrow> Some (if isGuestAgentNotReady e then wrap_as ErrGuestAgentNotReady e else e))"

section \<open>Tasks\<close>

text \<open>A task: what \<^verbatim>\<open>WaitFor\<close> returns and the terminal fields it leaves behind.\<close>

record pve_task =
  taskWait :: "perr option"
  taskIsFailed :: bool
  taskExitStatus :: string
  taskUPID :: string

definition awaitTask :: "pve_task \<Rightarrow> perr option" where
  "awaitTask t =
     (case taskWait t of
        Some e \<Rightarrow> Some e
      | None \<Rightarrow>
          if taskIsFailed t \<or> (taskExitStatus t \<noteq> '''' \<and> taskExitStatus t \<noteq> ''OK'')
          then Some (Errorf (''proxmox task '' @ taskUPID t @ '' failed: '' @
                 (if taskExitStatus t = '''' then ''unknown failure'' else taskExitStatus t)))
          else None)"

section \<open>VMs, options and the client\<close>

record CloneNIC =
  nicBridge :: string
  nicVLANTag :: int
  nicVLANUntagged :: bool
  nicMTU :: int
  nicModel :: string

record CloneOptions =
  coNewVMID :: int
  coNode :: string
  coName :: string
  coLinked :: bool
  coPoweredOn :: bool
  coProfile :: string
  coTemplateVMID :: int
  coCPUCores :: int
  coMemoryMB :: int
  coDiskGB :: int
  coStorage :: string
  coTemplateClass :: string
  coNICs :: "CloneNIC list"
  coIPConfig :: string

text \<open>A VM as the client returns it; \<open>pvNets\<close> are its \<^verbatim>\<open>net<N>\<close> strings (\<open>None\<close>: no configuration fetched).\<close>

record pveVM =
  pvVMID :: int
  pvName :: string
  pvTags :: string
  pvTemplate :: bool
  pvStatus :: string
  pvNets :: "(string \<times> string) list option"

record fwrule =
  fwType :: string
  fwAction :: string
  fwEnable :: int

datatype optval = OStr string | OInt int

type_synonym vmopt = "string \<times> optval"

text \<open>The options of the client's clone call.\<close>

record libClone =
  lcNewID :: int
  lcName :: string
  lcFull :: bool
  lcTarget :: string
  lcStorage :: string

datatype pve_call =
    PClone int libClone
  | PConfig int "vmopt list"
  | PResize int string
  | PRule int fwrule
  | POptions int bool bool
  | PStart int
  | PShutdown int
  | PStop int
  | PDelete int
  | PSnapshot int string
  | PRollback int string
  | PFileWrite int string string
  | PExec int "string list"

record pve =
  apiNodes :: "perr + string list"
  apiNode :: "string \<Rightarrow> perr option"
  apiVM :: "string \<Rightarrow> int \<Rightarrow> perr + pveVM"
  apiVMs :: "string \<Rightarrow> perr + pveVM list"
  apiFWGroups :: "perr + string list"
  apiClone :: "perr + (int \<times> pve_task)"
  apiConfig :: "perr option"
  apiResize :: "perr + pve_task"
  apiRules :: "int \<Rightarrow> perr + fwrule list"
  apiRule :: "perr option"
  apiOptions :: "perr option"
  apiStart :: "perr + pve_task"
  apiShutdown :: "perr + pve_task"
  apiStop :: "perr + pve_task"
  apiDelete :: "perr + pve_task"
  apiSnapshot :: "perr + pve_task"
  apiRollback :: "perr + pve_task"
  apiCtxErr :: "perr option"
  apiAgent :: "int \<Rightarrow> perr option"
  apiFileWrite :: "perr option"
  apiFileRead :: "perr + string"
  apiExec :: "perr + int"

text \<open>The provisioner: the trackers map a VMID to the time it was put in.\<close>

record pmox =
  pmCfg :: ProxmoxConfig
  pmScaleSetName :: string
  pmVMNamePrefix :: string
  pmTemplateNode :: string
  pmInFlightClones :: "(int \<times> time) list"
  pmRecentlyDestroyed :: "(int \<times> time) list"
  pmCloneInflightTTL :: duration
  pmRecentlyDestroyedTTL :: duration

text \<open>An operation: its result and the calls it issued; the next step runs only after a success.\<close>

type_synonym 'a act = "(perr + 'a) \<times> pve_call list"

definition ret :: "'a \<Rightarrow> 'a act" where
  "ret x = (Inr x, [])"

definition fail :: "perr \<Rightarrow> 'a act" where
  "fail e = (Inl e, [])"

definition andThen :: "'a act \<Rightarrow> ('a \<Rightarrow> 'b act) \<Rightarrow> 'b act" where
  "andThen m f =
     (case m of
        (Inl e, l) \<Rightarrow> (Inl e, l)
      | (Inr x, l) \<Rightarrow> (case f x of (r, l') \<Rightarrow> (r, l @ l')))"

text \<open>A read of the API, a call without a task, and a call whose task is awaited.\<close>

definition look :: "string \<Rightarrow> perr + 'a \<Rightarrow> 'a act" where
  "look s r = (case r of Inl e \<Rightarrow> fail (wrapf s e) | Inr x \<Rightarrow> ret x)"

definition call :: "string \<Rightarrow> pve_call \<Rightarrow> perr option \<Rightarrow> unit act" where
  "call s c r = (case r of Some e \<Rightarrow> (Inl (wrapf s e), [c]) | None \<Rightarrow> (Inr (), [c]))"

definition tasked :: "string \<Rightarrow> string \<Rightarrow> pve_call \<Rightarrow> perr + pve_task \<Rightarrow> unit act" where
  "tasked s w c r =
     (case r of
        Inl e \<Rightarrow> (Inl (wrapf s e), [c])
      | Inr t \<Rightarrow> (case awaitTask t of Some e \<Rightarrow> (Inl (wrapf w e), [c]) | None \<Rightarrow> (Inr (), [c])))"

definition node_reply :: "pve \<Rightarrow> string \<Rightarrow> perr + unit" where
  "node_reply api n = (case apiNode api n of Some e \<Rightarrow> Inl e | None \<Rightarrow> Inr ())"

section \<open>Network interfaces\<close>

definition encodeNIC :: "CloneNIC \<Rightarrow> bool \<Rightarrow> string" where
  "encodeNIC nic firewallOn =
     Join_with CHR '',''
       ([if nicModel nic = '''' then ''virtio'' else nicModel nic, ''bridge='' @ nicBridge nic] @
        (if \<not> nicVLANUntagged nic \<and> nicVLANTag nic > 0 then [''tag='' @ itoa (nicVLANTag nic)] else []) @
        (if nicMTU nic > 0 then [''mtu='' @ itoa (nicMTU nic)] else []) @
        (if firewallOn then [''firewall=1''] else []))"

text \<open>\<^verbatim>\<open>strings.Cut(part, "=")\<close> with a trimmed key equal to \<^verbatim>\<open>firewall\<close>, and its value.\<close>

definition is_fw :: "string \<Rightarrow> bool" where
  "is_fw part \<longleftrightarrow> CHR ''='' \<in> set part \<and> TrimSpace (takeWhile (\<lambda>c. c \<noteq> CHR ''='') part) = ''firewall''"

definition fw_value :: "string \<Rightarrow> string" where
  "fw_value part = TrimSpace (tl (dropWhile (\<lambda>c. c \<noteq> CHR ''='') part))"

text \<open>The loop over the parts: \<open>None\<close> when no part is the flag, else the parts, changed or not.\<close>

fun force_parts :: "string list \<Rightarrow> (string list \<times> bool) option" where
  "force_parts [] = None"
| "force_parts (p # ps) =
     (if is_fw p then Some (if fw_value p = ''1'' then (p # ps, False) else (''firewall=1'' # ps, True))
      else case force_parts ps of None \<Rightarrow> None | Some (qs, ch) \<Rightarrow> Some (p # qs, ch))"

definition forceNICFirewallFlag :: "string \<Rightarrow> string \<times> bool" where
  "forceNICFirewallFlag nic =
     (case force_parts (Split_on CHR '','' nic) of
        None \<Rightarrow> (nic @ '',firewall=1'', True)
      | Some (ps, ch) \<Rightarrow> if ch then (Join_with CHR '','' ps, True) else (nic, False))"

text \<open>\<^verbatim>\<open>fmt.Sscanf(k, "net%d", &idx)\<close> on the keys of a VM configuration.\<close>

definition net_index :: "string \<Rightarrow> int option" where
  "net_index k =
     (if prefix ''net'' k \<and> takeWhile digit (drop 3 k) \<noteq> [] then undigits 0 (takeWhile digit (drop 3 k)) else None)"

definition nicFirewallPatches :: "(string \<times> string) list option \<Rightarrow> int \<Rightarrow> vmopt list" where
  "nicFirewallPatches nets overridden =
     (case nets of
        None \<Rightarrow> []
      | Some ns \<Rightarrow>
          List.map_filter (\<lambda>k.
            (if (case net_index k of Some i \<Rightarrow> i < overridden | None \<Rightarrow> False) then None
             else case map_of ns k of
                    None \<Rightarrow> None
                  | Some v \<Rightarrow> if v = '''' then None
                             else (case forceNICFirewallFlag v of (p, ch) \<Rightarrow> if ch then Some (k, OStr p) else None)))
            (sort (map fst ns)))"

section \<open>Construction\<close>

text \<open>The scan for a template: nodes that fail or host the VMID as an ordinary VM are passed over.\<close>

fun scan_template :: "pve \<Rightarrow> int \<Rightarrow> string list \<Rightarrow> string option" where
  "scan_template api vmid [] = None"
| "scan_template api vmid (n # ns) =
     (case apiNode api n of
        Some _ \<Rightarrow> scan_template api vmid ns
      | None \<Rightarrow>
          (case apiVM api n vmid of
             Inl _ \<Rightarrow> scan_template api vmid ns
           | Inr vm \<Rightarrow> if \<not> pvTemplate vm then scan_template api vmid ns else Some n))"

definition discoverTemplateNode :: "pve \<Rightarrow> int \<Rightarrow> perr + string" where
  "discoverTemplateNode api vmid =
     (case apiNodes api of
        Inl e \<Rightarrow> Inl (wrapf ''provisioner: list nodes'' e)
      | Inr statuses \<Rightarrow>
          (case scan_template api vmid statuses of
             Some n \<Rightarrow> Inr n
           | None \<Rightarrow> Inl (sentinel_err ErrTemplateNotFound (''vmid='' @ itoa vmid))))"

definition validateFirewallSecurityGroup :: "pve \<Rightarrow> ProxmoxConfig \<Rightarrow> perr option" where
  "validateFirewallSecurityGroup api cfg =
     (if \<not> pxFirewallEnabled cfg then None
      else case apiFWGroups api of
             Inl e \<Rightarrow> Some (wrapf ''provisioner: list datacenter firewall security groups'' e)
           | Inr groups \<Rightarrow>
               if pxFirewallGroup cfg \<in> set groups then None
               else Some (sentinel_err ErrFirewallGroupNotFound (pxFirewallGroup cfg)))"

definition pmox_New :: "pve \<Rightarrow> ProxmoxConfig \<Rightarrow> string \<Rightarrow> string \<Rightarrow> duration \<Rightarrow> duration \<Rightarrow> perr + pmox" where
  "pmox_New api cfg scaleSetName vmNamePrefix inflightTTL destroyedTTL =
     (case discoverTemplateNode api (pxTemplateVMID cfg) of
        Inl e \<Rightarrow> Inl e
      | Inr node \<Rightarrow>
          (case validateFirewallSecurityGroup api cfg of
             Some e \<Rightarrow> Inl e
           | None \<Rightarrow> Inr \<lparr>pmCfg = cfg, pmScaleSetName = scaleSetName, pmVMNamePrefix = vmNamePrefix,
               pmTemplateNode = node, pmInFlightClones = [], pmRecentlyDestroyed = [],
               pmCloneInflightTTL = (if inflightTTL \<le> 0 then 5 * minute else inflightTTL),
               pmRecentlyDestroyedTTL = (if destroyedTTL \<le> 0 then 10 * minute else destroyedTTL)\<rparr>))"

text \<open>\<open>live\<close>: the cache still serves the entry; it drops entries past its own, longer, TTL.\<close>

definition IsRecentlyDestroyed :: "pmox \<Rightarrow> bool \<Rightarrow> time \<Rightarrow> int \<Rightarrow> duration \<Rightarrow> bool \<times> pmox" where
  "IsRecentlyDestroyed p live now vmid cooldown =
     (case (if live then map_of (pmRecentlyDestroyed p) vmid else None) of
        None \<Rightarrow> (False, p)
      | Some at' \<Rightarrow>
          if now - at' \<ge> cooldown
          then (False, p\<lparr>pmRecentlyDestroyed := AList.delete vmid (pmRecentlyDestroyed p)\<rparr>)
          else (True, p))"

definition InFlightCloneCount :: "pmox \<Rightarrow> int" where
  "InFlightCloneCount p = int (length (pmInFlightClones p))"

section \<open>Cloning\<close>

definition resolveTemplateVMID :: "int \<Rightarrow> int \<Rightarrow> int" where
  "resolveTemplateVMID optOverride def = (if optOverride > 0 then optOverride else def)"

definition locateTemplate :: "pve \<Rightarrow> int \<Rightarrow> perr + string" where
  "locateTemplate api vmid =
     (case apiNodes api of
        Inl e \<Rightarrow> Inl (wrapf ''list nodes'' e)
      | Inr statuses \<Rightarrow>
          (case scan_template api vmid statuses of
             Some n \<Rightarrow> Inr n
           | None \<Rightarrow> Inl (sentinel_err ErrTemplateNotFound (''vmid='' @ itoa vmid))))"

definition resolveTemplateNode :: "pve \<Rightarrow> pmox \<Rightarrow> CloneOptions \<Rightarrow> perr + string" where
  "resolveTemplateNode api p co =
     (if coTemplateVMID co > 0 \<and> coTemplateVMID co \<noteq> pxTemplateVMID (pmCfg p) then
        (case locateTemplate api (coTemplateVMID co) of
           Inl e \<Rightarrow> Inl (wrapf (''locate profile template '' @ itoa (coTemplateVMID co)) e)
         | Inr n \<Rightarrow> Inr n)
      else Inr (pmTemplateNode p))"

definition buildLibCloneOptions :: "CloneOptions \<Rightarrow> string \<Rightarrow> libClone" where
  "buildLibCloneOptions co templateNodeName =
     (if coLinked co
      then \<lparr>lcNewID = coNewVMID co, lcName = coName co, lcFull = False, lcTarget = '''', lcStorage = ''''\<rparr>
      else \<lparr>lcNewID = coNewVMID co, lcName = coName co, lcFull = True,
            lcTarget = (if coNode co \<noteq> '''' \<and> coNode co \<noteq> templateNodeName then coNode co else ''''),
            lcStorage = coStorage co\<rparr>)"

definition buildCloneConfig :: "string \<Rightarrow> CloneOptions \<Rightarrow> bool \<Rightarrow> perr + vmopt list" where
  "buildCloneConfig scaleSetName co firewallOn =
     (case Initial scaleSetName (coProfile co) (coTemplateClass co) of
        Inl e \<Rightarrow> Inl (Errorf ''compute initial tags'')
      | Inr initial \<Rightarrow> Inr
          ([(''tags'', OStr (Encode initial))] @
           (if coCPUCores co > 0 then [(''cores'', OInt (coCPUCores co))] else []) @
           (if coMemoryMB co > 0 then [(''memory'', OInt (coMemoryMB co))] else []) @
           map (\<lambda>(i, nic). (''net'' @ itoa (int i), OStr (encodeNIC nic firewallOn))) (enumerate 0 (coNICs co)) @
           (if coIPConfig co \<noteq> '''' then [(''ipconfig0'', OStr (coIPConfig co))] else [])))"

definition group_rule :: "ProxmoxConfig \<Rightarrow> fwrule" where
  "group_rule cfg = \<lparr>fwType = ''group'', fwAction = pxFirewallGroup cfg, fwEnable = 1\<rparr>"

definition on_vm :: "string \<Rightarrow> int \<Rightarrow> string" where
  "on_vm s vmid = s @ itoa vmid"

definition applyFirewall :: "pve \<Rightarrow> pmox \<Rightarrow> int \<Rightarrow> unit act" where
  "applyFirewall api p vmid =
     andThen (call (on_vm ''attach security group to vm '' vmid) (PRule vmid (group_rule (pmCfg p))) (apiRule api))
       (\<lambda>_. call (on_vm ''enable firewall on vm '' vmid) (POptions vmid True (DHCPOrDefault (pmCfg p))) (apiOptions api))"

definition startInternal :: "pve \<Rightarrow> int \<Rightarrow> unit act" where
  "startInternal api vmid =
     (case apiStart api of
        Inl e \<Rightarrow> if isAlreadyRunning e then (Inr (), [PStart vmid]) else (Inl (wrapf ''start vm'' e), [PStart vmid])
      | Inr t \<Rightarrow> tasked ''start vm'' ''await start'' (PStart vmid) (Inr t))"

text \<open>\<^verbatim>\<open>wrapf\<close> around the outcome of a whole step.\<close>

definition wrapped :: "string \<Rightarrow> 'a act \<Rightarrow> 'a act" where
  "wrapped s m = (case m of (Inl e, l) \<Rightarrow> (Inl (wrapf s e), l) | (Inr x, l) \<Rightarrow> (Inr x, l))"

definition clone_task :: "pve \<Rightarrow> int \<Rightarrow> libClone \<Rightarrow> int act" where
  "clone_task api templateVMID lib =
     (case apiClone api of
        Inl e \<Rightarrow> (Inl (wrapf ''issue clone'' e), [PClone templateVMID lib])
      | Inr (newID, t) \<Rightarrow>
          (case awaitTask t of
             Some e \<Rightarrow> (Inl (wrapf ''await clone task'' e), [PClone templateVMID lib])
           | None \<Rightarrow> (Inr newID, [PClone templateVMID lib])))"

text \<open>From the clone on: configuration, disk, firewall, power.\<close>

definition clone_config :: "pve \<Rightarrow> pmox \<Rightarrow> CloneOptions \<Rightarrow> int \<Rightarrow> pveVM \<Rightarrow> unit act" where
  "clone_config api p co newID newVM =
     (case buildCloneConfig (pmScaleSetName p) co (pxFirewallEnabled (pmCfg p)) of
        Inl e \<Rightarrow> fail e
      | Inr configOpts \<Rightarrow>
          call ''set owner tags / overrides''
            (PConfig newID (configOpts @
               (if pxFirewallEnabled (pmCfg p) then nicFirewallPatches (pvNets newVM) (int (length (coNICs co))) else [])))
            (apiConfig api))"

definition clone_finish :: "pve \<Rightarrow> pmox \<Rightarrow> CloneOptions \<Rightarrow> int \<Rightarrow> unit act" where
  "clone_finish api p co newID =
     andThen (if coDiskGB co > 0
              then tasked ''resize disk'' ''await resize disk'' (PResize newID (itoa (coDiskGB co) @ ''G'')) (apiResize api)
              else ret ())
       (\<lambda>_. andThen (if pxFirewallEnabled (pmCfg p) then wrapped ''apply firewall'' (applyFirewall api p newID) else ret ())
         (\<lambda>_. if coPoweredOn co then startInternal api newID else ret ()))"

definition resultNode :: "CloneOptions \<Rightarrow> string \<Rightarrow> string" where
  "resultNode co templateNodeName =
     (if coLinked co \<or> coNode co = '''' then templateNodeName else coNode co)"

definition clone_steps :: "pve \<Rightarrow> pmox \<Rightarrow> CloneOptions \<Rightarrow> poolVM act" where
  "clone_steps api p co =
     (let templateVMID = resolveTemplateVMID (coTemplateVMID co) (pxTemplateVMID (pmCfg p)) in
      case resolveTemplateNode api p co of
        Inl e \<Rightarrow> fail e
      | Inr tn \<Rightarrow>
          andThen (look ''get template node'' (node_reply api tn)) (\<lambda>_.
          andThen (look ''get template vm'' (apiVM api tn templateVMID)) (\<lambda>_.
          andThen (clone_task api templateVMID (buildLibCloneOptions co tn)) (\<lambda>newID.
          andThen (look ''get new node'' (node_reply api (resultNode co tn))) (\<lambda>_.
          andThen (look ''fetch cloned vm'' (apiVM api (resultNode co tn) newID)) (\<lambda>newVM.
          andThen (clone_config api p co newID newVM) (\<lambda>_.
          andThen (clone_finish api p co newID) (\<lambda>_.
            ret \<lparr>vmVMID = newID, vmNode = resultNode co tn, vmName = coName co, vmProfile = ''''\<rparr>))))))))"

text \<open>The new VMID is in the in-flight tracker while the steps run and leaves it on every return.\<close>

definition pmox_Clone :: "pve \<Rightarrow> pmox \<Rightarrow> time \<Rightarrow> CloneOptions \<Rightarrow> poolVM act \<times> pmox" where
  "pmox_Clone api p now co =
     (if coLinked co \<and> coNode co \<noteq> pmTemplateNode p
      then (fail (sentinel_err ErrLinkedCloneCrossNode
              (''requested node='' @ coNode co @ '' template_node='' @ pmTemplateNode p)), p)
      else
        (let p1 = p\<lparr>pmInFlightClones := AList.update (coNewVMID co) now (pmInFlightClones p)\<rparr> in
         (clone_steps api p1 co, p1\<lparr>pmInFlightClones := AList.delete (coNewVMID co) (pmInFlightClones p1)\<rparr>)))"

section \<open>Power, deletion, snapshots\<close>

definition getVM :: "pve \<Rightarrow> poolVM \<Rightarrow> perr + pveVM" where
  "getVM api vm =
     (case apiNode api (vmNode vm) of
        Some e \<Rightarrow> Inl (wrapf (''get node '' @ vmNode vm) e)
      | None \<Rightarrow>
          (case apiVM api (vmNode vm) (vmVMID vm) of
             Inl e \<Rightarrow> Inl (wrapf (''get vm '' @ itoa (vmVMID vm) @ '' on '' @ vmNode vm) e)
           | Inr pv \<Rightarrow> Inr pv))"

definition has_group :: "ProxmoxConfig \<Rightarrow> fwrule list \<Rightarrow> bool" where
  "has_group cfg rules \<longleftrightarrow>
     list_ex (\<lambda>r. fwType r = ''group'' \<and> fwAction r = pxFirewallGroup cfg \<and> fwEnable r = 1) rules"

definition ensureFirewall :: "pve \<Rightarrow> pmox \<Rightarrow> pveVM \<Rightarrow> unit act" where
  "ensureFirewall api p pv =
     (let vmid = pvVMID pv; patches = nicFirewallPatches (pvNets pv) 0 in
      andThen (look (on_vm ''list firewall rules on vm '' vmid) (apiRules api vmid)) (\<lambda>rules.
      andThen (if \<not> has_group (pmCfg p) rules
               then call (on_vm ''attach security group to vm '' vmid) (PRule vmid (group_rule (pmCfg p))) (apiRule api)
               else ret ()) (\<lambda>_.
      andThen (call (on_vm ''enable firewall on vm '' vmid) (POptions vmid True (DHCPOrDefault (pmCfg p))) (apiOptions api)) (\<lambda>_.
        if length patches > 0
        then call (on_vm ''force firewall=1 on NICs of vm '' vmid) (PConfig vmid patches) (apiConfig api)
        else ret ()))))"

definition pmox_Start :: "pve \<Rightarrow> pmox \<Rightarrow> poolVM \<Rightarrow> unit act" where
  "pmox_Start api p vm =
     (case getVM api vm of
        Inl e \<Rightarrow> fail e
      | Inr pv \<Rightarrow>
          andThen (if pxFirewallEnabled (pmCfg p) then wrapped ''ensure firewall before start'' (ensureFirewall api p pv) else ret ())
            (\<lambda>_. startInternal api (pvVMID pv)))"

text \<open>A call whose task is awaited, with both errors classified.\<close>

definition classified :: "string \<Rightarrow> string \<Rightarrow> pve_call \<Rightarrow> perr + pve_task \<Rightarrow> unit act" where
  "classified s w c r =
     (case r of
        Inl e \<Rightarrow> (Inl (wrapf s (classifyProxmoxError e)), [c])
      | Inr t \<Rightarrow>
          (case awaitTask t of
             Some e \<Rightarrow> (Inl (wrapf w (classifyProxmoxError e)), [c])
           | None \<Rightarrow> (Inr (), [c])))"

text \<open>
  A graceful shutdown, then a hard stop; a cancelled context (\<open>apiCtxErr\<close>) while the shutdown was
  awaited is reported as such.
\<close>

definition stopInternal :: "pve \<Rightarrow> int \<Rightarrow> unit act" where
  "stopInternal api vmid =
     (let hard = classified ''hard stop'' ''await hard stop'' (PStop vmid) (apiStop api);
          after = (\<lambda>m. case m of (r, l) \<Rightarrow> (r, PShutdown vmid # l)) in
      case apiShutdown api of
        Inl _ \<Rightarrow> after hard
      | Inr t \<Rightarrow>
          (case awaitTask t of
             None \<Rightarrow> (Inr (), [PShutdown vmid])
           | Some _ \<Rightarrow>
               (case apiCtxErr api of
                  Some ce \<Rightarrow> (Inl ce, [PShutdown vmid])
                | None \<Rightarrow> after hard)))"

definition pmox_Stop :: "pve \<Rightarrow> poolVM \<Rightarrow> unit act" where
  "pmox_Stop api vm =
     (case getVM api vm of
        Inl e \<Rightarrow> if isNotFound e then ret () else fail e
      | Inr pv \<Rightarrow> stopInternal api (pvVMID pv))"

definition mark_destroyed :: "pmox \<Rightarrow> time \<Rightarrow> int \<Rightarrow> pmox" where
  "mark_destroyed p now vmid = p\<lparr>pmRecentlyDestroyed := AList.update vmid now (pmRecentlyDestroyed p)\<rparr>"

definition pmox_Destroy :: "pve \<Rightarrow> pmox \<Rightarrow> time \<Rightarrow> poolVM \<Rightarrow> unit act \<times> pmox" where
  "pmox_Destroy api p now vm =
     (case getVM api vm of
        Inl e \<Rightarrow> (if isNotFound e then ret () else fail e, p)
      | Inr pv \<Rightarrow>
          (let log = snd (stopInternal api (pvVMID pv)) @ [PDelete (pvVMID pv)] in
           case apiDelete api of
             Inl e \<Rightarrow>
               if isNotFound e then ((Inr (), log), p) else ((Inl (wrapf ''delete vm'' (classifyProxmoxError e)), log), p)
           | Inr t \<Rightarrow>
               (case awaitTask t of
                  None \<Rightarrow> ((Inr (), log), mark_destroyed p now (vmVMID vm))
                | Some e \<Rightarrow>
                    if ErrVMNotFound \<in> errIs (classifyProxmoxError e)
                    then ((Inr (), log), mark_destroyed p now (vmVMID vm))
                    else ((Inl (wrapf ''await delete'' (classifyProxmoxError e)), log), p))))"

definition SnapshotCreate :: "pve \<Rightarrow> poolVM \<Rightarrow> string \<Rightarrow> unit act" where
  "SnapshotCreate api vm nm =
     (case getVM api vm of
        Inl e \<Rightarrow> fail (classifyProxmoxError e)
      | Inr pv \<Rightarrow> classified (on_vm ''create snapshot on vm '' (vmVMID vm)) (on_vm ''await snapshot on vm '' (vmVMID vm))
                   (PSnapshot (pvVMID pv) nm) (apiSnapshot api))"

definition SnapshotRollback :: "pve \<Rightarrow> poolVM \<Rightarrow> string \<Rightarrow> unit act" where
  "SnapshotRollback api vm nm =
     (case getVM api vm of
        Inl e \<Rightarrow> fail (classifyProxmoxError e)
      | Inr pv \<Rightarrow> classified (on_vm ''rollback to snapshot on vm '' (vmVMID vm)) (on_vm ''await rollback on vm '' (vmVMID vm))
                   (PRollback (pvVMID pv) nm) (apiRollback api))"

definition pmox_PowerState :: "pve \<Rightarrow> poolVM option \<Rightarrow> perr + string" where
  "pmox_PowerState api vmp =
     (case vmp of
        None \<Rightarrow> Inl (Errorf ''power state: nil vm'')
      | Some vm \<Rightarrow>
          (case getVM api vm of
             Inl e \<Rightarrow> if isNotFound e then Inr '''' else Inl e
           | Inr pv \<Rightarrow> Inr (pvStatus pv)))"

definition WaitReady :: "pve \<Rightarrow> poolVM \<Rightarrow> duration \<Rightarrow> perr option" where
  "WaitReady api vm timeout =
     (case getVM api vm of
        Inl e \<Rightarrow> Some (classifyProxmoxError e)
      | Inr pv \<Rightarrow>
          (let seconds = (if timeout div second < 1 then 60 else timeout div second) in
           case apiAgent api seconds of
             Some e \<Rightarrow> Some (wrapf ''await guest agent'' (classifyProxmoxError e))
           | None \<Rightarrow> None))"

section \<open>Ownership\<close>

definition classifyVM :: "pmox \<Rightarrow> string \<Rightarrow> pveVM \<Rightarrow> poolVM option" where
  "classifyVM p node v =
     (let vmid = pvVMID v;
          owned = IsOwnedBy (pvTags v) (pmScaleSetName p);
          untaggedOrphan = \<not> owned \<and> pmVMNamePrefix p \<noteq> '''' \<and> prefix (pmVMNamePrefix p) (pvName v) \<and>
            vmid \<ge> vrMin (pxVMIDRange (pmCfg p)) \<and> vmid \<le> vrMax (pxVMIDRange (pmCfg p)) in
      if \<not> owned \<and> \<not> untaggedOrphan then None
      else Some \<lparr>vmVMID = vmid, vmNode = node, vmName = pvName v, vmProfile = (if owned then ProfileOf (pvTags v) else '''')\<rparr>)"

definition owned_on :: "pve \<Rightarrow> pmox \<Rightarrow> string \<Rightarrow> poolVM list" where
  "owned_on api p node =
     (case apiNode api node of
        Some _ \<Rightarrow> []
      | None \<Rightarrow> (case apiVMs api node of Inl _ \<Rightarrow> [] | Inr vms \<Rightarrow> List.map_filter (classifyVM p node) vms))"

definition ListOwnedVMs :: "pve \<Rightarrow> pmox \<Rightarrow> perr + poolVM list" where
  "ListOwnedVMs api p =
     (case apiNodes api of
        Inl e \<Rightarrow> Inl (wrapf ''list nodes'' e)
      | Inr statuses \<Rightarrow> Inr (concat (map (owned_on api p) statuses)))"

section \<open>The guest agent (agent.go)\<close>

definition jit_char :: "char \<Rightarrow> bool" where
  "jit_char c \<longleftrightarrow> lower c \<or> upper c \<or> digit c \<or> c \<in> {CHR ''+'', CHR ''/'', CHR ''='', CHR ''_'', CHR ''-''}"

definition jitConfigPattern :: "string \<Rightarrow> bool" where
  "jitConfigPattern s \<longleftrightarrow> s \<noteq> '''' \<and> list_all jit_char s"

definition agentFileWriteMaxBytes :: nat where
  "agentFileWriteMaxBytes = 60 * 1024"

definition agentFileWrite :: "pve \<Rightarrow> int \<Rightarrow> string \<Rightarrow> string \<Rightarrow> unit act" where
  "agentFileWrite api vmid path content =
     (if length content > agentFileWriteMaxBytes then fail (Errorf ''agent file-write: content exceeds the limit'')
      else call (''agent file-write '' @ path @ '' on vmid='' @ itoa vmid) (PFileWrite vmid path content) (apiFileWrite api))"

text \<open>
  One answer of the exec-status poll. The list of answers ends where the 30 second deadline or the
  caller's context ends the wait (\<open>ctxErr\<close>).
\<close>

datatype exec_status = StatusErr perr bool | Status_running | Status_exited int string

fun exec_poll :: "perr \<Rightarrow> exec_status list \<Rightarrow> perr option" where
  "exec_poll ctxErr [] = Some (wrapf ''agent exec'' ctxErr)"
| "exec_poll ctxErr (StatusErr e done # rs) =
     Some (if done then wrapf ''agent exec'' ctxErr else wrapf ''agent exec-status'' e)"
| "exec_poll ctxErr (Status_running # rs) = exec_poll ctxErr rs"
| "exec_poll ctxErr (Status_exited code err # rs) =
     (if code \<noteq> 0 then Some (Errorf (''agent exec failed: exit='' @ itoa code @ '' stderr='' @ err)) else None)"

definition agentExecWait :: "pve \<Rightarrow> perr \<Rightarrow> exec_status list \<Rightarrow> int \<Rightarrow> string list \<Rightarrow> unit act" where
  "agentExecWait api ctxErr polls vmid command =
     (case apiExec api of
        Inl e \<Rightarrow> (Inl (wrapf ''agent exec start'' e), [PExec vmid command])
      | Inr pid \<Rightarrow> (case exec_poll ctxErr polls of Some e \<Rightarrow> (Inl e, [PExec vmid command]) | None \<Rightarrow> (Inr (), [PExec vmid command])))"

definition finalPath :: string where
  "finalPath = ''/opt/actions-runner/jitconfig.env''"

definition tmpPath :: string where
  "tmpPath = ''/opt/actions-runner/jitconfig.env.tmp''"

definition envContent :: "string \<Rightarrow> string" where
  "envContent jitConfig = ''JIT_CONFIG='' @ [CHR 0x27] @ jitConfig @ [CHR 0x27] @ [CHR 0x0A]"

definition injectJITConfigInner :: "pve \<Rightarrow> perr \<Rightarrow> exec_status list \<Rightarrow> poolVM \<Rightarrow> string \<Rightarrow> unit act" where
  "injectJITConfigInner api ctxErr polls vm jitConfig =
     andThen (wrapped ''inject jit (tmp write)'' (agentFileWrite api (vmVMID vm) tmpPath (envContent jitConfig)))
       (\<lambda>_. wrapped ''inject jit (atomic rename)'' (agentExecWait api ctxErr polls (vmVMID vm) [''mv'', tmpPath, finalPath]))"

text \<open>\<open>decoded\<close> is the verdict of \<^verbatim>\<open>validateDecodedJITConfig\<close>: base64 that holds a JSON object.\<close>

definition InjectJITConfig :: "pve \<Rightarrow> perr \<Rightarrow> exec_status list \<Rightarrow> (string \<Rightarrow> perr option) \<Rightarrow> poolVM option \<Rightarrow> string \<Rightarrow> unit act" where
  "InjectJITConfig api ctxErr polls decoded vmp jitConfig =
     (case vmp of
        None \<Rightarrow> fail (Errorf ''inject jit: nil vm'')
      | Some vm \<Rightarrow>
          if jitConfig = '''' then fail (Errorf (on_vm ''inject jit: empty config for vm '' (vmVMID vm)))
          else if \<not> jitConfigPattern jitConfig
          then fail (Errorf (on_vm ''inject jit: config does not match expected base64 form for vm '' (vmVMID vm)))
          else case decoded jitConfig of
                 Some e \<Rightarrow> fail (wrapf (on_vm ''inject jit: config failed decoded validation for vm '' (vmVMID vm)) e)
               | None \<Rightarrow>
                   (case injectJITConfigInner api ctxErr polls vm jitConfig of
                      (Inl e, l) \<Rightarrow> (Inl (the (wrapGuestAgent (Some e))), l)
                    | (Inr u, l) \<Rightarrow> (Inr u, l)))"

definition readAgentFile :: "pve \<Rightarrow> string \<Rightarrow> perr + string" where
  "readAgentFile api path =
     (case apiFileRead api of Inl e \<Rightarrow> Inl (wrapf (''agent file-read '' @ path) e) | Inr content \<Rightarrow> Inr content)"

definition ReadJITConfig :: "pve \<Rightarrow> poolVM option \<Rightarrow> perr + string" where
  "ReadJITConfig api vmp =
     (case vmp of None \<Rightarrow> Inl (Errorf ''read jit config: nil vm'') | Some vm \<Rightarrow> readAgentFile api finalPath)"

section \<open>The sandbox, replayed from the calls\<close>

text \<open>
  What the firewall-related calls leave on one VM: its \<^verbatim>\<open>net<N>\<close> strings, its rules and whether its
  firewall is on. A call on another VM leaves it alone.
\<close>

record sandbox =
  sbNets :: "string \<rightharpoonup> string"
  sbRules :: "fwrule list"
  sbEnabled :: bool

definition set_net :: "(string \<rightharpoonup> string) \<Rightarrow> vmopt \<Rightarrow> (string \<rightharpoonup> string)" where
  "set_net nets o' = (case snd o' of OStr v \<Rightarrow> if prefix ''net'' (fst o') then nets(fst o' \<mapsto> v) else nets | OInt _ \<Rightarrow> nets)"

fun effect :: "int \<Rightarrow> sandbox \<Rightarrow> pve_call \<Rightarrow> sandbox" where
  "effect v sb (PConfig w cfgOpts) = (if w = v then sb\<lparr>sbNets := foldl set_net (sbNets sb) cfgOpts\<rparr> else sb)"
| "effect v sb (PRule w r) = (if w = v then sb\<lparr>sbRules := sbRules sb @ [r]\<rparr> else sb)"
| "effect v sb (POptions w en _) = (if w = v then sb\<lparr>sbEnabled := en\<rparr> else sb)"
| "effect v sb _ = sb"

definition replay_calls :: "int \<Rightarrow> sandbox \<Rightarrow> pve_call list \<Rightarrow> sandbox" where
  "replay_calls v sb l = foldl (effect v) sb l"

text \<open>A NIC is filtered when the first firewall attribute of its string is 1.\<close>

definition nic_filtered :: "string \<Rightarrow> bool" where
  "nic_filtered nic \<longleftrightarrow> (case find is_fw (Split_on CHR '','' nic) of Some p \<Rightarrow> fw_value p = ''1'' | None \<Rightarrow> False)"

definition sandboxed :: "ProxmoxConfig \<Rightarrow> sandbox \<Rightarrow> bool" where
  "sandboxed cfg sb \<longleftrightarrow> has_group cfg (sbRules sb) \<and> sbEnabled sb \<and>
     (\<forall>k v. sbNets sb k = Some v \<longrightarrow> v \<noteq> '''' \<longrightarrow> nic_filtered v)"

section \<open>The firewall flag of a NIC\<close>

lemma Split_on_nonempty [simp]: "Split_on sep s \<noteq> []"
  by (cases s) (auto split: list.splits)

lemma Split_on_split: "Split_on sep (a @ sep # b) = Split_on sep a @ Split_on sep b"
proof (induction a)
  case (Cons c cs)
  obtain q qs where "Split_on sep cs = q # qs" using Split_on_nonempty [of sep cs] by (cases "Split_on sep cs") auto
  with Cons show ?case by simp
qed simp

lemma Split_on_clean: "p \<in> set (Split_on sep s) \<Longrightarrow> sep \<notin> set p"
  by (induction sep s arbitrary: p rule: Split_on.induct) (auto split: list.splits if_splits)

lemma fw_flag [simp]: "is_fw ''firewall=1''" "fw_value ''firewall=1'' = ''1''"
  by (simp_all add: is_fw_def fw_value_def TrimSpace_def ascii_space_def)

lemma force_parts_None: "force_parts ps = None \<Longrightarrow> find is_fw ps = None"
  by (induction ps) (auto split: option.splits)

lemma force_parts_Some:
  "force_parts ps = Some (qs, ch) \<Longrightarrow>
     (\<exists>p. find is_fw ps = Some p \<and> (ch \<longleftrightarrow> fw_value p \<noteq> ''1'')) \<and>
     (\<exists>q. find is_fw qs = Some q \<and> fw_value q = ''1'') \<and> qs \<noteq> [] \<and> set qs \<subseteq> insert ''firewall=1'' (set ps)"
proof (induction ps arbitrary: qs)
  case (Cons p ps)
  show ?case
  proof (cases "is_fw p")
    case True
    with Cons.prems show ?thesis by (auto split: if_splits)
  next
    case False
    with Cons.prems obtain qs' where q: "force_parts ps = Some (qs', ch)" "qs = p # qs'"
      by (auto split: option.splits)
    from Cons.IH [OF q(1)] False q(2) show ?thesis by auto
  qed
qed simp

text \<open>The flag is forced exactly where the NIC is not filtered, and the outcome always is.\<close>

lemma force_filtered: "nic_filtered (fst (forceNICFirewallFlag nic))"
proof (cases "force_parts (Split_on CHR '','' nic)")
  case None
  have "Split_on CHR '','' (nic @ '',firewall=1'') = Split_on CHR '','' nic @ [''firewall=1'']"
    using Split_on_split [of "CHR '',''" nic "''firewall=1''"] by simp
  with None show ?thesis
    by (simp add: forceNICFirewallFlag_def nic_filtered_def find_append force_parts_None [OF None])
next
  case (Some r)
  obtain qs ch where r: "r = (qs, ch)" by (cases r)
  note f = force_parts_Some [OF Some [unfolded r]]
  have "\<forall>q \<in> set qs. CHR '','' \<notin> set q"
    using f Split_on_clean by fastforce
  then have "Split_on CHR '','' (Join_with CHR '','' qs) = qs" using f by (intro Split_Join) auto
  then show ?thesis using Some r f by (auto simp: forceNICFirewallFlag_def nic_filtered_def)
qed

lemma force_changes: "snd (forceNICFirewallFlag nic) \<longleftrightarrow> \<not> nic_filtered nic"
proof (cases "force_parts (Split_on CHR '','' nic)")
  case None
  then show ?thesis by (simp add: forceNICFirewallFlag_def nic_filtered_def force_parts_None [OF None])
next
  case (Some r)
  obtain qs ch where r: "r = (qs, ch)" by (cases r)
  from force_parts_Some [OF Some [unfolded r]] Some r show ?thesis
    by (auto simp: forceNICFirewallFlag_def nic_filtered_def)
qed

lemma digit_digits: "c \<in> set (digits n) \<Longrightarrow> digit c"
  using digits_digit [of c n] by (simp add: digit_def less_eq_char_def)

lemma itoa_nat [simp]: "itoa (int n) = digits n"
  by (simp add: itoa_def)

lemma net_index_itoa: "net_index (''net'' @ itoa (int n)) = Some (int n)"
proof -
  have "takeWhile digit (digits n) = digits n" using digit_digits by (simp add: takeWhile_eq_all_conv)
  then show ?thesis using digits_unsigned [of n]
    by (simp add: net_index_def undigits_digits del: takeWhile_eq_all_conv)
qed

text \<open>NICs whose fields cannot smuggle in an attribute.\<close>

definition nic_safe :: "CloneNIC \<Rightarrow> bool" where
  "nic_safe nic \<longleftrightarrow> CHR '','' \<notin> set (nicBridge nic) \<and> CHR '','' \<notin> set (nicModel nic) \<and> \<not> is_fw (nicModel nic)"

lemma comma_itoa: "CHR '','' \<notin> set (itoa n)"
proof -
  have "\<not> digit CHR '',''" by (simp add: digit_def less_eq_char_def)
  then show ?thesis using digit_digits by (auto simp: itoa_def)
qed

lemma not_fw:
  "\<not> is_fw ''virtio''" "\<not> is_fw (''bridge='' @ s)" "\<not> is_fw (''tag='' @ s)" "\<not> is_fw (''mtu='' @ s)"
  by (simp_all add: is_fw_def TrimSpace_def ascii_space_def)

lemmas not_fw_simps [simp] = not_fw [unfolded append_Cons append_Nil]

lemma encodeNIC_filtered:
  assumes "nic_safe nic"
  shows "nic_filtered (encodeNIC nic True)" "encodeNIC nic True \<noteq> ''''"
proof -
  define parts where "parts = [if nicModel nic = '''' then ''virtio'' else nicModel nic, ''bridge='' @ nicBridge nic] @
        (if \<not> nicVLANUntagged nic \<and> nicVLANTag nic > 0 then [''tag='' @ itoa (nicVLANTag nic)] else []) @
        (if nicMTU nic > 0 then [''mtu='' @ itoa (nicMTU nic)] else []) @ [''firewall=1'']"
  have enc: "encodeNIC nic True = Join_with CHR '','' parts" by (simp add: encodeNIC_def parts_def)
  have "\<forall>p \<in> set parts. CHR '','' \<notin> set p" using assms comma_itoa by (auto simp: parts_def nic_safe_def)
  then have split: "Split_on CHR '','' (encodeNIC nic True) = parts" unfolding enc by (intro Split_Join) (simp_all add: parts_def)
  have "find is_fw parts = Some ''firewall=1''" using assms by (simp add: parts_def nic_safe_def)
  then show f: "nic_filtered (encodeNIC nic True)" by (simp add: nic_filtered_def split)
  show "encodeNIC nic True \<noteq> ''''" using f by (auto simp: nic_filtered_def is_fw_def)
qed

text \<open>
  Setting options that are all filtered, among them one for every NIC that was not, leaves only
  filtered NICs.
\<close>

lemma set_nets_filtered:
  assumes "\<forall>(k, v) \<in> set os. prefix ''net'' k \<longrightarrow> (\<forall>s. v = OStr s \<longrightarrow> nic_filtered s)"
    and "\<forall>k v. nets k = Some v \<longrightarrow> v \<noteq> '''' \<longrightarrow> \<not> nic_filtered v \<longrightarrow> prefix ''net'' k \<and> (\<exists>s. (k, OStr s) \<in> set os)"
    and "foldl set_net nets os k = Some v" "v \<noteq> ''''"
  shows "nic_filtered v"
  using assms
proof (induction os arbitrary: nets)
  case Nil
  then show ?case by auto
next
  case (Cons o' os)
  obtain ok ov where o: "o' = (ok, ov)" by (cases o')
  have later: "\<forall>k v. set_net nets o' k = Some v \<longrightarrow> v \<noteq> '''' \<longrightarrow> \<not> nic_filtered v \<longrightarrow>
      prefix ''net'' k \<and> (\<exists>s. (k, OStr s) \<in> set os)"
  proof (intro allI impI)
    fix k v assume k: "set_net nets o' k = Some v" "v \<noteq> ''''" "\<not> nic_filtered v"
    show "prefix ''net'' k \<and> (\<exists>s. (k, OStr s) \<in> set os)"
    proof (cases "\<exists>s. ov = OStr s \<and> prefix ''net'' ok \<and> k = ok")
      case True
      then have "nic_filtered v" using Cons.prems(1) k(1) by (auto simp: set_net_def o)
      with k show ?thesis by simp
    next
      case False
      then have old: "nets k = Some v" using k(1) by (auto simp: set_net_def o split: optval.splits if_splits)
      then have "prefix ''net'' k \<and> (\<exists>s. (k, OStr s) \<in> set (o' # os))" using Cons.prems(2) k by blast
      then show ?thesis using False by (auto simp: o)
    qed
  qed
  show ?case
  proof (rule Cons.IH [OF _ later])
    show "\<forall>(k, v) \<in> set os. prefix ''net'' k \<longrightarrow> (\<forall>s. v = OStr s \<longrightarrow> nic_filtered s)" using Cons.prems(1) by auto
    show "foldl set_net (set_net nets o') os k = Some v" using Cons.prems(3) by simp
    show "v \<noteq> ''''" by (rule Cons.prems(4))
  qed
qed

text \<open>The keys the client reports for the network interfaces: \<^verbatim>\<open>net0\<close>, \<^verbatim>\<open>net1\<close>, each once.\<close>

definition canonical_nets :: "(string \<times> string) list option \<Rightarrow> bool" where
  "canonical_nets nets \<longleftrightarrow>
     (case nets of None \<Rightarrow> True
      | Some ns \<Rightarrow> distinct (map fst ns) \<and> (\<forall>k \<in> fst ` set ns. \<exists>n. k = ''net'' @ itoa (int n)))"

definition nets_map :: "(string \<times> string) list option \<Rightarrow> (string \<rightharpoonup> string)" where
  "nets_map nets = (case nets of None \<Rightarrow> Map.empty | Some ns \<Rightarrow> map_of ns)"

definition patch_of :: "(string \<rightharpoonup> string) \<Rightarrow> int \<Rightarrow> string \<Rightarrow> vmopt option" where
  "patch_of m n k =
     (if (case net_index k of Some i \<Rightarrow> i < n | None \<Rightarrow> False) then None
      else case m k of
             None \<Rightarrow> None
           | Some v \<Rightarrow> if v = '''' then None
                      else (case forceNICFirewallFlag v of (p, ch) \<Rightarrow> if ch then Some (k, OStr p) else None))"

lemma patch_of_Some:
  "patch_of m n k = Some x \<longleftrightarrow>
     (\<exists>v. m k = Some v \<and> v \<noteq> '''' \<and> \<not> nic_filtered v \<and> x = (k, OStr (fst (forceNICFirewallFlag v))) \<and>
          (\<forall>i. net_index k = Some i \<longrightarrow> n \<le> i))"
proof (cases "m k")
  case (Some v)
  then show ?thesis using force_changes [of v]
    by (cases "forceNICFirewallFlag v"; cases "net_index k") (auto simp: patch_of_def not_less)
qed (auto simp: patch_of_def)

lemma patches_set:
  "(k, o') \<in> set (nicFirewallPatches nets n) \<longleftrightarrow>
     (\<exists>v. nets_map nets k = Some v \<and> v \<noteq> '''' \<and> \<not> nic_filtered v \<and> o' = OStr (fst (forceNICFirewallFlag v)) \<and>
          (\<forall>i. net_index k = Some i \<longrightarrow> n \<le> i))"
proof (cases nets)
  case (Some ns)
  have "nicFirewallPatches nets n = List.map_filter (patch_of (map_of ns) n) (sort (map fst ns))"
    unfolding nicFirewallPatches_def Some option.case patch_of_def ..
  then have "x \<in> set (nicFirewallPatches nets n) \<longleftrightarrow> (\<exists>j \<in> fst ` set ns. patch_of (map_of ns) n j = Some x)" for x
    by (force simp: List.map_filter_def)
  then have "(k, o') \<in> set (nicFirewallPatches nets n) \<longleftrightarrow> (\<exists>j \<in> fst ` set ns. patch_of (map_of ns) n j = Some (k, o'))" .
  also have "\<dots> \<longleftrightarrow> patch_of (map_of ns) n k = Some (k, o')"
  proof
    assume "\<exists>j \<in> fst ` set ns. patch_of (map_of ns) n j = Some (k, o')"
    then show "patch_of (map_of ns) n k = Some (k, o')" by (metis patch_of_Some prod.inject)
  next
    assume k: "patch_of (map_of ns) n k = Some (k, o')"
    then obtain v where "map_of ns k = Some v" by (metis patch_of_Some)
    then have "k \<in> fst ` set ns" by (metis domI dom_map_of_conv_image_fst)
    with k show "\<exists>j \<in> fst ` set ns. patch_of (map_of ns) n j = Some (k, o')" by blast
  qed
  finally show ?thesis unfolding patch_of_Some nets_map_def Some option.case by simp
qed (simp add: nicFirewallPatches_def nets_map_def)

lemma patches_filtered: "(k, OStr s) \<in> set (nicFirewallPatches nets n) \<Longrightarrow> nic_filtered s"
  using force_filtered by (auto simp: patches_set)

lemma clone_nets_filtered:
  assumes build: "buildCloneConfig nm co True = Inr os" and safe: "list_all nic_safe (coNICs co)"
    and nets: "canonical_nets nets"
    and final: "foldl set_net (nets_map nets) (os @ nicFirewallPatches nets (int (length (coNICs co)))) k = Some v" "v \<noteq> ''''"
  shows "nic_filtered v"
proof (rule set_nets_filtered [OF _ _ final])
  have net: "(''net'' @ itoa (int i), OStr (encodeNIC (coNICs co ! i) True)) \<in> set os" if "i < length (coNICs co)" for i
  proof -
    have "(i, coNICs co ! i) \<in> set (enumerate 0 (coNICs co))" using that by (simp add: in_set_enumerate_eq)
    then show ?thesis using build by (force simp: buildCloneConfig_def simp del: itoa_nat split: sum.splits)
  qed
  have enc: "nic_filtered s" if "(k, OStr s) \<in> set os" "prefix ''net'' k" for k s
  proof -
    have "s \<in> (\<lambda>nic. encodeNIC nic True) ` set (coNICs co)"
      using build that by (auto simp: buildCloneConfig_def in_set_enumerate_eq split: sum.splits if_splits)
    then show ?thesis using safe encodeNIC_filtered by (auto simp: list_all_iff)
  qed
  show "\<forall>(k, v) \<in> set (os @ nicFirewallPatches nets (int (length (coNICs co)))).
          prefix ''net'' k \<longrightarrow> (\<forall>s. v = OStr s \<longrightarrow> nic_filtered s)"
    using enc patches_filtered by auto
  show "\<forall>k v. nets_map nets k = Some v \<longrightarrow> v \<noteq> '''' \<longrightarrow> \<not> nic_filtered v \<longrightarrow>
          prefix ''net'' k \<and> (\<exists>s. (k, OStr s) \<in> set (os @ nicFirewallPatches nets (int (length (coNICs co)))))"
  proof (intro allI impI)
    fix k v assume bad: "nets_map nets k = Some v" "v \<noteq> ''''" "\<not> nic_filtered v"
    obtain n where n: "k = ''net'' @ itoa (int n)"
      using bad(1) nets by (auto simp: nets_map_def canonical_nets_def split: option.splits dest!: map_of_SomeD)
    show "prefix ''net'' k \<and> (\<exists>s. (k, OStr s) \<in> set (os @ nicFirewallPatches nets (int (length (coNICs co)))))"
    proof (cases "n < length (coNICs co)")
      case True
      then show ?thesis using net [of n] n by auto
    next
      case False
      then have "(k, OStr (fst (forceNICFirewallFlag v))) \<in> set (nicFirewallPatches nets (int (length (coNICs co))))"
        using bad n net_index_itoa [of n] by (auto simp: patches_set)
      then show ?thesis using n by auto
    qed
  qed
qed

section \<open>What a clone or a start has done before it powers the VM on\<close>

lemma andThen_log: "snd (andThen m f) = snd m @ (case fst m of Inl _ \<Rightarrow> [] | Inr x \<Rightarrow> snd (f x))"
  by (auto simp: andThen_def split: prod.splits sum.splits)

lemma act_log [simp]: "snd (ret x) = []" "snd (fail e) = []" "snd (look s r) = []" "snd (wrapped s m) = snd m"
  by (auto simp: ret_def fail_def look_def wrapped_def split: sum.splits prod.splits)

lemma act_result [simp]: "fst (ret x) = Inr x" "fst (fail e) = Inl e"
  by (simp_all add: ret_def fail_def)

lemma call_log [simp]: "snd (call s c r) = [c]" "snd (tasked s w c t) = [c]"
  by (auto simp: call_def tasked_def split: option.splits sum.splits)

lemma startInternal_log [simp]: "snd (startInternal api v) = [PStart v]"
  by (auto simp: startInternal_def split: sum.splits)

lemma applyFirewall_log:
  "snd (applyFirewall api p v) =
     PRule v (group_rule (pmCfg p)) #
       (case apiRule api of Some _ \<Rightarrow> [] | None \<Rightarrow> [POptions v True (DHCPOrDefault (pmCfg p))])"
  by (auto simp: applyFirewall_def andThen_log call_def split: option.splits)

text \<open>A successful firewall step has issued both calls.\<close>

lemma applyFirewall_ok:
  assumes "fst (applyFirewall api p v) = Inr u"
  shows "snd (applyFirewall api p v) = [PRule v (group_rule (pmCfg p)), POptions v True (DHCPOrDefault (pmCfg p))]"
proof -
  have "apiRule api = None" using assms by (auto simp: applyFirewall_def andThen_def call_def split: option.splits)
  then show ?thesis by (simp add: applyFirewall_log)
qed

lemma wrapped_Inr: "fst (wrapped s m) = Inr u \<longleftrightarrow> fst m = Inr u"
  by (auto simp: wrapped_def split: prod.splits sum.splits)

lemma clone_finish_log:
  assumes "pxFirewallEnabled (pmCfg p)"
  shows "\<exists>rs. rs \<in> {[], [PResize v (itoa (coDiskGB co) @ ''G'')]} \<and>
     (snd (clone_finish api p co v) = rs \<or> snd (clone_finish api p co v) = rs @ snd (applyFirewall api p v) \<or>
      snd (clone_finish api p co v) =
        rs @ [PRule v (group_rule (pmCfg p)), POptions v True (DHCPOrDefault (pmCfg p)), PStart v])"
proof -
  define rs where "rs = (if coDiskGB co > 0 then [PResize v (itoa (coDiskGB co) @ ''G'')] else [])"
  have "snd (clone_finish api p co v) = rs \<or> snd (clone_finish api p co v) = rs @ snd (applyFirewall api p v) \<or>
      snd (clone_finish api p co v) =
        rs @ [PRule v (group_rule (pmCfg p)), POptions v True (DHCPOrDefault (pmCfg p)), PStart v]"
    using assms applyFirewall_ok [of api p v]
    by (auto simp: clone_finish_def andThen_log rs_def wrapped_Inr split: sum.splits)
  then show ?thesis unfolding rs_def by (intro exI [of _ rs]) (auto simp: rs_def)
qed

lemma look_result: "fst (look s r) = (case r of Inl e \<Rightarrow> Inl (wrapf s e) | Inr x \<Rightarrow> Inr x)"
  by (simp add: look_def split: sum.splits)

lemma clone_task_log [simp]: "snd (clone_task api tv lib) = [PClone tv lib]"
  by (auto simp: clone_task_def split: sum.splits option.splits)

lemma clone_config_log:
  obtains (unbuilt) e where "clone_config api p co v newVM = fail e"
  | (built) os where "buildCloneConfig (pmScaleSetName p) co (pxFirewallEnabled (pmCfg p)) = Inr os"
      "snd (clone_config api p co v newVM) = [PConfig v (os @ (if pxFirewallEnabled (pmCfg p)
           then nicFirewallPatches (pvNets newVM) (int (length (coNICs co))) else []))]"
  by (cases "buildCloneConfig (pmScaleSetName p) co (pxFirewallEnabled (pmCfg p))") (auto simp: clone_config_def)

text \<open>The calls of a clone: the clone itself, the configuration, then the rest.\<close>

text \<open>The node on which the API is asked for the new VM.\<close>

definition cloneNode :: "pve \<Rightarrow> pmox \<Rightarrow> CloneOptions \<Rightarrow> perr + string" where
  "cloneNode api p co = (case resolveTemplateNode api p co of Inl e \<Rightarrow> Inl e | Inr tn \<Rightarrow> Inr (resultNode co tn))"

lemma clone_log:
  obtains "snd (clone_steps api p co) = []"
  | (cloned) tv lib where "snd (clone_steps api p co) = [PClone tv lib]"
  | (configured) tv lib v node newVM os rest where
      "snd (clone_steps api p co) =
         PClone tv lib # PConfig v (os @ (if pxFirewallEnabled (pmCfg p)
           then nicFirewallPatches (pvNets newVM) (int (length (coNICs co))) else [])) # rest"
      "cloneNode api p co = Inr node" "apiVM api node v = Inr newVM"
      "buildCloneConfig (pmScaleSetName p) co (pxFirewallEnabled (pmCfg p)) = Inr os"
      "rest = [] \<or> rest = snd (clone_finish api p co v)"
proof (cases "resolveTemplateNode api p co")
  case (Inl e)
  then show ?thesis using that(1) by (simp add: clone_steps_def)
next
  case (Inr tn)
  define tv where "tv = resolveTemplateVMID (coTemplateVMID co) (pxTemplateVMID (pmCfg p))"
  define lib where "lib = buildLibCloneOptions co tn"
  define rn where "rn = resultNode co tn"
  have rn: "cloneNode api p co = Inr rn" by (simp add: cloneNode_def Inr rn_def)
  have log: "snd (clone_steps api p co) =
      (case node_reply api tn of Inl _ \<Rightarrow> [] | Inr _ \<Rightarrow> case apiVM api tn tv of Inl _ \<Rightarrow> [] | Inr _ \<Rightarrow>
        PClone tv lib # (case fst (clone_task api tv lib) of Inl _ \<Rightarrow> [] | Inr newID \<Rightarrow>
          case node_reply api rn of Inl _ \<Rightarrow> [] | Inr _ \<Rightarrow> case apiVM api rn newID of Inl _ \<Rightarrow> [] | Inr newVM \<Rightarrow>
            snd (clone_config api p co newID newVM) @
              (case fst (clone_config api p co newID newVM) of Inl _ \<Rightarrow> [] | Inr _ \<Rightarrow> snd (clone_finish api p co newID))))"
    by (simp add: clone_steps_def Inr andThen_log look_result tv_def lib_def rn_def Let_def split: sum.splits)
  show ?thesis
  proof (cases "\<exists>newID newVM. fst (clone_task api tv lib) = Inr newID \<and> apiVM api rn newID = Inr newVM")
    case False
    then show ?thesis using that(1,2) log by (auto split: sum.splits)
  next
    case True
    then obtain v newVM where v: "fst (clone_task api tv lib) = Inr v" "apiVM api rn v = Inr newVM" by auto
    show ?thesis
    proof (cases rule: clone_config_log [of api p co v newVM])
      case (unbuilt e)
      then show ?thesis using that(1,2) log v by (auto split: sum.splits)
    next
      case (built os)
      then show ?thesis using that(1,2) that(3) [OF _ rn v(2) built(1)] log v by (auto split: sum.splits)
    qed
  qed
qed

lemma first_at_end:
  "x \<notin> set front \<Longrightarrow> pre @ x # post = front @ [y] \<Longrightarrow> pre = front \<and> x = y \<and> post = []"
proof (induction front arbitrary: pre)
  case Nil
  then show ?case by (cases pre) simp_all
next
  case (Cons f front)
  show ?case
  proof (cases pre)
    case Nil
    then show ?thesis using Cons.prems by simp
  next
    case (Cons a pre')
    then show ?thesis using Cons.IH [of pre'] Cons.prems by simp
  qed
qed

lemma clone_started:
  assumes "pxFirewallEnabled (pmCfg p)" "snd (clone_steps api p co) = pre @ PStart v # post"
  obtains tv lib node newVM os rs where
    "pre = [PClone tv lib, PConfig v (os @ nicFirewallPatches (pvNets newVM) (int (length (coNICs co))))] @ rs @
       [PRule v (group_rule (pmCfg p)), POptions v True (DHCPOrDefault (pmCfg p))]"
    "rs \<in> {[], [PResize v (itoa (coDiskGB co) @ ''G'')]}"
    "cloneNode api p co = Inr node" "apiVM api node v = Inr newVM" "buildCloneConfig (pmScaleSetName p) co True = Inr os"
proof (cases rule: clone_log [of api p co])
  case (configured tv lib w node newVM os rest)
  obtain rs where rs: "rs \<in> {[], [PResize w (itoa (coDiskGB co) @ ''G'')]}"
    and fin: "snd (clone_finish api p co w) = rs \<or> snd (clone_finish api p co w) = rs @ snd (applyFirewall api p w) \<or>
      snd (clone_finish api p co w) =
        rs @ [PRule w (group_rule (pmCfg p)), POptions w True (DHCPOrDefault (pmCfg p)), PStart w]"
    using clone_finish_log [OF assms(1), of w co api] by auto
  have start: "PStart v \<in> set rest"
  proof -
    have "PStart v \<in> set (snd (clone_steps api p co))" using assms(2) by simp
    then show ?thesis using configured(1) by simp
  qed
  have no: "PStart v \<notin> set rs" "PStart v \<notin> set (snd (applyFirewall api p w))"
    using rs by (auto simp: applyFirewall_log split: option.splits)
  have "rest = snd (clone_finish api p co w)" using start configured(5) by auto
  then have rest: "rest = rs @ [PRule w (group_rule (pmCfg p)), POptions w True (DHCPOrDefault (pmCfg p)), PStart w]"
    using fin start no by (metis Un_iff set_append)
  define front where "front = [PClone tv lib, PConfig w (os @ nicFirewallPatches (pvNets newVM) (int (length (coNICs co))))] @ rs @
       [PRule w (group_rule (pmCfg p)), POptions w True (DHCPOrDefault (pmCfg p))]"
  have eq: "pre @ PStart v # post = front @ [PStart w]"
    using configured(1) assms rest by (simp add: front_def)
  have "PStart v \<notin> set front" using no(1) by (simp add: front_def)
  then have pre: "pre = front" and v: "v = w" using first_at_end [OF _ eq] by blast+
  show ?thesis
  proof (rule that [of tv lib os newVM rs node])
    show "pre = [PClone tv lib, PConfig v (os @ nicFirewallPatches (pvNets newVM) (int (length (coNICs co))))] @ rs @
       [PRule v (group_rule (pmCfg p)), POptions v True (DHCPOrDefault (pmCfg p))]" unfolding pre v front_def ..
    show "rs \<in> {[], [PResize v (itoa (coDiskGB co) @ ''G'')]}" using rs v by simp
    show "cloneNode api p co = Inr node" by (rule configured(2))
    show "apiVM api node v = Inr newVM" using configured(3) v by simp
    show "buildCloneConfig (pmScaleSetName p) co True = Inr os" using configured(4) assms(1) by simp
  qed
next
  case (cloned tv lib)
  then show ?thesis using assms(2) by (cases pre) simp_all
qed (use assms(2) in simp)

datatype power_request = ReqClone CloneOptions | ReqStart poolVM

fun power_calls :: "pve \<Rightarrow> pmox \<Rightarrow> time \<Rightarrow> power_request \<Rightarrow> pve_call list" where
  "power_calls api p now (ReqClone co) = snd (fst (pmox_Clone api p now co))"
| "power_calls api p now (ReqStart vm) = snd (pmox_Start api p vm)"

text \<open>
  What VM \<open>v\<close> may look like before the calls. A fresh clone has the NICs that the API reports of it and,
  having come from a template, any rules and either firewall switch; a VM being started is the one that
  the API reports, with the NICs and the rules that it lists, and again either switch.
\<close>

fun sandbox_before :: "pve \<Rightarrow> pmox \<Rightarrow> power_request \<Rightarrow> int \<Rightarrow> sandbox \<Rightarrow> bool" where
  "sandbox_before api p (ReqClone co) v sb \<longleftrightarrow>
     (case cloneNode api p co of
        Inl _ \<Rightarrow> False
      | Inr node \<Rightarrow> (case apiVM api node v of Inl _ \<Rightarrow> False | Inr vm \<Rightarrow> sbNets sb = nets_map (pvNets vm)))"
| "sandbox_before api p (ReqStart vm) v sb \<longleftrightarrow>
     (case getVM api vm of
        Inl _ \<Rightarrow> False
      | Inr pv \<Rightarrow> pvVMID pv = v \<and> apiRules api v = Inr (sbRules sb) \<and> sbNets sb = nets_map (pvNets pv))"

definition nets_documented :: "pve \<Rightarrow> bool" where
  "nets_documented api \<longleftrightarrow> (\<forall>node v vm. apiVM api node v = Inr vm \<longrightarrow> canonical_nets (pvNets vm))"

fun request_nics :: "power_request \<Rightarrow> CloneNIC list" where
  "request_nics (ReqClone co) = coNICs co"
| "request_nics (ReqStart vm) = []"

lemma has_group_rule [simp]: "has_group px (rules @ [group_rule px])"
  by (simp add: has_group_def group_rule_def)

lemma patched_filtered:
  assumes "canonical_nets nets" "foldl set_net (nets_map nets) (nicFirewallPatches nets 0) k = Some v" "v \<noteq> ''''"
  shows "nic_filtered v"
proof (rule set_nets_filtered [OF _ _ assms(2,3)])
  show "\<forall>(k, v) \<in> set (nicFirewallPatches nets 0). prefix ''net'' k \<longrightarrow> (\<forall>s. v = OStr s \<longrightarrow> nic_filtered s)"
    using patches_filtered by auto
  show "\<forall>k v. nets_map nets k = Some v \<longrightarrow> v \<noteq> '''' \<longrightarrow> \<not> nic_filtered v \<longrightarrow>
          prefix ''net'' k \<and> (\<exists>s. (k, OStr s) \<in> set (nicFirewallPatches nets 0))"
  proof (intro allI impI)
    fix k v assume bad: "nets_map nets k = Some v" "v \<noteq> ''''" "\<not> nic_filtered v"
    obtain n where n: "k = ''net'' @ itoa (int n)"
      using bad(1) assms(1) by (auto simp: nets_map_def canonical_nets_def split: option.splits dest!: map_of_SomeD)
    then show "prefix ''net'' k \<and> (\<exists>s. (k, OStr s) \<in> set (nicFirewallPatches nets 0))"
      using bad net_index_itoa [of n] by (auto simp: patches_set)
  qed
qed

lemma ensureFirewall_ok:
  assumes "fst (ensureFirewall api p pv) = Inr ()" "apiRules api (pvVMID pv) = Inr rules"
  shows "snd (ensureFirewall api p pv) =
     (if has_group (pmCfg p) rules then [] else [PRule (pvVMID pv) (group_rule (pmCfg p))]) @
       [POptions (pvVMID pv) True (DHCPOrDefault (pmCfg p))] @
       (if nicFirewallPatches (pvNets pv) 0 = [] then [] else [PConfig (pvVMID pv) (nicFirewallPatches (pvNets pv) 0)])"
proof -
  have "apiOptions api = None" "\<not> has_group (pmCfg p) rules \<longrightarrow> apiRule api = None"
    using assms
    by (auto simp: ensureFirewall_def Let_def andThen_def look_def ret_def call_def split: option.splits if_splits)
  then show ?thesis
    using assms(2) by (auto simp: ensureFirewall_def Let_def andThen_def look_def ret_def call_def split: option.splits)
qed

lemma ensureFirewall_starts_nothing: "PStart v \<notin> set (snd (ensureFirewall api p pv))"
  by (auto simp: ensureFirewall_def andThen_log Let_def split: sum.splits)

text \<open>The calls of a start that gets as far as powering on.\<close>

lemma start_started:
  assumes "pxFirewallEnabled (pmCfg p)" "snd (pmox_Start api p vm) = pre @ PStart v # post"
  obtains pv rules where "getVM api vm = Inr pv" "pvVMID pv = v" "apiRules api (pvVMID pv) = Inr rules"
    "pre = (if has_group (pmCfg p) rules then [] else [PRule (pvVMID pv) (group_rule (pmCfg p))]) @
       [POptions (pvVMID pv) True (DHCPOrDefault (pmCfg p))] @
       (if nicFirewallPatches (pvNets pv) 0 = [] then [] else [PConfig (pvVMID pv) (nicFirewallPatches (pvNets pv) 0)])"
proof (cases "getVM api vm")
  case (Inl e)
  then show ?thesis using assms(2) by (simp add: pmox_Start_def)
next
  case (Inr pv)
  define w where "w = wrapped ''ensure firewall before start'' (ensureFirewall api p pv)"
  have log: "snd (pmox_Start api p vm) = snd (ensureFirewall api p pv) @ (case fst w of Inl _ \<Rightarrow> [] | Inr _ \<Rightarrow> [PStart (pvVMID pv)])"
    using assms(1) Inr by (simp add: pmox_Start_def andThen_log w_def split: sum.split)
  have "PStart v \<in> set (snd (pmox_Start api p vm))" using assms(2) by simp
  then have w: "fst w = Inr ()" using log ensureFirewall_starts_nothing [of v api p pv] by (cases "fst w") simp_all
  then have ok: "fst (ensureFirewall api p pv) = Inr ()" by (simp add: w_def wrapped_Inr)
  then obtain rules where rules: "apiRules api (pvVMID pv) = Inr rules"
    by (cases "apiRules api (pvVMID pv)") (simp_all add: ensureFirewall_def Let_def andThen_def look_def fail_def)
  have "pre @ PStart v # post = snd (ensureFirewall api p pv) @ [PStart (pvVMID pv)]" using log w assms(2) by simp
  from first_at_end [OF ensureFirewall_starts_nothing this] have "pre = snd (ensureFirewall api p pv)" "pvVMID pv = v" by blast+
  from this(1) [unfolded ensureFirewall_ok [OF ok rules]] show ?thesis by (rule that [OF Inr \<open>pvVMID pv = v\<close> rules])
qed

lemma replay_simps [simp]:
  "replay_calls v sb [] = sb" "replay_calls v sb (c # l) = replay_calls v (effect v sb c) l"
  "replay_calls v sb (l @ l') = replay_calls v (replay_calls v sb l) l'"
  by (simp_all add: replay_calls_def)

text \<open>
  With the firewall on, no VM is powered on outside its sandbox: whenever a clone or a start issues
  the start call of a VM, the calls on that same VM before it, replayed on any state that agrees with
  what the API reported of it, leave it with the security-group rule attached, its firewall on and every
  NIC filtered; and unless it already was, its firewall is not switched on before that rule is there.
  The interfaces are keyed net0, net1 and so on, as the client documents, and the requested ones cannot
  smuggle in an attribute.\<close>

lemma powered_on_sandboxed:
  assumes "pxFirewallEnabled (pmCfg p)" "list_all nic_safe (request_nics req)" "nets_documented api"
    and "power_calls api p now req = pre @ PStart v # post"
  shows "(\<exists>sb. sandbox_before api p req v sb) \<and>
    (\<forall>sb. sandbox_before api p req v sb \<longrightarrow> sandboxed (pmCfg p) (replay_calls v sb pre) \<and>
      (\<forall>l. prefix l pre \<longrightarrow> sbEnabled (replay_calls v sb l) \<longrightarrow>
         sbEnabled sb \<or> has_group (pmCfg p) (sbRules (replay_calls v sb l))))"
proof (cases req)
  case (ReqClone co)
  define p1 where "p1 = p\<lparr>pmInFlightClones := AList.update (coNewVMID co) now (pmInFlightClones p)\<rparr>"
  have p1: "pmCfg p1 = pmCfg p" "pmScaleSetName p1 = pmScaleSetName p" "cloneNode api p1 co = cloneNode api p co"
    by (simp_all add: p1_def cloneNode_def resolveTemplateNode_def)
  have fw: "pxFirewallEnabled (pmCfg p1)" using assms(1) p1 by simp
  have log: "snd (clone_steps api p1 co) = pre @ PStart v # post"
    using assms(4) ReqClone by (auto simp: pmox_Clone_def Let_def p1_def split: if_splits)
  obtain tv lib node newVM os rs where
    pre: "pre = [PClone tv lib, PConfig v (os @ nicFirewallPatches (pvNets newVM) (int (length (coNICs co))))] @ rs @
       [PRule v (group_rule (pmCfg p)), POptions v True (DHCPOrDefault (pmCfg p))]"
    and rs: "rs \<in> {[], [PResize v (itoa (coDiskGB co) @ ''G'')]}"
    and vm: "cloneNode api p co = Inr node" "apiVM api node v = Inr newVM" and os: "buildCloneConfig (pmScaleSetName p) co True = Inr os"
    by (rule clone_started [OF fw log, unfolded p1])
  have "canonical_nets (pvNets newVM)" using assms(3) vm by (auto simp: nets_documented_def)
  then have nets: "\<forall>k s. foldl set_net (nets_map (pvNets newVM)) (os @ nicFirewallPatches (pvNets newVM) (int (length (coNICs co)))) k = Some s
      \<longrightarrow> s \<noteq> '''' \<longrightarrow> nic_filtered s"
    using clone_nets_filtered [OF os] assms(2) ReqClone by simp
  have b: "sandbox_before api p req v sb \<longleftrightarrow> sbNets sb = nets_map (pvNets newVM)" for sb using vm by (simp add: ReqClone)
  have "sandboxed (pmCfg p) (replay_calls v sb pre)" if "sandbox_before api p req v sb" for sb
    using that nets rs unfolding b by (auto simp: sandboxed_def pre)
  moreover have "sbEnabled sb \<or> has_group (pmCfg p) (sbRules (replay_calls v sb l))"
    if "prefix l pre" "sbEnabled (replay_calls v sb l)" for l sb
    using that rs by (auto simp: pre prefix_Cons)
  moreover have "sandbox_before api p req v \<lparr>sbNets = nets_map (pvNets newVM), sbRules = [], sbEnabled = False\<rparr>" by (simp add: b)
  ultimately show ?thesis by blast
next
  case (ReqStart vm)
  have log: "snd (pmox_Start api p vm) = pre @ PStart v # post" using assms(4) ReqStart by simp
  obtain pv rules where pv: "getVM api vm = Inr pv" "pvVMID pv = v" "apiRules api (pvVMID pv) = Inr rules"
    and pre: "pre = (if has_group (pmCfg p) rules then [] else [PRule (pvVMID pv) (group_rule (pmCfg p))]) @
       [POptions (pvVMID pv) True (DHCPOrDefault (pmCfg p))] @
       (if nicFirewallPatches (pvNets pv) 0 = [] then [] else [PConfig (pvVMID pv) (nicFirewallPatches (pvNets pv) 0)])"
    by (rule start_started [OF assms(1) log])
  have "canonical_nets (pvNets pv)"
    using assms(3) pv(1) by (auto simp: nets_documented_def getVM_def split: option.splits sum.splits)
  then have nets: "\<forall>k s. foldl set_net (nets_map (pvNets pv)) (nicFirewallPatches (pvNets pv) 0) k = Some s \<longrightarrow> s \<noteq> '''' \<longrightarrow> nic_filtered s"
    using patched_filtered by blast
  have b: "sandbox_before api p req v sb \<longleftrightarrow> sbRules sb = rules \<and> sbNets sb = nets_map (pvNets pv)" for sb
    using pv by (auto simp: ReqStart)
  have "sandboxed (pmCfg p) (replay_calls v sb pre)" if "sandbox_before api p req v sb" for sb
    using that nets unfolding b by (auto simp: sandboxed_def pre pv(2))
  moreover have "sbEnabled sb \<or> has_group (pmCfg p) (sbRules (replay_calls v sb l))"
    if "sandbox_before api p req v sb" "prefix l pre" "sbEnabled (replay_calls v sb l)" for l sb
    using that unfolding b by (auto simp: pre pv(2) prefix_Cons split: if_splits)
  moreover have "sandbox_before api p req v \<lparr>sbNets = nets_map (pvNets pv), sbRules = rules, sbEnabled = False\<rparr>" by (simp add: b)
  ultimately show ?thesis by blast
qed

definition ex_px :: ProxmoxConfig where
  "ex_px = \<lparr>pxEndpoint = ''https://pve'', pxTokenSecret = ''s'', pxTemplateVMID = 9000, pxVMIDRange = \<lparr>vrMin = 10000, vrMax = 19999\<rparr>,
     pxBridge = ''vmbr0'', pxVLANTag = 0, pxLinked = None, pxFirewallEnabled = True, pxFirewallGroup = ''runners'',
     pxFirewallDHCP = None\<rparr>"

definition ex_pmox :: "string \<Rightarrow> pmox" where
  "ex_pmox nm = \<lparr>pmCfg = ex_px, pmScaleSetName = nm, pmVMNamePrefix = ''gh-runner-'' @ nm @ ''-'', pmTemplateNode = ''a'',
     pmInFlightClones = [], pmRecentlyDestroyed = [], pmCloneInflightTTL = 5 * minute, pmRecentlyDestroyedTTL = 10 * minute\<rparr>"

definition ex_pv :: pveVM where
  "ex_pv = \<lparr>pvVMID = 10001, pvName = ''gh-runner-ci-10001'', pvTags = '''', pvTemplate = False, pvStatus = ''stopped'',
     pvNets = Some [(''net'' @ itoa (int 0), ''virtio,bridge=vmbr0,firewall=0'')]\<rparr>"

definition ex_task :: pve_task where
  "ex_task = \<lparr>taskWait = None, taskIsFailed = False, taskExitStatus = ''OK'', taskUPID = ''u''\<rparr>"

definition ex_pve :: "pveVM list \<Rightarrow> pve" where
  "ex_pve vms = \<lparr>apiNodes = Inr [''a''], apiNode = (\<lambda>_. None), apiVM = (\<lambda>_ _. Inr ex_pv), apiVMs = (\<lambda>_. Inr vms),
     apiFWGroups = Inr [''runners''], apiClone = Inr (10001, ex_task), apiConfig = None, apiResize = Inr ex_task,
     apiRules = (\<lambda>_. Inr []), apiRule = None, apiOptions = None, apiStart = Inr ex_task, apiShutdown = Inr ex_task,
     apiStop = Inr ex_task, apiDelete = Inr ex_task, apiSnapshot = Inr ex_task, apiRollback = Inr ex_task,
     apiCtxErr = None, apiAgent = (\<lambda>_. None), apiFileWrite = None, apiFileRead = Inr '''', apiExec = Inr 1\<rparr>"

definition ex_started :: poolVM where
  "ex_started = \<lparr>vmVMID = 10001, vmNode = ''a'', vmName = ''gh-runner-ci-10001'', vmProfile = ''''\<rparr>"

lemma ex_start_calls:
  "power_calls (ex_pve []) (ex_pmox ''ci'') 0 (ReqStart ex_started) =
     [PRule 10001 (group_rule ex_px), POptions 10001 True True, PConfig 10001 (nicFirewallPatches (pvNets ex_pv) 0)] @ PStart 10001 # []"
proof -
  have "\<not> nic_filtered ''virtio,bridge=vmbr0,firewall=0''"
    by (simp add: nic_filtered_def is_fw_def fw_value_def TrimSpace_def ascii_space_def)
  then have "(''net'' @ itoa (int 0), OStr (fst (forceNICFirewallFlag ''virtio,bridge=vmbr0,firewall=0'')))
      \<in> set (nicFirewallPatches (pvNets ex_pv) 0)"
    using net_index_itoa [of 0] by (auto simp: patches_set nets_map_def ex_pv_def)
  then have "nicFirewallPatches (pvNets ex_pv) 0 \<noteq> []" by auto
  then show ?thesis
    by (simp add: pmox_Start_def getVM_def ex_pve_def ex_pmox_def ex_px_def ensureFirewall_def andThen_def look_def ret_def call_def
        wrapped_def startInternal_def tasked_def awaitTask_def ex_task_def has_group_def DHCPOrDefault_def group_rule_def ex_pv_def)
qed

section \<open>Deletion and the cool-down of a VMID\<close>

text \<open>A deletion that ran its task to the end puts the VMID into the tracker.\<close>

lemma Destroy_recorded:
  assumes "getVM api vm = Inr pv" "apiDelete api = Inr t" "fst (fst (pmox_Destroy api p now vm)) = Inr ()"
  shows "map_of (pmRecentlyDestroyed (snd (pmox_Destroy api p now vm))) (vmVMID vm) = Some now"
  using assms by (auto simp: pmox_Destroy_def Let_def mark_destroyed_def update_conv' split: option.splits if_splits)

lemma recently_destroyed_within:
  assumes "map_of (pmRecentlyDestroyed p) vmid = Some at'" "now - at' < cooldown"
  shows "fst (IsRecentlyDestroyed p True now vmid cooldown)"
  using assms by (simp add: IsRecentlyDestroyed_def)

text \<open>
  C6. A VMID is not handed out again while Proxmox may still be cleaning up after it: once a destroy has
  run its delete task to the end at some time, the allocator that consults the provisioner's tracker,
  with the entry still cached, returns another VMID or none until the cool-down has passed.\<close>

theorem destroyed_vmid_cools_down:
  assumes "getVM api vm = Inr pv" "apiDelete api = Inr t" "pmox_Destroy api p now vm = ((Inr (), issued), p')"
    and "later - now < cooldown"
    and "allocateVMID ord cancelled (\<lambda>v. fst (IsRecentlyDestroyed p' True later v cooldown)) pc T = Inr w"
  shows "w \<noteq> vmVMID vm"
proof -
  have "map_of (pmRecentlyDestroyed p') (vmVMID vm) = Some now"
    using Destroy_recorded [OF assms(1,2), of p now] assms(3) by simp
  then have "fst (IsRecentlyDestroyed p' True later (vmVMID vm) cooldown)" by (rule recently_destroyed_within [OF _ assms(4)])
  then show ?thesis using assms(5) vmid_search_Inr by (fastforce simp: allocateVMID_def split: if_splits)
qed

definition ex_range :: PoolConfig where
  "ex_range = \<lparr>HotSize = 0, WarmSize = 0, MaxConcurrentRunners = 1, VMMaxAge = 0, BootMaxAttempts = 0, Profiles = [],
     SnapshotRollbackMode = False, VMNamePrefix = '''', VMIDMin = 10001, VMIDMax = 10002, VMIDReuseCooldown = 30, LinkedClones = False,
     TemplateNode = '''', EvictIdleForDemand = False, ConfigNodes = [], HasOrphanCallback = False\<rparr>"

theorem destroyed_vmid_cools_down_witness:
  "\<exists>issued p'. pmox_Destroy (ex_pve []) (ex_pmox ''ci'') 100 ex_started = ((Inr (), issued), p') \<and>
     allocateVMID id (\<lambda>_. False) (\<lambda>v. fst (IsRecentlyDestroyed p' True 110 v 30)) ex_range [] = Inr 10002 \<and>
     (10002 :: int) \<noteq> vmVMID ex_started"
proof -
  define p' where "p' = mark_destroyed (ex_pmox ''ci'') 100 10001"
  have pv: "getVM (ex_pve []) ex_started = Inr ex_pv" "apiDelete (ex_pve []) = Inr ex_task"
    by (simp_all add: getVM_def ex_pve_def)
  have d: "pmox_Destroy (ex_pve []) (ex_pmox ''ci'') 100 ex_started =
      ((Inr (), [PShutdown 10001, PDelete 10001]), p')"
    using pv by (simp add: pmox_Destroy_def stopInternal_def awaitTask_def ex_task_def ex_pve_def p'_def ex_started_def ex_pv_def)
  have "fst (IsRecentlyDestroyed p' True 110 10001 30)" "\<not> fst (IsRecentlyDestroyed p' True 110 10002 30)"
    by (simp_all add: IsRecentlyDestroyed_def p'_def mark_destroyed_def ex_pmox_def)
  moreover have "UsedVMIDs id [] 10001 10002 = {}" by (simp add: UsedVMIDs_def List_def bucket_def)
  ultimately have a: "allocateVMID id (\<lambda>_. False) (\<lambda>v. fst (IsRecentlyDestroyed p' True 110 v 30)) ex_range [] = Inr 10002"
    by (simp add: allocateVMID_def ex_range_def vmid_search.simps [of _ _ _ 10001] vmid_search.simps [of _ _ _ 10002])
  show ?thesis using d a destroyed_vmid_cools_down [OF pv d _ a] by auto
qed

section \<open>Recognising a missing VM\<close>

definition not_found_404 :: perr where
  "not_found_404 = Errorf ''404 Not Found''"

text \<open>
  An answer that only says 404 is recognised as it comes from the client, but not once the lookup has
  put its own words in front of it: deleting a VM that is gone then fails instead of succeeding.
\<close>

theorem wrapped_404_unrecognised:
  "isNotFound not_found_404 \<and>
   fst (fst (pmox_Destroy ((ex_pve [])\<lparr>apiVM := (\<lambda>_ _. Inl not_found_404)\<rparr>) (ex_pmox ''ci'') now (ex_started\<lparr>vmVMID := 7\<rparr>))) \<noteq> Inr ()"
proof
  show "isNotFound not_found_404" by code_simp
  define e where "e = wrapf (''get vm '' @ itoa 7 @ '' on a'') not_found_404"
  have e: "getVM ((ex_pve [])\<lparr>apiVM := (\<lambda>_ _. Inl not_found_404)\<rparr>) (ex_started\<lparr>vmVMID := 7\<rparr>) = Inl e"
    by (simp add: getVM_def ex_pve_def ex_started_def e_def)
  have "\<not> isNotFound e" unfolding e_def by code_simp
  then show "fst (fst (pmox_Destroy ((ex_pve [])\<lparr>apiVM := (\<lambda>_ _. Inl not_found_404)\<rparr>) (ex_pmox ''ci'') now (ex_started\<lparr>vmVMID := 7\<rparr>))) \<noteq> Inr ()"
    by (simp add: pmox_Destroy_def e fail_def)
qed

section \<open>The injected file\<close>

text \<open>
  What is written into the VM is one line: the two quotes around the configuration are its only quotes
  and its only line break is the last character.
\<close>

theorem env_file_one_line:
  assumes "jitConfigPattern s"
  shows "count_list (envContent s) (CHR 0x27) = 2" "count_list (envContent s) (CHR 0x0A) = 1"
    "last (envContent s) = CHR 0x0A"
proof -
  have "\<not> jit_char (CHR 0x27)" "\<not> jit_char (CHR 0x0A)" by code_simp+
  then have "CHR 0x27 \<notin> set s" "CHR 0x0A \<notin> set s"
    using assms by (auto simp: jitConfigPattern_def list_all_iff)
  then show "count_list (envContent s) (CHR 0x27) = 2" "count_list (envContent s) (CHR 0x0A) = 1"
    "last (envContent s) = CHR 0x0A"
    by (simp_all add: envContent_def count_list_append count_notin)
qed
end
