(* ===== verification/Addr.thy ===== *)
theory Addr
  imports Decimal
begin

text \<open>Addresses of the form \<open>host:port\<close>, as \<^verbatim>\<open>package net\<close> splits and joins them.\<close>

text \<open>\<^verbatim>\<open>net.SplitHostPort\<close>: the port follows the last colon; a host with colons needs brackets.\<close>

definition after_last_colon :: "string \<Rightarrow> string" where
  "after_last_colon s = rev (takeWhile (\<lambda>ch. ch \<noteq> CHR '':'') (rev s))"

definition SplitHostPort :: "string \<Rightarrow> (string \<times> string) option" where
  "SplitHostPort s =
     (if CHR '':'' \<notin> set s then None
      else
        (let port = after_last_colon s; front = take (length s - length port - 1) s in
         if hd s = CHR ''['' then
           (if CHR '']'' \<notin> set s then None
            else
              (let host = takeWhile (\<lambda>ch. ch \<noteq> CHR '']'') (tl s) in
               if length host + 2 \<noteq> length front then None
               else if CHR ''['' \<in> set (tl s) \<or> CHR '']'' \<in> set port then None
               else Some (host, port)))
         else if CHR '':'' \<in> set front then None
         else if CHR ''['' \<in> set s \<or> CHR '']'' \<in> set s then None
         else Some (front, port)))"

text \<open>\<^verbatim>\<open>net.JoinHostPort\<close>: a host with colons is put in brackets.\<close>

definition JoinHostPort :: "string \<Rightarrow> string \<Rightarrow> string" where
  "JoinHostPort host port =
     (if CHR '':'' \<in> set host then ''['' @ host @ '']:'' @ port else host @ '':'' @ port)"

lemma after_last_colon_append:
  assumes "CHR '':'' \<notin> set port"
  shows "after_last_colon (xs @ CHR '':'' # port) = port"
proof -
  have "takeWhile (\<lambda>ch. ch \<noteq> CHR '':'') (rev port @ CHR '':'' # rev xs) = rev port"
    using assms by (subst takeWhile_append2) auto
  then show ?thesis by (simp add: after_last_colon_def)
qed

lemma Split_Join_HostPort:
  assumes "CHR '':'' \<notin> set port" "CHR '']'' \<notin> set port" "CHR ''['' \<notin> set port"
    and "CHR '']'' \<notin> set host" "CHR ''['' \<notin> set host"
  shows "SplitHostPort (JoinHostPort host port) = Some (host, port)"
proof (cases "CHR '':'' \<in> set host")
  case True
  have "takeWhile (\<lambda>ch. ch \<noteq> CHR '']'') (host @ CHR '']'' # CHR '':'' # port) = host"
    using assms(4) by (subst takeWhile_append2) auto
  then show ?thesis
    using True assms after_last_colon_append [of port "CHR ''['' # host @ [CHR '']'']"]
    by (simp add: SplitHostPort_def JoinHostPort_def Let_def)
next
  case False
  have "hd (host @ CHR '':'' # port) \<noteq> CHR ''[''" using assms(5) by (cases host) auto
  then show ?thesis
    using False assms after_last_colon_append [of port host] by (simp add: SplitHostPort_def JoinHostPort_def Let_def)
qed

text \<open>An address without a port is not split: what names a host alone has no colon, or more than one and no brackets.\<close>

definition bare_host :: "string \<Rightarrow> bool" where
  "bare_host s \<longleftrightarrow> CHR ''['' \<notin> set s \<and> (CHR '':'' \<in> set s \<longrightarrow> CHR '':'' \<in> set (take (length s - length (after_last_colon s) - 1) s))"

lemma bare_host_unsplit: "bare_host s \<Longrightarrow> SplitHostPort s = None"
  by (cases s) (auto simp: bare_host_def SplitHostPort_def Let_def)

end
