(* ===== verification/App.thy ===== *)
theory App
  imports Provisioner Scaler GhReconciler Schedule Ipam NodeSelector Addr
begin

text \<open>
  The wiring (\<^verbatim>\<open>internal/app/app.go\<close>): the projections of the configuration into what each
  component is built from, the order in which a scale set's worker is built and which failures end it,
  the repair of a scale set's labels on GitHub, and the supervision of the workers. GitHub's and
  Proxmox's answers are arguments; the calls that change something on GitHub are logged in order.
\<close>

section \<open>Projections of the configuration\<close>

definition entryVMIDRange :: "ScaleSetEntry \<Rightarrow> VMIDRangeC \<Rightarrow> VMIDRangeC" where
  "entryVMIDRange s fallback = (case seVMIDRange s of Some r \<Rightarrow> r | None \<Rightarrow> fallback)"

definition canaryControllerForScaleset :: "ScaleSetEntry \<Rightarrow> int \<Rightarrow> canary_error + Controller" where
  "canaryControllerForScaleset s defaultTemplateVMID =
     canary_New (map (\<lambda>p. \<lparr>cfgName = pfName p,
        StableTemplateVMID = (if pfTemplateVMID p = 0 then defaultTemplateVMID else pfTemplateVMID p),
        CandidateTemplateVMID = pfCanaryTemplateVMID p, cfgPercent = pfCanaryPercent p,
        MaxFailureRate = pfCanaryMaxFailureRate p\<rparr>) (seProfiles s))"

definition quotasResolverFromConfig :: "Config \<Rightarrow> quotas_error + Resolver" where
  "quotasResolverFromConfig c =
     quotas_New \<lparr>DefaultPerRepo = qcDefaultPerRepo (cfQuotas c), DefaultPerOrg = qcDefaultPerOrg (cfQuotas c),
       Overrides = map (\<lambda>o'. \<lparr>overrideOrg = qoOrg o', overrideRepo = qoRepo o', overrideMaxConcurrent = qoMaxConcurrent o'\<rparr>)
         (qcOverrides (cfQuotas c))\<rparr>"

definition priorityMatcherFromConfig :: "Config \<Rightarrow> priority_error + Matcher" where
  "priorityMatcherFromConfig c =
     matcher_New (map (\<lambda>cl. \<lparr>className = pcName cl,
        ClassMatch = \<lparr>WorkflowLabel = pcWorkflowLabel cl, matchRepo = pcRepo cl, matchOrg = pcOrg cl\<rparr>,
        Weight = pcWeight cl, Preempt = pcPreempt cl\<rparr>) (cfPriority c))"

definition routerForScaleset :: "ScaleSetEntry \<Rightarrow> router_error + Router" where
  "routerForScaleset s = router_New (map (\<lambda>p. \<lparr>routerName = pfName p, routerLabels = pfLabels p\<rparr>) (seProfiles s))"

definition ownedVMIDRanges :: "Config \<Rightarrow> VMIDRange list" where
  "ownedVMIDRanges c =
     map (\<lambda>s. let r = entryVMIDRange s (pxVMIDRange (cfProxmox c)) in \<lparr>rangeMin = vrMin r, rangeMax = vrMax r\<rparr>) (cfScalesets c)"

definition scalesetNames :: "Config \<Rightarrow> string list" where
  "scalesetNames c = map seName (cfScalesets c)"

definition effectiveMaxConcurrent :: "int \<Rightarrow> int" where
  "effectiveMaxConcurrent resolved = (if resolved \<le> 0 then Unlimited else resolved)"

definition firstNonEmpty :: "string \<Rightarrow> string \<Rightarrow> string" where
  "firstNonEmpty a b = (if a \<noteq> '''' then a else b)"

definition nicsFromProfileNetwork :: "Config \<Rightarrow> ProfileConfigC \<Rightarrow> CloneNIC list" where
  "nicsFromProfileNetwork c p =
     (case pfNetwork p of
        None \<Rightarrow> []
      | Some nw \<Rightarrow>
          \<lparr>nicBridge = firstNonEmpty (pnBridge nw) (pxBridge (cfProxmox c)),
           nicVLANTag = (if pnVLANTag nw = 0 \<and> \<not> pnVLANUntagged nw then pxVLANTag (cfProxmox c) else pnVLANTag nw),
           nicVLANUntagged = pnVLANUntagged nw, nicMTU = pnMTU nw, nicModel = ''''\<rparr> #
          map (\<lambda>nic. \<lparr>nicBridge = niBridge nic, nicVLANTag = niVLANTag nic, nicVLANUntagged = niVLANUntagged nic,
                     nicMTU = niMTU nic, nicModel = ''''\<rparr>) (pnExtraNICs nw))"

datatype ip_allocator = IPNoop | IPStatic Static

definition ipamFromProfileNetwork :: "ProfileConfigC \<Rightarrow> ip_allocator" where
  "ipamFromProfileNetwork p =
     (case pfNetwork p of
        None \<Rightarrow> IPNoop
      | Some nw \<Rightarrow>
          (case pnIPAM nw of
             None \<Rightarrow> IPNoop
           | Some ip \<Rightarrow>
               if ipBackend ip = ''static''
               then (case NewStatic (ipPool ip) of Inl _ \<Rightarrow> IPNoop | Inr s \<Rightarrow> IPStatic s)
               else IPNoop))"

text \<open>The pool's settings of a profile; the allocator is never nil, so every profile has one.\<close>

definition profileSettingsForScaleset :: "ScaleSetEntry \<Rightarrow> Config \<Rightarrow> ProfileSettings list" where
  "profileSettingsForScaleset s c =
     map (\<lambda>p. \<lparr>psName = pfName p, psHotSize = HotSizeOrDefault p (poHotSize (cfPool c)),
        psWarmSize = WarmSizeOrDefault p (poWarmSize (cfPool c)),
        psMaxConcurrentRunners = effectiveMaxConcurrent (MaxConcurrentRunnersOrDefault p (seMaxConcurrentRunners s)),
        psBootMaxAttempts = BootMaxAttemptsOrDefault p (poBootMaxAttempts (cfPool c)),
        psVMMaxAge = durD (pfVMMaxAge p), psTemplateVMID = pfTemplateVMID p, psCPUCores = pfCPUCores p,
        psMemoryMB = pfMemoryMB p, psHasIPAM = True\<rparr>) (seProfiles s)"

definition schedule_entries :: "ScaleSetEntry \<Rightarrow> PoolConfigC \<Rightarrow> Entry list" where
  "schedule_entries s po =
     concat (map (\<lambda>p. map (\<lambda>sc. \<lparr>entryName = shName sc, entryProfile = pfName p, Cron = shCronSchedule sc,
        Duration = durD (shDuration sc), schedHot = shHotSize sc, schedWarm = shWarmSize sc,
        BaselineHot = HotSizeOrDefault p (poHotSize po), BaselineWarm = WarmSizeOrDefault p (poWarmSize po)\<rparr>)
        (pfSchedules p)) (seProfiles s))"

definition scheduleRunnerForScaleset :: "ScaleSetEntry \<Rightarrow> PoolConfigC \<Rightarrow> schedule_error + Entry list option" where
  "scheduleRunnerForScaleset s po =
     (if length (schedule_entries s po) = 0 then Inr None
      else case NewRunner (schedule_entries s po) of Inl e \<Rightarrow> Inl e | Inr r \<Rightarrow> Inr (Some r))"

definition affinityRulesFromConfig :: "Config \<Rightarrow> AffinityRule list" where
  "affinityRulesFromConfig c =
     map (\<lambda>r. \<lparr>matchProfile = afMatchProfile r, PreferNodes = afPreferNodes r, Require = afRequire r,
        AntiAffinityWith = afAntiProfile r\<rparr>) (ncAffinity (cfNodes c))"

definition affinityNodeUniverse :: "Config \<Rightarrow> string list" where
  "affinityNodeUniverse c = (if ncStrategy (cfNodes c) = ''single'' then [ncSingleNode (cfNodes c)] else ncMembers (cfNodes c))"

section \<open>Placement\<close>

text \<open>The three strategies as one selector: its state, and what the API answers when asked for loads.\<close>

datatype base_selector = SelSingle string | SelRoundRobin roundRobin | SelLeastLoaded leastLoaded

type_synonym load_env = "bool \<times> NodeStatus list option"

fun base_Select :: "(load_env, base_selector) sel" where
  "base_Select e (SelSingle s) h = (case single_Select () s h of (r, s') \<Rightarrow> (r, SelSingle s'))"
| "base_Select e (SelRoundRobin s) h = (case rr_Select () s h of (r, s') \<Rightarrow> (r, SelRoundRobin s'))"
| "base_Select e (SelLeastLoaded s) h = (case ll_Select e s h of (r, s') \<Rightarrow> (r, SelLeastLoaded s'))"

datatype app_error =
    AppSelector selector_error | AppUnknownStrategy string | AppUniverse
  | AppBuildClient | AppBuildREST | AppEnsure string | AppPool pool_error | AppRepoForm | AppSession | AppListener
  | AppReconciler gh_error | AppProvisioner string

definition buildUnderlyingSelector :: "Config \<Rightarrow> (NodeStatus \<Rightarrow> rat) \<Rightarrow> app_error + base_selector" where
  "buildUnderlyingSelector c load =
     (if ncStrategy (cfNodes c) = ''single'' then
        (case NewSingle (ncSingleNode (cfNodes c)) of Inl e \<Rightarrow> Inl (AppSelector e) | Inr s \<Rightarrow> Inr (SelSingle s))
      else if ncStrategy (cfNodes c) = ''round_robin'' then
        (case NewRoundRobin (ncMembers (cfNodes c)) of Inl e \<Rightarrow> Inl (AppSelector e) | Inr s \<Rightarrow> Inr (SelRoundRobin s))
      else if ncStrategy (cfNodes c) = ''least_loaded'' then
        Inr (SelLeastLoaded \<lparr>llLoad = load, llNodes = ncMembers (cfNodes c), llCache = None, llLastFresh = None\<rparr>)
      else Inl (AppUnknownStrategy (ncStrategy (cfNodes c))))"

datatype node_selector =
    NodePlain "(load_env, base_selector) sel"
  | NodeCapacity "(env \<times> load_env, Accountant \<times> base_selector) sel"

definition buildNodeSelector :: "Config \<Rightarrow> (NodeStatus \<Rightarrow> rat) \<Rightarrow> bool \<Rightarrow> app_error + (base_selector \<times> node_selector)" where
  "buildNodeSelector c load capacity =
     (case buildUnderlyingSelector c load of
        Inl e \<Rightarrow> Inl e
      | Inr st \<Rightarrow>
          (case (if length (ncAffinity (cfNodes c)) > 0
                 then NewAffinity base_Select (affinityRulesFromConfig c) (affinityNodeUniverse c)
                 else Inr base_Select) of
             Inl e \<Rightarrow> Inl (AppSelector e)
           | Inr sel \<Rightarrow>
               if \<not> capacity then Inr (st, NodePlain sel)
               else if length (affinityNodeUniverse c) = 0 then Inl AppUniverse
               else Inr (st, NodeCapacity (capacity_Select sel (affinityNodeUniverse c)))))"

text \<open>
  The shared accountant, when admission is on. The host reserve as a fraction and the CPU limit are
  floating-point settings and arrive as functions, as in the accountant's own theory.
\<close>

definition buildCapacityAccountant :: "Config \<Rightarrow> (int \<Rightarrow> int) \<Rightarrow> (int \<Rightarrow> int) \<Rightarrow> Accountant option" where
  "buildCapacityAccountant c fraction limit =
     (let cc = poCapacity (cfPool c); ttl = durD (poCloneInflightGrace (cfPool c)) in
      if \<not> ccEnabled cc then None
      else Some \<lparr>opts = \<lparr>Nodes = affinityNodeUniverse c, ReserveBytes = u64 (max (ccReserveMemoryMB cc) 0 * 1024 * 1024),
                         reserveFraction = fraction, cpuOvercommitSet = ccCPUOvercommitSet cc, overcommitLimit = limit,
                         ReservationTTL = (if ttl \<le> 0 then 5 * minute else ttl), OwnedVMIDs = ownedVMIDRanges c,
                         OwnerScaleSets = scalesetNames c\<rparr>,
                 cached = None, lastFresh = None, res = [], nextRes = 0\<rparr>)"

section \<open>Scale sets on GitHub and their labels\<close>

record gh_label =
  lbName :: string
  lbType :: string

record gh_stats =
  stAvailableJobs :: int
  stAcquiredJobs :: int
  stAssignedJobs :: int
  stRunningJobs :: int
  stRegisteredRunners :: int

record gh_scaleset =
  gssID :: int
  gssName :: string
  gssGroupID :: int
  gssLabels :: "gh_label list"
  gssStatistics :: "gh_stats option"

datatype gh_change =
    GhDeleteSet int
  | GhCreateSet string int "gh_label list"

text \<open>What is kept across attempts: the scale sets already recreated once, and the drift gauge.\<close>

record label_state =
  lsRecreated :: "string set"
  lsDrift :: "string \<rightharpoonup> int"

definition setLabelDrift :: "label_state \<Rightarrow> string \<Rightarrow> int \<Rightarrow> label_state" where
  "setLabelDrift st nm v = st\<lparr>lsDrift := (lsDrift st)(nm \<mapsto> v)\<rparr>"

definition sortedUnique :: "string list \<Rightarrow> string list" where
  "sortedUnique xs = remdups_adj (sort xs)"

definition labelNames :: "gh_label list \<Rightarrow> string list" where
  "labelNames ls = sortedUnique (map lbName ls)"

definition EqualFold :: "string \<Rightarrow> string \<Rightarrow> bool" where
  "EqualFold a b \<longleftrightarrow> map to_lower a = map to_lower b"

definition desiredLabelNames :: "ScaleSetEntry \<Rightarrow> gh_label list \<Rightarrow> string list" where
  "desiredLabelNames s existing =
     sortedUnique (seLabels s @ map lbName (filter (\<lambda>l. EqualFold (lbType l) ''System'') existing))"

definition labelsWithTypes :: "string list \<Rightarrow> gh_label list \<Rightarrow> gh_label list" where
  "labelsWithTypes wanted existing =
     (let types = map_of (rev (map (\<lambda>l. (lbName l, lbType l)) existing)) in
      map (\<lambda>n. \<lparr>lbName = n, lbType = (case types n of None \<Rightarrow> ''User'' | Some t \<Rightarrow> if t = '''' then ''User'' else t)\<rparr>) wanted)"

text \<open>The counters that are above zero; none means idle.\<close>

definition scaleSetWorkInFlight :: "gh_stats \<Rightarrow> (string \<times> int) list" where
  "scaleSetWorkInFlight s =
     filter (\<lambda>(_, n). n > 0)
       [(''available_jobs'', stAvailableJobs s), (''acquired_jobs'', stAcquiredJobs s), (''assigned_jobs'', stAssignedJobs s),
        (''running_jobs'', stRunningJobs s), (''registered_runners'', stRegisteredRunners s)]"

text \<open>GitHub's answers: the runner group by name, the lookup, whether a delete succeeds, and the created set.\<close>

record gh_replies =
  grpReply :: "string \<Rightarrow> int option"
  lookupReply :: "int \<Rightarrow> gh_scaleset option option"
  deleteReply :: bool
  createReply :: "string \<Rightarrow> int \<Rightarrow> gh_label list \<Rightarrow> gh_scaleset option"

type_synonym ensure_result = "((string + gh_scaleset) \<times> gh_change list) \<times> label_state"

definition recreateScaleSetForLabels ::
  "gh_replies \<Rightarrow> label_state \<Rightarrow> ScaleSetEntry \<Rightarrow> gh_scaleset \<Rightarrow> string list \<Rightarrow> int \<Rightarrow> ensure_result" where
  "recreateScaleSetForLabels g st s existing wanted groupID =
     (let keep = ((Inr existing, []), setLabelDrift st (seName s) 1) in
      case gssStatistics existing of
        None \<Rightarrow> keep
      | Some stats \<Rightarrow>
          if scaleSetWorkInFlight stats \<noteq> [] then keep
          else if seName s \<in> lsRecreated st then keep
          else if \<not> deleteReply g then ((Inr existing, [GhDeleteSet (gssID existing)]), setLabelDrift st (seName s) 1)
          else
            (let st1 = st\<lparr>lsRecreated := insert (seName s) (lsRecreated st)\<rparr>;
                 wire = labelsWithTypes wanted (gssLabels existing);
                 calls = [GhDeleteSet (gssID existing), GhCreateSet (seName s) groupID wire] in
             case createReply g (seName s) groupID wire of
               None \<Rightarrow> ((Inl ''recreate runner scale set'', calls), setLabelDrift st1 (seName s) 1)
             | Some created \<Rightarrow>
                 ((Inr created, calls), setLabelDrift st1 (seName s) (if labelNames (gssLabels created) = wanted then 0 else 1))))"

definition reconcileScaleSetLabels ::
  "gh_replies \<Rightarrow> label_state \<Rightarrow> ScaleSetEntry \<Rightarrow> gh_scaleset \<Rightarrow> int \<Rightarrow> ensure_result" where
  "reconcileScaleSetLabels g st s existing groupID =
     (let wanted = desiredLabelNames s (gssLabels existing); have = labelNames (gssLabels existing) in
      if length (seLabels s) = 0 \<or> wanted = have then ((Inr existing, []), setLabelDrift st (seName s) 0)
      else recreateScaleSetForLabels g st s existing wanted groupID)"

definition ensureScaleSetForEntry :: "gh_replies \<Rightarrow> label_state \<Rightarrow> ScaleSetEntry \<Rightarrow> ensure_result" where
  "ensureScaleSetForEntry g st s =
     (case (if seRunnerGroup s \<noteq> '''' then grpReply g (seRunnerGroup s) else Some 1) of
        None \<Rightarrow> ((Inl ''get runner group'', []), st)
      | Some groupID \<Rightarrow>
          (case lookupReply g groupID of
             None \<Rightarrow> ((Inl ''lookup runner scale set'', []), st)
           | Some (Some existing) \<Rightarrow> reconcileScaleSetLabels g st s existing groupID
           | Some None \<Rightarrow>
               (let wire = map (\<lambda>l. \<lparr>lbName = l, lbType = ''User''\<rparr>) (seLabels s) in
                case createReply g (seName s) groupID wire of
                  None \<Rightarrow> ((Inl ''create runner scale set'', [GhCreateSet (seName s) groupID wire]), st)
                | Some created \<Rightarrow> ((Inr created, [GhCreateSet (seName s) groupID wire]), setLabelDrift st (seName s) 0))))"

section \<open>Building a worker\<close>

definition vmPrefix_of :: "string \<Rightarrow> string" where
  "vmPrefix_of nm = ''gh-runner-'' @ nm @ ''-''"

definition init_provisioner :: "pve \<Rightarrow> Config \<Rightarrow> ScaleSetEntry \<Rightarrow> perr + pmox" where
  "init_provisioner api c s =
     pmox_New api (cfProxmox c) (seName s) (vmPrefix_of (seName s)) (durD (poCloneInflightGrace (cfPool c)))
       (durD (poVMIDReuseCooldown (cfPool c)) * 4)"

fun initScalesetStates :: "pve \<Rightarrow> Config \<Rightarrow> ScaleSetEntry list \<Rightarrow> app_error + (string \<times> pmox) list" where
  "initScalesetStates api c [] = Inr []"
| "initScalesetStates api c (s # ss) =
     (case init_provisioner api c s of
        Inl e \<Rightarrow> Inl (AppProvisioner (seName s))
      | Inr p \<Rightarrow> (case initScalesetStates api c ss of Inl e \<Rightarrow> Inl e | Inr ps \<Rightarrow> Inr ((seName s, p) # ps)))"

definition pool_config :: "Config \<Rightarrow> ScaleSetEntry \<Rightarrow> pmox \<Rightarrow> PoolConfig" where
  "pool_config c s p =
     (let r = entryVMIDRange s (pxVMIDRange (cfProxmox c)); po = cfPool c in
      \<lparr>HotSize = poHotSize po, WarmSize = poWarmSize po,
       MaxConcurrentRunners = effectiveMaxConcurrent (seMaxConcurrentRunners s), VMMaxAge = durD (poVMMaxAge po),
       BootMaxAttempts = poBootMaxAttempts po, Profiles = profileSettingsForScaleset s c,
       SnapshotRollbackMode = (poRecycleMode po = RecycleModeSnapshotRollback), VMNamePrefix = pmVMNamePrefix p,
       VMIDMin = vrMin r, VMIDMax = vrMax r, VMIDReuseCooldown = durD (poVMIDReuseCooldown po),
       LinkedClones = LinkedOrDefault (cfProxmox c), TemplateNode = pmTemplateNode p,
       EvictIdleForDemand = ccEvictIdleForDemand (poCapacity po), ConfigNodes = affinityNodeUniverse c,
       HasOrphanCallback = True\<rparr>)"

definition gh_config :: "Config \<Rightarrow> ScaleSetEntry \<Rightarrow> pmox \<Rightarrow> GhConfig" where
  "gh_config c s p =
     \<lparr>ghScope = \<lparr>scOrg = gsOrg (seScope s), scRepo = gsRepo (seScope s)\<rparr>, PollInterval = durD (gcPollInterval (cfGitHub c)),
      FailureBackoffMax = 0, AssignedGrace = durD (gcAssignedGrace (cfGitHub c)),
      RunningIdleGrace = durD (gcRunningIdleGrace (cfGitHub c)),
      AssignedOfflineGrace = durD (gcAssignedOfflineGrace (cfGitHub c)), OrphanGrace = durD (poOrphanGrace (cfPool c)),
      RunnerNamePrefix = pmVMNamePrefix p\<rparr>"

text \<open>The owner the message session is opened for: the organisation, or the part of the repository before the first slash.\<close>

definition session_owner :: "GitHubScope \<Rightarrow> string option" where
  "session_owner sc =
     (if gsOrg sc \<noteq> '''' then Some (gsOrg sc)
      else let o' = takeWhile (\<lambda>ch. ch \<noteq> CHR ''/'') (gsRepo sc) in
           if CHR ''/'' \<notin> set (gsRepo sc) \<or> o' = '''' then None else Some o')"

text \<open>
  What the outside answers while a worker is being built; \<open>beListener\<close> is the check that
  \<^verbatim>\<open>listener.New\<close> makes of the set's id and of its ceiling.
\<close>

record build_env =
  beClient :: bool
  beREST :: bool
  beGitHub :: gh_replies
  beOwned :: "poolVM list option"
  beRunners :: "(string \<rightharpoonup> RunnerInfo) option"
  bePower :: "int \<Rightarrow> string option"
  beNow :: time
  beSession :: "string \<Rightarrow> bool"
  beListener :: "int \<Rightarrow> int \<Rightarrow> bool"

record worker =
  wkSet :: gh_scaleset
  wkManager :: manager
  wkRouter :: "Router option"
  wkQuotas :: "Resolver option"
  wkPriority :: "Matcher option"
  wkReconciler :: Reconciler
  wkSchedules :: "Entry list option"

definition opt_of :: "'e + 'a \<Rightarrow> 'a option" where
  "opt_of r = (case r of Inl _ \<Rightarrow> None | Inr x \<Rightarrow> Some x)"

text \<open>
  \<^verbatim>\<open>runOneScaleset\<close> up to the point where its four loops are started: the failures that end the
  attempt, in the code's order, and the parts whose failure is only logged, which are then left out.
\<close>

definition build_loops ::
  "build_env \<Rightarrow> Config \<Rightarrow> ScaleSetEntry \<Rightarrow> pmox \<Rightarrow> gh_scaleset \<Rightarrow> manager \<Rightarrow> app_error + worker" where
  "build_loops e c s p rss m =
     (case session_owner (seScope s) of
        None \<Rightarrow> Inl AppRepoForm
      | Some owner \<Rightarrow>
          if \<not> beSession e owner then Inl AppSession
          else if \<not> beListener e (gssID rss) (effectiveMaxConcurrent (seMaxConcurrentRunners s)) then Inl AppListener
          else
            (case gh_New (gh_config c s p) False False False of
               Inl er \<Rightarrow> Inl (AppReconciler er)
             | Inr rec \<Rightarrow>
                 Inr \<lparr>wkSet = rss, wkManager = m, wkRouter = opt_of (routerForScaleset s),
                      wkQuotas = opt_of (quotasResolverFromConfig c), wkPriority = opt_of (priorityMatcherFromConfig c),
                      wkReconciler = rec,
                      wkSchedules = (case scheduleRunnerForScaleset s (cfPool c) of Inl _ \<Rightarrow> None | Inr r \<Rightarrow> r)\<rparr>))"

definition runOneScaleset ::
  "build_env \<Rightarrow> Config \<Rightarrow> Accountant option \<Rightarrow> ScaleSetEntry \<Rightarrow> pmox \<Rightarrow> label_state \<Rightarrow>
    ((app_error + worker) \<times> gh_change list) \<times> label_state" where
  "runOneScaleset e c acct s p ls =
     (if \<not> beClient e then ((Inl AppBuildClient, []), ls)
      else if \<not> beREST e then ((Inl AppBuildREST, []), ls)
      else case ensureScaleSetForEntry (beGitHub e) ls s of
             ((Inl er, calls), ls') \<Rightarrow> ((Inl (AppEnsure er), calls), ls')
           | ((Inr rss, calls), ls') \<Rightarrow>
               (case NewManager (pool_config c s p) [] acct (opt_of (canaryControllerForScaleset s (pxTemplateVMID (cfProxmox c)))) of
                  Inl er \<Rightarrow> ((Inl (AppPool er), calls), ls')
                | Inr m \<Rightarrow>
                    ((build_loops e c s p rss (snd (Adopt m (beNow e) (beOwned e) (bePower e) (beRunners e))), calls), ls')))"

section \<open>Supervision\<close>

text \<open>
  One attempt of a worker: it returned nil, an error (cancelled or not), or panicked, which the attempt
  turns into an error. With it come whether the context was done when it ended and whether it ended
  during the wait before the next attempt.
\<close>

datatype run_result = RunNil | RunErr bool | RunPanic

fun runScalesetAttempt :: "run_result \<Rightarrow> bool option" where
  "runScalesetAttempt RunNil = None"
| "runScalesetAttempt (RunErr cancelled) = Some cancelled"
| "runScalesetAttempt RunPanic = Some False"

definition runSwallowCancel :: "bool option \<Rightarrow> bool option" where
  "runSwallowCancel err = (case err of Some False \<Rightarrow> Some False | _ \<Rightarrow> None)"

definition scalesetRetryInitialBackoff :: duration where
  "scalesetRetryInitialBackoff = 1 * second"

definition scalesetRetryMaxBackoff :: duration where
  "scalesetRetryMaxBackoff = 30 * second"

text \<open>The waits between the attempts, and whether the supervisor has returned.\<close>

fun superviseScaleset :: "duration \<Rightarrow> duration \<Rightarrow> (run_result \<times> bool \<times> bool) list \<Rightarrow> duration list \<times> bool" where
  "superviseScaleset backoff maxBackoff [] = ([], False)"
| "superviseScaleset backoff maxBackoff ((r, done, doneWaiting) # rs) =
     (case runScalesetAttempt r of
        None \<Rightarrow> ([], True)
      | Some cancelled \<Rightarrow>
          if done \<or> cancelled then ([], True)
          else if doneWaiting then ([backoff], True)
          else (let next = (if backoff * 2 > maxBackoff then maxBackoff else backoff * 2) in
                case superviseScaleset next maxBackoff rs of (waits, ended) \<Rightarrow> (backoff # waits, ended)))"

definition mergeLeaderPlaneErr :: "'e option \<Rightarrow> 'e option \<Rightarrow> 'e option" where
  "mergeLeaderPlaneErr phase1Err leaderPlaneErr = (case phase1Err of Some e \<Rightarrow> Some e | None \<Rightarrow> leaderPlaneErr)"

section \<open>Addresses\<close>

definition splitHostPort :: "string \<Rightarrow> string \<times> string" where
  "splitHostPort addr = (if addr = '''' then ('''', '''') else case SplitHostPort addr of None \<Rightarrow> ('''', '''') | Some hp \<Rightarrow> hp)"

definition portFromAddr :: "string \<Rightarrow> string + int" where
  "portFromAddr addr =
     (if addr = '''' then Inr 0
      else case SplitHostPort addr of
             None \<Rightarrow> Inl ''split host:port''
           | Some (_, portStr) \<Rightarrow>
               (case Atoi portStr of
                  None \<Rightarrow> Inl ''parse port''
                | Some port \<Rightarrow> if port \<le> 0 \<or> port > 65535 then Inl ''port out of range'' else Inr port))"

section \<open>Label repair\<close>

lemma sortedUnique_set [simp]: "set (sortedUnique xs) = set xs"
  by (simp add: sortedUnique_def)

definition idle :: "gh_scaleset \<Rightarrow> bool" where
  "idle ss \<longleftrightarrow> (\<exists>st. gssStatistics ss = Some st \<and> stAvailableJobs st \<le> 0 \<and> stAcquiredJobs st \<le> 0 \<and>
     stAssignedJobs st \<le> 0 \<and> stRunningJobs st \<le> 0 \<and> stRegisteredRunners st \<le> 0)"

lemma no_work_idle: "gssStatistics ss = Some st \<Longrightarrow> scaleSetWorkInFlight st = [] \<Longrightarrow> idle ss"
  by (auto simp: idle_def scaleSetWorkInFlight_def split: if_splits)

text \<open>The scale set a call found, and what its labels should be.\<close>

definition found_set :: "gh_replies \<Rightarrow> ScaleSetEntry \<Rightarrow> gh_scaleset option" where
  "found_set g s =
     (case (if seRunnerGroup s \<noteq> '''' then grpReply g (seRunnerGroup s) else Some 1) of
        None \<Rightarrow> None
      | Some groupID \<Rightarrow> (case lookupReply g groupID of Some (Some ex) \<Rightarrow> Some ex | _ \<Rightarrow> None))"

text \<open>A deletion is issued only against an idle set whose labels differ, and not twice.\<close>

lemma delete_guarded:
  assumes "GhDeleteSet i \<in> set (snd (fst (ensureScaleSetForEntry g st s)))"
  shows "\<exists>ex. found_set g s = Some ex \<and> i = gssID ex \<and> idle ex \<and> seLabels s \<noteq> [] \<and>
     desiredLabelNames s (gssLabels ex) \<noteq> labelNames (gssLabels ex) \<and> seName s \<notin> lsRecreated st"
proof -
  obtain groupID ex where ex: "(if seRunnerGroup s \<noteq> '''' then grpReply g (seRunnerGroup s) else Some 1) = Some groupID"
    "lookupReply g groupID = Some (Some ex)"
    and del: "GhDeleteSet i \<in> set (snd (fst (reconcileScaleSetLabels g st s ex groupID)))"
    using assms by (auto simp: ensureScaleSetForEntry_def Let_def split: option.splits if_splits)
  have "seLabels s \<noteq> [] \<and> desiredLabelNames s (gssLabels ex) \<noteq> labelNames (gssLabels ex)"
    and rec: "GhDeleteSet i \<in> set (snd (fst (recreateScaleSetForLabels g st s ex (desiredLabelNames s (gssLabels ex)) groupID)))"
    using del by (auto simp: reconcileScaleSetLabels_def Let_def split: if_splits)
  moreover obtain stats where "gssStatistics ex = Some stats" "scaleSetWorkInFlight stats = []" "seName s \<notin> lsRecreated st" "i = gssID ex"
    using rec by (auto simp: recreateScaleSetForLabels_def Let_def split: option.splits if_splits)
  moreover have "found_set g s = Some ex" using ex by (simp add: found_set_def)
  ultimately show ?thesis using no_work_idle by blast
qed

definition destroys :: "gh_replies \<Rightarrow> label_state \<Rightarrow> ScaleSetEntry \<Rightarrow> bool" where
  "destroys g st s \<longleftrightarrow> deleteReply g \<and> (\<exists>i. GhDeleteSet i \<in> set (snd (fst (ensureScaleSetForEntry g st s))))"

lemma drift_recreated [simp]: "lsRecreated (setLabelDrift st nm v) = lsRecreated st"
  by (simp add: setLabelDrift_def)

definition deletes :: "ensure_result \<Rightarrow> bool" where
  "deletes r \<longleftrightarrow> (\<exists>i. GhDeleteSet i \<in> set (snd (fst r)))"

lemma recreate_recreated:
  "lsRecreated (snd (recreateScaleSetForLabels g st s ex w gid)) =
     (if deleteReply g \<and> deletes (recreateScaleSetForLabels g st s ex w gid)
      then insert (seName s) (lsRecreated st) else lsRecreated st)"
  by (cases "gssStatistics ex"; cases "createReply g (seName s) gid (labelsWithTypes w (gssLabels ex))")
    (auto simp: recreateScaleSetForLabels_def Let_def deletes_def)

lemma recreate_calls:
  assumes "deleteReply g" "deletes (recreateScaleSetForLabels g st s ex w gid)"
  shows "snd (fst (recreateScaleSetForLabels g st s ex w gid)) =
     [GhDeleteSet (gssID ex), GhCreateSet (seName s) gid (labelsWithTypes w (gssLabels ex))]"
  using assms
  by (cases "gssStatistics ex"; cases "createReply g (seName s) gid (labelsWithTypes w (gssLabels ex))")
    (auto simp: recreateScaleSetForLabels_def Let_def deletes_def split: if_splits)

lemma ensure_cases:
  obtains (kept) "\<not> deletes (ensureScaleSetForEntry g st s)" "lsRecreated (snd (ensureScaleSetForEntry g st s)) = lsRecreated st"
  | (recreate) ex gid where "found_set g s = Some ex"
      "ensureScaleSetForEntry g st s = recreateScaleSetForLabels g st s ex (desiredLabelNames s (gssLabels ex)) gid"
proof (cases "(if seRunnerGroup s \<noteq> '''' then grpReply g (seRunnerGroup s) else Some 1)")
  case None
  then show ?thesis using kept by (simp add: ensureScaleSetForEntry_def deletes_def)
next
  case (Some gid)
  show ?thesis
  proof (cases "lookupReply g gid")
    case None
    then show ?thesis using kept Some by (simp add: ensureScaleSetForEntry_def deletes_def)
  next
    case (Some l)
    note gid = \<open>(if seRunnerGroup s \<noteq> '''' then grpReply g (seRunnerGroup s) else Some 1) = Some gid\<close>
    show ?thesis
    proof (cases l)
      case None
      then show ?thesis
        using gid Some by (intro kept) (simp_all add: ensureScaleSetForEntry_def deletes_def Let_def split: option.split)
    next
      case (Some ex)
      have ens: "ensureScaleSetForEntry g st s = reconcileScaleSetLabels g st s ex gid" "found_set g s = Some ex"
        using gid \<open>lookupReply g gid = Some l\<close> Some by (simp_all add: ensureScaleSetForEntry_def found_set_def)
      then show ?thesis
        using kept recreate [of ex gid] by (auto simp: reconcileScaleSetLabels_def Let_def deletes_def split: if_splits)
    qed
  qed
qed

lemma destroys_deletes: "destroys g st s \<longleftrightarrow> deleteReply g \<and> deletes (ensureScaleSetForEntry g st s)"
  by (simp add: destroys_def deletes_def)

lemma ensure_recreated:
  "lsRecreated (snd (ensureScaleSetForEntry g st s)) =
     (if destroys g st s then insert (seName s) (lsRecreated st) else lsRecreated st)"
  by (rule ensure_cases [of g st s]) (simp_all add: destroys_deletes recreate_recreated)

text \<open>A destroyed set is recreated at once, with the wanted labels, or the attempt fails.\<close>

lemma destroy_then_create:
  assumes "destroys g st s"
  obtains ex gid where "found_set g s = Some ex" "snd (fst (ensureScaleSetForEntry g st s)) =
     [GhDeleteSet (gssID ex), GhCreateSet (seName s) gid (labelsWithTypes (desiredLabelNames s (gssLabels ex)) (gssLabels ex))]"
proof (cases rule: ensure_cases [of g st s])
  case kept
  then show ?thesis using assms by (simp add: destroys_deletes)
next
  case (recreate ex gid)
  then show ?thesis using assms that recreate_calls by (simp add: destroys_deletes)
qed

text \<open>
  The attempts of one process, in order: for every deletion that GitHub carried out, the entry's name,
  the id that was passed to \<^verbatim>\<open>DeleteRunnerScaleSet\<close>, and the set that GitHub had reported to that attempt.
\<close>

fun deleted_id :: "gh_change \<Rightarrow> int option" where
  "deleted_id (GhDeleteSet i) = Some i"
| "deleted_id _ = None"

definition attempt_deletions :: "gh_replies \<Rightarrow> label_state \<Rightarrow> ScaleSetEntry \<Rightarrow> (string \<times> int \<times> gh_scaleset option) list" where
  "attempt_deletions g st s =
     (if deleteReply g then map (\<lambda>i. (seName s, i, found_set g s)) (List.map_filter deleted_id (snd (fst (ensureScaleSetForEntry g st s))))
      else [])"

fun deletions :: "label_state \<Rightarrow> (gh_replies \<times> ScaleSetEntry) list \<Rightarrow> (string \<times> int \<times> gh_scaleset option) list" where
  "deletions st [] = []"
| "deletions st ((g, s) # hist) = attempt_deletions g st s @ deletions (snd (ensureScaleSetForEntry g st s)) hist"

lemma deleted_id_Some [simp]: "deleted_id c = Some i \<longleftrightarrow> c = GhDeleteSet i"
  by (cases c) auto

lemma attempt_spares:
  assumes "\<not> destroys g st s"
  shows "attempt_deletions g st s = []"
proof -
  have "deleteReply g \<Longrightarrow> List.map_filter deleted_id (snd (fst (ensureScaleSetForEntry g st s))) = []"
    using assms by (auto simp: destroys_def map_filter_def filter_empty_conv)
  then show ?thesis by (auto simp: attempt_deletions_def)
qed

lemma attempt_destroys:
  assumes "destroys g st s" "found_set g s = Some ex"
  shows "attempt_deletions g st s = [(seName s, gssID ex, Some ex)]"
proof -
  obtain ex' gid where "found_set g s = Some ex'" "snd (fst (ensureScaleSetForEntry g st s)) =
     [GhDeleteSet (gssID ex'), GhCreateSet (seName s) gid (labelsWithTypes (desiredLabelNames s (gssLabels ex')) (gssLabels ex'))]"
    using assms(1) by (rule destroy_then_create)
  then show ?thesis using assms by (simp add: attempt_deletions_def destroys_def map_filter_simps)
qed

lemma attempt_cases:
  obtains (none) "\<not> destroys g st s" "attempt_deletions g st s = []"
  | (one) ex where "destroys g st s" "found_set g s = Some ex" "attempt_deletions g st s = [(seName s, gssID ex, Some ex)]"
      "idle ex" "seLabels s \<noteq> []" "seName s \<notin> lsRecreated st"
proof (cases "destroys g st s")
  case False
  then show ?thesis using none attempt_spares by blast
next
  case True
  then obtain ex gid where ex: "found_set g s = Some ex" "snd (fst (ensureScaleSetForEntry g st s)) =
     [GhDeleteSet (gssID ex), GhCreateSet (seName s) gid (labelsWithTypes (desiredLabelNames s (gssLabels ex)) (gssLabels ex))]"
    by (rule destroy_then_create)
  then have "idle ex \<and> seLabels s \<noteq> [] \<and> seName s \<notin> lsRecreated st" using delete_guarded [of "gssID ex" g st s] by auto
  then show ?thesis using one [OF True ex(1) attempt_destroys [OF True ex(1)]] by blast
qed

lemma deletions_fresh: "fst ` set (deletions st hist) \<inter> lsRecreated st = {} \<and> distinct (map fst (deletions st hist))"
proof (induction hist arbitrary: st)
  case (Cons a hist)
  obtain g s where a: "a = (g, s)" by (cases a)
  show ?case using Cons.IH [of "snd (ensureScaleSetForEntry g st s)"]
    by (cases rule: attempt_cases [of g st s]) (auto simp: a ensure_recreated)
qed simp

lemma deletions_idle: "(nm, i, exo) \<in> set (deletions st hist) \<Longrightarrow>
   (\<exists>ex. exo = Some ex \<and> i = gssID ex \<and> idle ex) \<and> (\<exists>g s. (g, s) \<in> set hist \<and> seName s = nm \<and> seLabels s \<noteq> [] \<and> found_set g s = exo)"
proof (induction hist arbitrary: st)
  case (Cons a hist)
  obtain g s where a: "a = (g, s)" by (cases a)
  show ?case
  proof (cases "(nm, i, exo) \<in> set (attempt_deletions g st s)")
    case True
    then show ?thesis by (cases rule: attempt_cases [of g st s]) (auto simp: a)
  next
    case False
    then have "(nm, i, exo) \<in> set (deletions (snd (ensureScaleSetForEntry g st s)) hist)" using Cons.prems by (simp add: a)
    from Cons.IH [OF this] show ?thesis by auto
  qed
qed simp

text \<open>
  C5. Repairing labels never costs a job: over all the attempts of a process a scale set is deleted on
  GitHub at most once per entry, the id that is deleted is that of the set which the same attempt
  looked up for the entry, and GitHub reported no job and no runner on that set; only an entry that
  configures labels has its set deleted.\<close>

theorem labels_recreated_once_idle:
  "distinct (map fst (deletions st hist)) \<and>
   (\<forall>(nm, i, exo) \<in> set (deletions st hist).
      nm \<notin> lsRecreated st \<and> (\<exists>ex. exo = Some ex \<and> i = gssID ex \<and> idle ex) \<and>
      (\<exists>g s. (g, s) \<in> set hist \<and> seName s = nm \<and> seLabels s \<noteq> [] \<and> found_set g s = exo))"
proof (intro conjI ballI)
  show "distinct (map fst (deletions st hist))" using deletions_fresh by blast
  fix x assume x: "x \<in> set (deletions st hist)"
  obtain nm i exo where nm: "x = (nm, i, exo)" by (cases x)
  have "nm \<notin> lsRecreated st" using deletions_fresh [of st hist] x nm by force
  then show "case x of (nm, i, exo) \<Rightarrow> nm \<notin> lsRecreated st \<and> (\<exists>ex. exo = Some ex \<and> i = gssID ex \<and> idle ex) \<and>
      (\<exists>g s. (g, s) \<in> set hist \<and> seName s = nm \<and> seLabels s \<noteq> [] \<and> found_set g s = exo)"
    using deletions_idle [of nm i exo st hist] x nm by auto
qed

definition ex_scope :: "string \<Rightarrow> GitHubScope" where
  "ex_scope o' = \<lparr>gsOrg = o', gsRepo = ''''\<rparr>"

definition ex_entry :: "string \<Rightarrow> ScaleSetEntry" where
  "ex_entry nm = \<lparr>seName = nm, seLabels = [''linux'', ''gpu''], seRunnerGroup = '''', seMaxConcurrentRunners = 4,
     seScope = ex_scope nm, seProfiles = [], seVMIDRange = None\<rparr>"

definition ex_set :: gh_scaleset where
  "ex_set = \<lparr>gssID = 7, gssName = ''ci'', gssGroupID = 1, gssLabels = [\<lparr>lbName = ''linux'', lbType = ''User''\<rparr>],
     gssStatistics = Some \<lparr>stAvailableJobs = 0, stAcquiredJobs = 0, stAssignedJobs = 0, stRunningJobs = 0, stRegisteredRunners = 0\<rparr>\<rparr>"

definition ex_replies :: gh_replies where
  "ex_replies = \<lparr>grpReply = (\<lambda>_. None), lookupReply = (\<lambda>_. Some (Some ex_set)), deleteReply = True,
     createReply = (\<lambda>nm gid ls. Some ex_set)\<rparr>"

theorem labels_recreated_once_idle_witness:
  "deletions \<lparr>lsRecreated = {}, lsDrift = Map.empty\<rparr> [(ex_replies, ex_entry ''ci''), (ex_replies, ex_entry ''ci'')] =
     [(''ci'', 7, Some ex_set)] \<and> idle ex_set"
proof -
  let ?st = "\<lparr>lsRecreated = {}, lsDrift = Map.empty\<rparr>"
  let ?h = "[(ex_replies, ex_entry ''ci''), (ex_replies, ex_entry ''ci'')]"
  have f: "found_set ex_replies (ex_entry ''ci'') = Some ex_set" by (simp add: found_set_def ex_replies_def ex_entry_def)
  have "desiredLabelNames (ex_entry ''ci'') (gssLabels ex_set) \<noteq> labelNames (gssLabels ex_set)" by code_simp
  then have "destroys ex_replies ?st (ex_entry ''ci'')"
    by (simp add: destroys_def ensureScaleSetForEntry_def ex_replies_def reconcileScaleSetLabels_def recreateScaleSetForLabels_def
        ex_set_def scaleSetWorkInFlight_def ex_entry_def)
  moreover from this have "\<not> destroys ex_replies (snd (ensureScaleSetForEntry ex_replies ?st (ex_entry ''ci''))) (ex_entry ''ci'')"
    using delete_guarded [of _ ex_replies "snd (ensureScaleSetForEntry ex_replies ?st (ex_entry ''ci''))" "ex_entry ''ci''"]
    by (auto simp: destroys_def ensure_recreated)
  ultimately have "attempt_deletions ex_replies ?st (ex_entry ''ci'') = [(''ci'', 7, Some ex_set)]"
    "attempt_deletions ex_replies (snd (ensureScaleSetForEntry ex_replies ?st (ex_entry ''ci''))) (ex_entry ''ci'') = []"
    using attempt_destroys [OF _ f] attempt_spares by (simp_all add: ex_entry_def ex_set_def)
  then have d: "deletions ?st ?h = [(''ci'', 7, Some ex_set)]" by simp
  then show ?thesis using labels_recreated_once_idle [of ?st ?h] by simp
qed

section \<open>Restarts\<close>

definition failing :: "run_result \<times> bool \<times> bool \<Rightarrow> bool" where
  "failing a = (case a of (r, done, doneWaiting) \<Rightarrow> runScalesetAttempt r = Some False \<and> \<not> done \<and> \<not> doneWaiting)"

text \<open>
  C7. A worker that keeps failing is restarted for as long as its context lives: after every failure or
  panic another attempt is made, after waits that double from the first up to the longest and never
  exceed it.\<close>

theorem supervise_retries:
  assumes "list_all failing rs" "0 < b" "b \<le> mx"
  shows "superviseScaleset b mx rs = (map (\<lambda>k. min mx (b * 2 ^ k)) [0..<length rs], False)"
  using assms
proof (induction rs arbitrary: b)
  case (Cons a rs)
  obtain r d w where a: "a = (r, d, w)" by (cases a)
  define b' where "b' = (if b * 2 > mx then mx else b * 2)"
  have IH: "superviseScaleset b' mx rs = (map (\<lambda>k. min mx (b' * 2 ^ k)) [0..<length rs], False)"
    using Cons by (intro Cons.IH) (auto simp: b'_def)
  have "min mx (b' * 2 ^ k) = min mx (b * 2 ^ Suc k)" for k
  proof (cases "b * 2 > mx")
    case True
    have "(1 :: int) \<le> 2 ^ k" by simp
    then have "mx \<le> mx * 2 ^ k" "b * 2 \<le> b * 2 * 2 ^ k" using Cons.prems(2,3) by (simp_all add: mult_le_cancel_left1)
    then show ?thesis using True by (simp add: b'_def mult.assoc)
  qed (simp add: b'_def)
  moreover have "[0..<length (a # rs)] = 0 # map Suc [0..<length rs]"
    by (simp add: map_Suc_upt upt_conv_Cons del: upt_Suc)
  ultimately show ?case using Cons.prems IH
    by (simp add: a failing_def Let_def b'_def [symmetric] comp_def del: upt_Suc)
qed simp

theorem supervise_retries_witness:
  "superviseScaleset scalesetRetryInitialBackoff scalesetRetryMaxBackoff
     [(RunErr False, False, False), (RunPanic, False, False), (RunErr False, False, False)] =
     ([1 * second, 2 * second, 4 * second], False)"
  using supervise_retries [of "[(RunErr False, False, False), (RunPanic, False, False), (RunErr False, False, False)]"
      scalesetRetryInitialBackoff scalesetRetryMaxBackoff]
  by (simp add: failing_def scalesetRetryInitialBackoff_def scalesetRetryMaxBackoff_def upt_rec)

section \<open>Accepted configurations start\<close>

text \<open>
  What the struct tags, checked by the validator library, promise of the pool's sizes and the placement
  strategy.
\<close>

definition tags_hold :: "Config \<Rightarrow> bool" where
  "tags_hold c \<longleftrightarrow> 0 \<le> poHotSize (cfPool c) \<and> 0 \<le> poWarmSize (cfPool c) \<and>
     ncStrategy (cfNodes c) \<in> {''single'', ''round_robin'', ''least_loaded''}"

text \<open>
  What no check asks of a scale set and its profiles: sizes that are not negative, not an explicit zero
  over a pool-wide size that is not, and, where there is no static cap, within the pool's largest one;
  and a cap within what the listener can carry.
\<close>

definition plain_sizes :: "Config \<Rightarrow> ScaleSetEntry \<Rightarrow> bool" where
  "plain_sizes c s \<longleftrightarrow> poHotSize (cfPool c) + poWarmSize (cfPool c) \<le> Unlimited \<and> seMaxConcurrentRunners s \<le> Unlimited \<and>
     (\<forall>p \<in> set (seProfiles s).
        let h = HotSizeOrDefault p (poHotSize (cfPool c)); w = WarmSizeOrDefault p (poWarmSize (cfPool c)) in
        0 \<le> h \<and> 0 \<le> w \<and> (h = 0 \<longrightarrow> poHotSize (cfPool c) = 0) \<and> (w = 0 \<longrightarrow> poWarmSize (cfPool c) = 0) \<and> h + w \<le> Unlimited)"

lemma effective_cap: "effectiveMaxConcurrent n > 0" "n > 0 \<Longrightarrow> effectiveMaxConcurrent n = n" "n \<le> 0 \<Longrightarrow> effectiveMaxConcurrent n = Unlimited"
  by (simp_all add: effectiveMaxConcurrent_def Unlimited_def)

lemma check_profiles_None: "check_profiles ps = None \<longleftrightarrow>
   (\<forall>p \<in> set ps. psName p \<noteq> '''' \<and> validateConfig (psHotSize p) (psWarmSize p) (psMaxConcurrentRunners p) = None)"
  by (induction ps) (auto split: option.splits)

lemma cap_nonzero: "effectiveMaxConcurrent n \<noteq> 0"
  using effective_cap(1) [of n] by simp

lemma normalised_member:
  assumes "q \<in> set (normaliseProfiles (pool_config c s p))" "seProfiles s \<noteq> []"
  obtains pf where "pf \<in> set (seProfiles s)" "psName q = pfName pf"
    "psHotSize q = (if HotSizeOrDefault pf (poHotSize (cfPool c)) = 0 then poHotSize (cfPool c) else HotSizeOrDefault pf (poHotSize (cfPool c)))"
    "psWarmSize q = (if WarmSizeOrDefault pf (poWarmSize (cfPool c)) = 0 then poWarmSize (cfPool c) else WarmSizeOrDefault pf (poWarmSize (cfPool c)))"
    "psMaxConcurrentRunners q = effectiveMaxConcurrent (MaxConcurrentRunnersOrDefault pf (seMaxConcurrentRunners s))"
proof -
  have P: "Profiles (pool_config c s p) = profileSettingsForScaleset s c" "HotSize (pool_config c s p) = poHotSize (cfPool c)"
    "WarmSize (pool_config c s p) = poWarmSize (cfPool c)"
    by (simp_all add: pool_config_def Let_def)
  have "length (profileSettingsForScaleset s c) \<noteq> 0" using assms(2) by (simp add: profileSettingsForScaleset_def)
  then obtain pf where pf: "pf \<in> set (seProfiles s)" and q: "q = (\<lambda>p'. p'\<lparr>psHotSize := (if psHotSize p' = 0 then poHotSize (cfPool c) else psHotSize p'),
                  psWarmSize := (if psWarmSize p' = 0 then poWarmSize (cfPool c) else psWarmSize p'),
                  psMaxConcurrentRunners :=
                    (if psMaxConcurrentRunners p' = 0 then MaxConcurrentRunners (pool_config c s p) else psMaxConcurrentRunners p'),
                  psBootMaxAttempts := (if psBootMaxAttempts p' = 0 then BootMaxAttempts (pool_config c s p) else psBootMaxAttempts p'),
                  psVMMaxAge := (if psVMMaxAge p' = 0 then VMMaxAge (pool_config c s p) else psVMMaxAge p')\<rparr>)
        \<lparr>psName = pfName pf, psHotSize = HotSizeOrDefault pf (poHotSize (cfPool c)),
        psWarmSize = WarmSizeOrDefault pf (poWarmSize (cfPool c)),
        psMaxConcurrentRunners = effectiveMaxConcurrent (MaxConcurrentRunnersOrDefault pf (seMaxConcurrentRunners s)),
        psBootMaxAttempts = BootMaxAttemptsOrDefault pf (poBootMaxAttempts (cfPool c)),
        psVMMaxAge = durD (pfVMMaxAge pf), psTemplateVMID = pfTemplateVMID pf, psCPUCores = pfCPUCores pf,
        psMemoryMB = pfMemoryMB pf, psHasIPAM = True\<rparr>"
    using assms(1) unfolding normaliseProfiles_def P by (auto simp: profileSettingsForScaleset_def)
  show thesis by (rule that [OF pf]) (simp_all add: q cap_nonzero)
qed

lemma settings_accepted:
  assumes "validateProfiles c = None" "s \<in> set (cfScalesets c)" "plain_sizes c s"
  shows "check_profiles (normaliseProfiles (pool_config c s p)) = None"
proof -
  have "validateConfig (psHotSize q) (psWarmSize q) (psMaxConcurrentRunners q) = None \<and> psName q \<noteq> ''''"
    if q: "q \<in> set (normaliseProfiles (pool_config c s p))" for q
  proof -
    obtain pf where pf: "pf \<in> set (seProfiles s)" and nm: "psName q = pfName pf"
      and h: "psHotSize q = (if HotSizeOrDefault pf (poHotSize (cfPool c)) = 0 then poHotSize (cfPool c) else HotSizeOrDefault pf (poHotSize (cfPool c)))"
      and w: "psWarmSize q = (if WarmSizeOrDefault pf (poWarmSize (cfPool c)) = 0 then poWarmSize (cfPool c) else WarmSizeOrDefault pf (poWarmSize (cfPool c)))"
      and mx: "psMaxConcurrentRunners q = effectiveMaxConcurrent (MaxConcurrentRunnersOrDefault pf (seMaxConcurrentRunners s))"
      by (rule normalised_member [OF q accepted_profiles(1) [OF assms(1,2)]])
    obtain si k where ok: "check_profile c si s k pf = None" and re: "profileNameRE (pfName pf)"
      using accepted_profiles(3) [OF assms(1,2)] pf by blast
    have sizes: "psHotSize q = HotSizeOrDefault pf (poHotSize (cfPool c))" "psWarmSize q = WarmSizeOrDefault pf (poWarmSize (cfPool c))"
      "0 \<le> psHotSize q" "0 \<le> psWarmSize q" "psHotSize q + psWarmSize q \<le> Unlimited"
      using assms(3) pf h w by (auto simp: plain_sizes_def Let_def)
    have "psHotSize q + psWarmSize q \<le> psMaxConcurrentRunners q"
    proof (cases "MaxConcurrentRunnersOrDefault pf (seMaxConcurrentRunners s) > 0")
      case True
      then show ?thesis using check_profile_None(3) [OF ok] mx sizes effective_cap(2) by simp
    next
      case False
      then show ?thesis using mx sizes effective_cap(3) by simp
    qed
    then show ?thesis
      using sizes mx effective_cap(1) [of "MaxConcurrentRunnersOrDefault pf (seMaxConcurrentRunners s)"] nm re
      by (auto simp: validateConfig_def profileNameRE_def)
  qed
  then show ?thesis by (simp add: check_profiles_None)
qed

lemma manager_builds:
  assumes "validateScalesets c = None" "validateProfiles c = None" "s \<in> set (cfScalesets c)" "plain_sizes c s" "tags_hold c"
    and "affinityNodeUniverse c \<noteq> []"
  shows "\<exists>m. NewManager (pool_config c s p) st acct can = Inr m"
proof -
  have "entries_ok c s" using accepted_distinct(4) [OF assms(1)] assms(3) by blast
  then have "validateConfig (poHotSize (cfPool c)) (poWarmSize (cfPool c)) (effectiveMaxConcurrent (seMaxConcurrentRunners s)) = None"
    using assms(4,5) effective_cap(1) [of "seMaxConcurrentRunners s"]
    by (cases "seMaxConcurrentRunners s > 0") (auto simp: validateConfig_def plain_sizes_def tags_hold_def effective_cap)
  moreover have "check_profiles (normaliseProfiles (pool_config c s p)) = None" by (rule settings_accepted [OF assms(2-4)])
  moreover have "ConfigNodes (pool_config c s p) \<noteq> []" using assms(6) by (simp add: pool_config_def Let_def)
  ultimately show ?thesis by (simp add: NewManager_def pool_config_def Let_def)
qed

lemma universe_nonempty:
  assumes "resolveNodeSelector c = None" "tags_hold c"
  shows "affinityNodeUniverse c \<noteq> []"
  using assms by (auto simp: resolveNodeSelector_def Let_def tags_hold_def affinityNodeUniverse_def split: if_splits)

definition scope_of :: "ScaleSetEntry \<Rightarrow> GhScope" where
  "scope_of s = \<lparr>scOrg = gsOrg (seScope s), scRepo = gsRepo (seScope s)\<rparr>"

lemma Split_on_two:
  assumes "length (Split_on sep s) = 2"
  shows "sep \<in> set s" "takeWhile (\<lambda>ch. ch \<noteq> sep) s = Split_on sep s ! 0"
proof -
  show sep: "sep \<in> set s"
  proof (rule ccontr)
    assume "sep \<notin> set s"
    then have "Split_on sep s = [s]" by (rule Split_on_last)
    then show False using assms by simp
  qed
  define a where "a = takeWhile (\<lambda>ch. ch \<noteq> sep) s"
  have "dropWhile (\<lambda>ch. ch \<noteq> sep) s \<noteq> []" using sep by simp
  then obtain b where b: "dropWhile (\<lambda>ch. ch \<noteq> sep) s = sep # b"
    using hd_dropWhile [of "\<lambda>ch. ch \<noteq> sep" s] by (cases "dropWhile (\<lambda>ch. ch \<noteq> sep) s") auto
  have "s = a @ sep # b" using takeWhile_dropWhile_id [of "\<lambda>ch. ch \<noteq> sep" s] b by (simp add: a_def)
  moreover have "sep \<notin> set a" by (auto simp: a_def dest: set_takeWhileD)
  ultimately have "Split_on sep s = a # Split_on sep b" using Split_on_append by blast
  then show "takeWhile (\<lambda>ch. ch \<noteq> sep) s = Split_on sep s ! 0" by (simp add: a_def)
qed

lemma owner_known:
  assumes "Scope_Validate (scope_of s) = None"
  shows "\<exists>o'. session_owner (seScope s) = Some o'"
  using assms Split_on_two [of "CHR ''/''" "gsRepo (seScope s)"]
  by (auto simp: Scope_Validate_def scope_of_def session_owner_def Let_def split: if_splits)

lemma reconciler_builds:
  assumes "resolvePool c = None" "Scope_Validate (scope_of s) = None" "pmVMNamePrefix p \<noteq> ''''"
  shows "\<exists>r. gh_New (gh_config c s p) False False False = Inr r"
  using assms unfolding resolvePool_def Let_def checks_None
  by (simp add: gh_New_def GhConfig_Validate_def gh_config_def scope_of_def)

lemma router_builds:
  assumes "distinct (map routerName ps)" "\<forall>q \<in> set ps. routerName q \<noteq> ''''"
  shows "router_New ps \<noteq> Inl er"
proof -
  have "routerName ` set ps \<inter> seen = {} \<Longrightarrow> router_build i seen acc ps \<noteq> Inl er" for i seen acc er
    using assms by (induction ps arbitrary: i seen acc) auto
  from this [of "{}"] show ?thesis by (auto simp: router_New_def split: sum.splits)
qed

lemma check_classes_sound:
  "check_classes i seen cls = None \<Longrightarrow>
     distinct (map pcName cls) \<and> pcName ` set cls \<inter> seen = {} \<and> (\<forall>cl \<in> set cls. pcName cl \<noteq> '''')"
proof (induction cls arbitrary: i seen)
  case (Cons cl cls)
  have "check_classes (Suc i) (insert (pcName cl) seen) cls = None" "pcName cl \<noteq> ''''" "pcName cl \<notin> seen"
    using Cons.prems by (auto split: if_splits)
  with Cons.IH [OF this(1)] show ?case by auto
qed simp

lemma matcher_builds:
  assumes "distinct (map className cls)" "\<forall>q \<in> set cls. className q \<noteq> ''''"
  shows "matcher_New cls \<noteq> Inl er"
proof -
  have "className ` set cls \<inter> seen = {} \<Longrightarrow> matcher_build i seen acc cls \<noteq> Inl er" for i seen acc er
    using assms by (induction cls arbitrary: i seen acc) auto
  from this [of "{}"] show ?thesis by (auto simp: matcher_New_def split: sum.splits)
qed

lemma accepted_router:
  assumes "validateProfiles c = None" "s \<in> set (cfScalesets c)"
  shows "opt_of (routerForScaleset s) \<noteq> None"
proof -
  have "routerForScaleset s \<noteq> Inl er" for er
    unfolding routerForScaleset_def using accepted_profiles(2,3) [OF assms]
    by (intro router_builds) (auto simp: comp_def profileNameRE_def)
  then show ?thesis by (cases "routerForScaleset s") (auto simp: opt_of_def)
qed

lemma accepted_matcher:
  assumes "validatePriority c = None"
  shows "opt_of (priorityMatcherFromConfig c) \<noteq> None"
proof -
  have "priorityMatcherFromConfig c \<noteq> Inl er" for er
    unfolding priorityMatcherFromConfig_def using check_classes_sound [OF assms [unfolded validatePriority_def]]
    by (intro matcher_builds) (auto simp: comp_def)
  then show ?thesis by (cases "priorityMatcherFromConfig c") (auto simp: opt_of_def)
qed

lemma accepted_resolved:
  assumes "loadInto e c0 = Inr c"
  shows "resolvePool c = None" "resolveNodeSelector c = None"
  using Resolve_fields [OF loadInto_Inr(1) [OF assms]] by (simp_all add: resolvePool_def resolveNodeSelector_def)

text \<open>
  The outside lets a worker be built: clients, scale set and session are there, and the listener takes
  every ceiling it documents, up to the largest 32-bit integer.
\<close>

definition outside_ok :: "build_env \<Rightarrow> label_state \<Rightarrow> ScaleSetEntry \<Rightarrow> bool" where
  "outside_ok e ls s \<longleftrightarrow> beClient e \<and> beREST e \<and> (\<forall>o'. beSession e o') \<and>
     (\<exists>rss. fst (fst (ensureScaleSetForEntry (beGitHub e) ls s)) = Inr rss \<and>
        (\<forall>n. 0 < n \<and> n \<le> Unlimited \<longrightarrow> beListener e (gssID rss) n))"


section \<open>A configuration\<close>

definition ex_dur :: Dur where
  "ex_dur = \<lparr>durD = 0, durSet = False\<rparr>"

definition ex_profile :: "string \<Rightarrow> int option \<Rightarrow> int option \<Rightarrow> ScheduleConfig list \<Rightarrow> ProfileConfigC" where
  "ex_profile nm h w scs = \<lparr>pfName = nm, pfLabels = [''linux''], pfTemplateVMID = 0, pfCPUCores = 2, pfMemoryMB = 2048, pfDiskGB = 0,
     pfHotSize = h, pfWarmSize = w, pfMaxConcurrentRunners = Some 3, pfBootMaxAttempts = None, pfVMMaxAge = ex_dur, pfNetwork = None,
     pfCanaryTemplateVMID = 0, pfCanaryPercent = 0, pfCanaryMaxFailureRate = 0, pfSchedules = scs\<rparr>"

definition ex_sse :: "string \<Rightarrow> string \<Rightarrow> int \<Rightarrow> int \<Rightarrow> ProfileConfigC list \<Rightarrow> ScaleSetEntry" where
  "ex_sse nm o' lo hi ps = \<lparr>seName = nm, seLabels = [''linux''], seRunnerGroup = '''', seMaxConcurrentRunners = 4, seScope = ex_scope o',
     seProfiles = ps, seVMIDRange = Some \<lparr>vrMin = lo, vrMax = hi\<rparr>\<rparr>"

definition ex_config :: "int \<Rightarrow> ScaleSetEntry list \<Rightarrow> Config" where
  "ex_config h sets =
     \<lparr>cfGitHub = \<lparr>gcAuthMode = ''pat'', gcApp = None, gcPAT = Some \<lparr>gpToken = ''t'', gpConfigURL = '''', gpConfigBaseURL = ''''\<rparr>,
        gcScope = ex_scope '''', gcPollInterval = ex_dur, gcAssignedGrace = ex_dur, gcRunningIdleGrace = ex_dur,
        gcAssignedOfflineGrace = ex_dur\<rparr>,
      cfScaleSet = \<lparr>scName = '''', scLabels = [], scRunnerGroup = '''', scMaxConcurrentRunners = 0\<rparr>,
      cfScalesets = sets, cfProxmox = ex_px,
      cfNodes = \<lparr>ncStrategy = ''single'', ncMembers = [], ncSingleNode = ''a'', ncAffinity = []\<rparr>,
      cfPool = \<lparr>poHotSize = h, poWarmSize = h, poGlobalMax = 0, poReconcileInterval = ex_dur, poVMMaxAge = ex_dur,
        poDrainTimeout = ex_dur, poBootMaxAttempts = 0, poPowerPollInterval = ex_dur, poVMIDReuseCooldown = ex_dur,
        poOrphanGrace = ex_dur, poRecycleMode = '''', poCloneInflightGrace = ex_dur, poSchedules = [],
        poCapacity = \<lparr>ccEnabled = False, ccRefreshInterval = ex_dur, ccReserveMemoryMB = 0, ccReserveFractionSet = False,
          ccCPUOvercommitSet = False, ccEvictIdleForDemand = False\<rparr>\<rparr>,
      cfProfiles = [], cfQuotas = \<lparr>qcDefaultPerRepo = 0, qcDefaultPerOrg = 0, qcOverrides = []\<rparr>, cfPriority = [],
      cfObservability = \<lparr>obHTTPAddr = '''', obLogLevel = '''', obLogFormat = ''''\<rparr>,
      cfAdminAPI = \<lparr>adHTTPAddr = '''', adSharedSecret = '''', adTrustedProxies = None, adTLS = None\<rparr>, cfClusterMode = '''',
      cfRaft = \<lparr>raNodeID = '''', raBindAddr = '''', raAdvertiseAddr = '''', raDataDir = '''', raPeers = [], raBootstrap = False, raHeartbeatTimeout = ex_dur,
        raElectionTimeout = ex_dur, raCommitTimeout = ex_dur, raTLS = None\<rparr>\<rparr>"

definition ex_cenv :: cfg_env where
  "ex_cenv = \<lparr>envStructOK = (\<lambda>_. True), envScheme = (\<lambda>_. Some ''https''), envCIDR = (\<lambda>_. True), envFile = (\<lambda>_. True),
     envLocation = (\<lambda>_. True), envCron = (\<lambda>_ _. Some (\<lambda>t. t + 1)), envHOSTNAME = ''h'', envHostname = None\<rparr>"

definition loaded :: "Config \<Rightarrow> Config" where
  "loaded c = (case loadInto ex_cenv c of Inr c' \<Rightarrow> c' | Inl _ \<Rightarrow> c)"

definition loads :: "Config \<Rightarrow> bool" where
  "loads c \<longleftrightarrow> (case loadInto ex_cenv c of Inr _ \<Rightarrow> True | Inl _ \<Rightarrow> False)"

lemma loads_loaded: "loads c \<Longrightarrow> loadInto ex_cenv c = Inr (loaded c)"
  by (simp add: loads_def loaded_def split: sum.splits)

definition ex_siblings :: Config where
  "ex_siblings = ex_config 1 [ex_sse ''ci'' ''acme'' 10000 14999 [ex_profile ''default'' None None []],
     ex_sse ''ci-gpu'' ''umbra'' 15000 19999 [ex_profile ''default'' None None []]]"

lemma ex_siblings_loads: "loads ex_siblings"
  by code_simp

definition ex_api :: pve where
  "ex_api = (ex_pve [])\<lparr>apiVM := (\<lambda>_ _. Inr (ex_pv\<lparr>pvTemplate := True\<rparr>))\<rparr>"

definition ex_prov :: "Config \<Rightarrow> ScaleSetEntry \<Rightarrow> pmox" where
  "ex_prov c s = (case init_provisioner ex_api c s of Inr p \<Rightarrow> p | Inl _ \<Rightarrow> ex_pmox '''')"

definition ex_build :: build_env where
  "ex_build = \<lparr>beClient = True, beREST = True,
     beGitHub = \<lparr>grpReply = (\<lambda>_. None), lookupReply = (\<lambda>_. Some None), deleteReply = True, createReply = (\<lambda>_ _ _. Some ex_set)\<rparr>,
     beOwned = Some [], beRunners = None, bePower = (\<lambda>_. None), beNow = 0, beSession = (\<lambda>_. True), beListener = (\<lambda>i n. i \<noteq> 0 \<and> 0 \<le> n \<and> n \<le> 2147483647)\<rparr>"

definition ex_labels :: label_state where
  "ex_labels = \<lparr>lsRecreated = {}, lsDrift = Map.empty\<rparr>"

lemma ex_outside: "seRunnerGroup s = '''' \<Longrightarrow> outside_ok ex_build ls s"
  by (simp add: outside_ok_def ex_build_def ensureScaleSetForEntry_def Let_def ex_set_def Unlimited_def)

definition first_set :: "Config \<Rightarrow> ScaleSetEntry" where
  "first_set c = cfScalesets c ! 0"

lemma ex_prov_Inr: "init_provisioner ex_api (loaded c) s = Inr (ex_prov (loaded c) s)"
  if "cfProxmox (loaded c) = ex_px"
  using that by (simp add: ex_prov_def init_provisioner_def pmox_New_def discoverTemplateNode_def ex_api_def ex_pve_def
      validateFirewallSecurityGroup_def ex_px_def)

lemma loaded_fields:
  assumes "loads c"
  shows "cfProxmox (loaded c) = cfProxmox (ApplyDefaults c)" "cfNodes (loaded c) = cfNodes (ApplyDefaults c)"
  using Resolve_fields(3,4) [OF loadInto_Inr(1) [OF loads_loaded [OF assms]]] by simp_all

lemma cluster_defaults_fields:
  "cfProxmox (applyClusterDefaults c) = cfProxmox c" "cfNodes (applyClusterDefaults c) = cfNodes c"
  by (simp_all add: applyClusterDefaults_def Let_def)

lemma normalize_fields:
  "cfProxmox (normalizeScalesets c) = cfProxmox c" "cfNodes (normalizeScalesets c) = cfNodes c"
  by (auto simp: normalizeScalesets_def Let_def split: list.split)

lemma ApplyDefaults_fields [simp]:
  "cfProxmox (ApplyDefaults c) = cfProxmox c" "cfNodes (ApplyDefaults c) = cfNodes c"
  unfolding ApplyDefaults_def Let_def by (simp_all add: cluster_defaults_fields normalize_fields)


section \<open>Where an accepted configuration does not do what it says\<close>

text \<open>A profile that asks for no hot runner, in a pool that keeps two, with a cap of three.\<close>

definition ex_zero :: Config where
  "ex_zero = ex_config 2 [ex_sse ''ci'' ''acme'' 10000 14999 [ex_profile ''batch'' (Some 0) None []]]"

text \<open>
  An explicit zero is accepted by the checks, which take it as zero, and then replaced by the pool-wide
  size when the manager is built: the configuration loads, and its worker can never start.
\<close>

lemma normalise_prov: "normaliseProfiles (pool_config c s p) = normaliseProfiles (pool_config c s q)"
  by (simp add: normaliseProfiles_def pool_config_def Let_def)

lemma manager_refused:
  assumes "check_profiles (normaliseProfiles (pool_config c s q)) = Some e" "seRunnerGroup s = ''''"
  shows "fst (fst (runOneScaleset ex_build c acct s p ls)) = Inl (AppPool e)"
  using assms(1) normalise_prov [of c s p q] assms(2)
  by (simp add: runOneScaleset_def NewManager_def Let_def ex_build_def ensureScaleSetForEntry_def)

theorem explicit_zero_never_starts:
  "loads ex_zero \<and>
   fst (fst (runOneScaleset ex_build (loaded ex_zero) None (first_set (loaded ex_zero)) p ls)) = Inl (AppPool PoolErrSizesExceedMax)"
proof
  show "loads ex_zero" by code_simp
  show "fst (fst (runOneScaleset ex_build (loaded ex_zero) None (first_set (loaded ex_zero)) p ls)) = Inl (AppPool PoolErrSizesExceedMax)"
  proof (rule manager_refused)
    show "check_profiles (normaliseProfiles (pool_config (loaded ex_zero) (first_set (loaded ex_zero)) (ex_pmox ''''))) = Some PoolErrSizesExceedMax"
      by code_simp
    show "seRunnerGroup (first_set (loaded ex_zero)) = ''''" by code_simp
  qed
qed


text \<open>The same two scale sets, the second with a nightly window.\<close>

definition ex_nightly :: ScheduleConfig where
  "ex_nightly = \<lparr>shName = ''night'', shCron = ''0 22 * * *'', shDuration = \<lparr>durD = 28800 * second, durSet = True\<rparr>,
     shTimezone = '''', shHotSize = 1, shWarmSize = 0, shCronSchedule = None\<rparr>"

definition ex_late :: Config where
  "ex_late = ex_config 1 [ex_sse ''ci'' ''acme'' 10000 14999 [ex_profile ''default'' None None [ex_nightly]],
     ex_sse ''gpu'' ''umbra'' 15000 19999 [ex_profile ''default'' None None [ex_nightly]]]"

text \<open>
  Only the first scale set's schedules are resolved when the configuration is loaded; a later one's
  have no cron schedule, so its runner is refused and the worker runs without it.
\<close>

theorem later_schedules_dropped:
  "loads ex_late \<and>
   (case scheduleRunnerForScaleset (cfScalesets (loaded ex_late) ! 0) (cfPool (loaded ex_late)) of Inr (Some _) \<Rightarrow> True | _ \<Rightarrow> False) \<and>
   (case scheduleRunnerForScaleset (cfScalesets (loaded ex_late) ! Suc 0) (cfPool (loaded ex_late)) of Inl (ErrCronRequired _) \<Rightarrow> True | _ \<Rightarrow> False)"
  by code_simp

end
