(* ===== verification/FilePerm.thy ===== *)
theory FilePerm
  imports Base "HOL-Library.Word"
begin

text \<open>
  The permission checks on files that hold secrets and on the raft data directory
  (\<^verbatim>\<open>internal/fileperm\<close>): mode bits as a 32-bit word, the owner and group that
  \<^verbatim>\<open>stat\<close> reports, and the identity of the process.
\<close>

unbundle bit_operations_syntax

section \<open>Files and processes\<close>

text \<open>\<open>fiStat\<close> is \<open>None\<close> when \<^verbatim>\<open>info.Sys()\<close> is not a \<^verbatim>\<open>*syscall.Stat_t\<close>.\<close>

record fstat =
  stUid :: "32 word"
  stGid :: "32 word"

record file_info =
  fiPerm :: "32 word"
  fiStat :: "fstat option"

text \<open>\<open>prGroups\<close> is \<^verbatim>\<open>os.Getgroups()\<close>, \<open>None\<close> its failure.\<close>

record process_ids =
  prEuid :: "32 word"
  prEgid :: "32 word"
  prGroups :: "int list option"

datatype perm_error = InsecureMode | WrongOwner | Unreachable

section \<open>The checks\<close>

definition CheckMode :: "file_info \<Rightarrow> 32 word \<Rightarrow> perm_error option" where
  "CheckMode info maxMode = (if fiPerm info AND NOT maxMode \<noteq> 0 then Some InsecureMode else None)"

definition CheckOwnership :: "process_ids \<Rightarrow> file_info \<Rightarrow> perm_error option" where
  "CheckOwnership pr info =
     (case fiStat info of
        None \<Rightarrow> None
      | Some st \<Rightarrow> if stUid st \<noteq> prEuid pr then Some WrongOwner else None)"

definition inGroup :: "process_ids \<Rightarrow> 32 word \<Rightarrow> bool" where
  "inGroup pr gid \<longleftrightarrow> prEgid pr = gid \<or>
     (case prGroups pr of None \<Rightarrow> False | Some gs \<Rightarrow> list_ex (\<lambda>g. g \<ge> 0 \<and> word_of_int g = gid) gs)"

text \<open>The octal masks 007, 070 and 040.\<close>

definition other_bits :: "32 word" where
  "other_bits = 7"

definition group_bits :: "32 word" where
  "group_bits = 56"

definition group_read :: "32 word" where
  "group_read = 32"

definition CheckAccess :: "process_ids \<Rightarrow> file_info \<Rightarrow> perm_error option" where
  "CheckAccess pr info =
     (let mode = fiPerm info in
      if mode AND other_bits \<noteq> 0 then Some InsecureMode
      else case fiStat info of
             None \<Rightarrow> if mode AND group_bits \<noteq> 0 then Some InsecureMode else None
           | Some st \<Rightarrow>
               if stUid st = prEuid pr then (if mode AND group_bits \<noteq> 0 then Some InsecureMode else None)
               else if mode AND group_read \<noteq> 0 \<and> inGroup pr (stGid st) then None
               else Some Unreachable)"

section \<open>Who can read an accepted file\<close>

text \<open>The kernel's rule for reading, restricted to a process that is not privileged: the first class that fits decides.\<close>

definition may_read :: "process_ids \<Rightarrow> 32 word \<Rightarrow> fstat \<Rightarrow> bool" where
  "may_read pr mode st \<longleftrightarrow>
     (if prEuid pr = stUid st then bit mode 8
      else if inGroup pr (stGid st) then bit mode 5
      else bit mode 2)"

lemma bits_of_masks:
  "bit other_bits n \<longleftrightarrow> n = 0 \<or> n = 1 \<or> n = 2" "bit group_bits n \<longleftrightarrow> n = 3 \<or> n = 4 \<or> n = 5" "bit group_read n \<longleftrightarrow> n = 5"
proof -
  have o: "other_bits = mask 3" and g: "group_bits = push_bit 3 (mask 3)" and r: "group_read = 2 ^ 5"
    by (simp_all add: other_bits_def group_bits_def group_read_def mask_eq_exp_minus_1 push_bit_eq_mult)
  show "bit other_bits n \<longleftrightarrow> n = 0 \<or> n = 1 \<or> n = 2" unfolding o bit_mask_iff by (auto simp: possible_bit_word)
  show "bit group_bits n \<longleftrightarrow> n = 3 \<or> n = 4 \<or> n = 5" unfolding g bit_push_bit_iff bit_mask_iff by (auto simp: possible_bit_word)
  show "bit group_read n \<longleftrightarrow> n = 5" unfolding r bit_exp_iff by (auto simp: possible_bit_word)
qed

lemma and_zero_iff: "(a :: 32 word) AND b = 0 \<longleftrightarrow> (\<forall>n. \<not> (bit a n \<and> bit b n))"
  using bit_imp_le_length by (auto simp: bit_eq_iff bit_and_iff)

lemma mask_bits:
  "mode AND other_bits = 0 \<longleftrightarrow> \<not> bit mode 0 \<and> \<not> bit mode 1 \<and> \<not> bit mode 2"
  "mode AND group_bits = 0 \<longleftrightarrow> \<not> bit mode 3 \<and> \<not> bit mode 4 \<and> \<not> bit mode 5"
  "mode AND group_read = 0 \<longleftrightarrow> \<not> bit mode 5"
  by (auto simp: and_zero_iff bits_of_masks intro!: gr0I)

text \<open>
  C30. An accepted secret file is closed to strangers: the bits of others are all clear; a file the process
  owns, or whose owner is unknown, has no group bit either; and a file of another owner is accepted
  only if the process reads it through its group. So whoever reads it is its owner or, where the
  process is not the owner, in the group through which the process reads it.\<close>

theorem accepted_secret_closed:
  assumes "CheckAccess pr info = None" "fiStat info = Some st"
  shows "(prEuid pr \<noteq> stUid st \<longrightarrow> may_read pr (fiPerm info) st) \<and>
    (\<forall>other. may_read other (fiPerm info) st \<longrightarrow>
       prEuid other = stUid st \<or> (prEuid pr \<noteq> stUid st \<and> inGroup other (stGid st) \<and> inGroup pr (stGid st)))"
  using assms by (auto simp: CheckAccess_def Let_def may_read_def mask_bits split: if_splits)

theorem accepted_secret_closed_witness:
  "may_read \<lparr>prEuid = 1000, prEgid = 1000, prGroups = Some [2000]\<rparr> 288 \<lparr>stUid = 0, stGid = 2000\<rparr>"
proof -
  let ?pr = "\<lparr>prEuid = 1000, prEgid = 1000, prGroups = Some [2000]\<rparr>"
  let ?info = "\<lparr>fiPerm = 288, fiStat = Some \<lparr>stUid = 0, stGid = 2000\<rparr>\<rparr>"
  have "CheckAccess ?pr ?info = None"
    by (simp add: CheckAccess_def Let_def other_bits_def group_bits_def group_read_def inGroup_def)
  from accepted_secret_closed [OF this, of "\<lparr>stUid = 0, stGid = 2000\<rparr>"] show ?thesis by simp
qed

text \<open>A directory that passes both strict checks is the process's own and open to nobody else.\<close>

lemma strict_checks:
  assumes "CheckMode info 448 = None" "CheckOwnership pr info = None" "fiStat info = Some st"
  shows "stUid st = prEuid pr \<and> (n < 6 \<longrightarrow> \<not> bit (fiPerm info) n)"
proof -
  have "bit (NOT 448 :: 32 word) n" if "n < 6"
  proof -
    have "(448 :: 32 word) = push_bit 6 (mask 3)" by (simp add: mask_eq_exp_minus_1 push_bit_eq_mult)
    then have "bit (NOT 448 :: 32 word) n \<longleftrightarrow> bit (NOT (push_bit 6 (mask 3)) :: 32 word) n" by simp
    then show ?thesis using that by (simp only: bit_not_iff bit_push_bit_iff bit_mask_iff) (auto simp: possible_bit_word)
  qed
  then show ?thesis using assms by (auto simp: CheckMode_def CheckOwnership_def and_zero_iff split: if_splits)
qed

end
