(* ===== verification/Cluster.thy ===== *)
theory Cluster
  imports FilePerm Addr
begin

text \<open>
  Leadership (\<^verbatim>\<open>internal/cluster\<close>): the standalone coordinator, the raft coordinator with its
  stores, its transitions and its endpoint, and the forwarder that takes admin requests to the
  leader. The raft library, the file system and the network answer through arguments.
\<close>

section \<open>Configuration (raft.go)\<close>

record RaftPeer =
  rpNode :: string
  rpRaft :: string
  rpHTTP :: string

text \<open>\<open>rfTest\<close>: the test transport's local address, when there is a test transport.\<close>

record RaftConfig =
  rfNodeID :: string
  rfBindAddr :: string
  rfAdvertiseAddr :: string
  rfDataDir :: string
  rfAdminPort :: int
  rfAdminHost :: string
  rfPeers :: "RaftPeer list"
  rfBootstrap :: bool
  rfHeartbeatTimeout :: duration
  rfElectionTimeout :: duration
  rfCommitTimeout :: duration
  rfTLS :: bool
  rfTest :: "string option"

datatype raft_error =
    RErrNodeID | RErrNoPeers | RErrPeerNodeID | RErrPeerDuplicate string | RErrPeerRaftAddr string | RErrSelfMissing
  | RErrBindAddr | RErrDataDir | RErrTestLocalAddr
  | RErrMkdir | RErrStat | RErrNotDirectory | RErrDirPerm perm_error
  | RErrSnapshotDir | RErrLogStore | RErrStableStore | RErrSnapshotStore
  | RErrResolve | RErrListen | RErrHasState | RErrBootstrap | RErrNewRaft
  | RErrNoPeerEntry string

text \<open>The loop over the peers, which also finds out whether this replica is among them.\<close>

fun validate_peers :: "string \<Rightarrow> string set \<Rightarrow> bool \<Rightarrow> RaftPeer list \<Rightarrow> raft_error + bool" where
  "validate_peers self seen selfFound [] = Inr selfFound"
| "validate_peers self seen selfFound (p # ps) =
     (if rpNode p = '''' then Inl RErrPeerNodeID
      else if rpNode p \<in> seen then Inl (RErrPeerDuplicate (rpNode p))
      else if rpRaft p = '''' then Inl (RErrPeerRaftAddr (rpNode p))
      else validate_peers self (insert (rpNode p) seen) (selfFound \<or> rpNode p = self) ps)"

definition RaftConfig_validate :: "RaftConfig \<Rightarrow> raft_error option" where
  "RaftConfig_validate c =
     (if rfNodeID c = '''' then Some RErrNodeID
      else if length (rfPeers c) = 0 then Some RErrNoPeers
      else case validate_peers (rfNodeID c) {} False (rfPeers c) of
             Inl e \<Rightarrow> Some e
           | Inr selfFound \<Rightarrow>
               if \<not> selfFound then Some RErrSelfMissing
               else case rfTest c of
                      None \<Rightarrow> if rfBindAddr c = '''' then Some RErrBindAddr
                              else if rfDataDir c = '''' then Some RErrDataDir else None
                    | Some addr \<Rightarrow> if addr = '''' then Some RErrTestLocalAddr else None)"

section \<open>Building the coordinator (raft.go)\<close>

text \<open>What the coordinator does to the outside while it is built.\<close>

datatype raft_call =
    MkdirData | MkdirSnapshots | OpenLog | OpenStable | OpenSnapshots | CloseLog | CloseStable
  | BindTransport string | BootstrapCluster "RaftPeer list" | StartRaft

datatype stat_reply = StatMissing | StatFailed | StatOther | StatDir file_info

text \<open>\<open>reBootstrap\<close>: no error, or an error and whether it is \<^verbatim>\<open>raft.ErrCantBootstrap\<close>.\<close>

record raft_env =
  reProc :: process_ids
  reStat :: stat_reply
  reMkdir :: bool
  reMkdirAll :: bool
  reOpenLog :: bool
  reOpenStable :: bool
  reOpenSnapshots :: bool
  reResolve :: "string \<Rightarrow> bool"
  reListen :: bool
  reHasState :: "bool option"
  reBootstrap :: "bool option"
  reNewRaft :: bool

definition validateDataDir :: "raft_env \<Rightarrow> raft_error option \<times> raft_call list" where
  "validateDataDir e =
     (case reStat e of
        StatMissing \<Rightarrow> (if reMkdir e then None else Some RErrMkdir, [MkdirData])
      | StatFailed \<Rightarrow> (Some RErrStat, [])
      | StatOther \<Rightarrow> (Some RErrNotDirectory, [])
      | StatDir info \<Rightarrow>
          (case CheckMode info 448 of
             Some er \<Rightarrow> (Some (RErrDirPerm er), [])
           | None \<Rightarrow> (case CheckOwnership (reProc e) info of Some er \<Rightarrow> (Some (RErrDirPerm er), []) | None \<Rightarrow> (None, []))))"

definition newRaftStores :: "raft_env \<Rightarrow> bool \<Rightarrow> raft_error option \<times> raft_call list" where
  "newRaftStores e persistent =
     (if \<not> persistent then (None, [])
      else case validateDataDir e of
             (Some er, l) \<Rightarrow> (Some er, l)
           | (None, l) \<Rightarrow>
               if \<not> reMkdirAll e then (Some RErrSnapshotDir, l @ [MkdirSnapshots])
               else if \<not> reOpenLog e then (Some RErrLogStore, l @ [MkdirSnapshots])
               else if \<not> reOpenStable e then (Some RErrStableStore, l @ [MkdirSnapshots, OpenLog, CloseLog])
               else if \<not> reOpenSnapshots e
               then (Some RErrSnapshotStore, l @ [MkdirSnapshots, OpenLog, OpenStable, CloseLog, CloseStable])
               else (None, l @ [MkdirSnapshots, OpenLog, OpenStable, OpenSnapshots]))"

text \<open>Releasing the stores: in memory there is nothing to release.\<close>

definition closeStores :: "bool \<Rightarrow> raft_call list" where
  "closeStores persistent = (if persistent then [CloseLog, CloseStable] else [])"

definition buildTransport :: "raft_env \<Rightarrow> RaftConfig \<Rightarrow> raft_error option \<times> raft_call list" where
  "buildTransport e c =
     (if rfTest c \<noteq> None then (None, [])
      else if \<not> reResolve e (if rfAdvertiseAddr c = '''' then rfBindAddr c else rfAdvertiseAddr c) then (Some RErrResolve, [])
      else if \<not> reListen e then (Some RErrListen, [])
      else (None, [BindTransport (rfBindAddr c)]))"

text \<open>The timing knobs: the library's defaults (an argument), the configured values, and the lease clamped to the heartbeat.\<close>

record raft_timing =
  tmHeartbeat :: duration
  tmElection :: duration
  tmCommit :: duration
  tmLease :: duration

definition raft_timing_of :: "raft_timing \<Rightarrow> RaftConfig \<Rightarrow> raft_timing" where
  "raft_timing_of dflt c =
     (let h = (if rfHeartbeatTimeout c > 0 then rfHeartbeatTimeout c else tmHeartbeat dflt) in
      \<lparr>tmHeartbeat = h, tmElection = (if rfElectionTimeout c > 0 then rfElectionTimeout c else tmElection dflt),
       tmCommit = (if rfCommitTimeout c > 0 then rfCommitTimeout c else tmCommit dflt),
       tmLease = (if tmLease dflt > h then h else tmLease dflt)\<rparr>)"

record raftCoord =
  rcRaftCfg :: RaftConfig
  onDeposeWait :: duration
  peersByRaftAddr :: "string \<rightharpoonup> string"

definition peers_map :: "RaftPeer list \<Rightarrow> (string \<rightharpoonup> string)" where
  "peers_map ps = foldl (\<lambda>m p. m(rpRaft p \<mapsto> rpHTTP p)) Map.empty ps"

definition start_raft :: "raft_env \<Rightarrow> bool \<Rightarrow> raft_timing \<Rightarrow> RaftConfig \<Rightarrow> (raft_error + raftCoord) \<times> raft_call list" where
  "start_raft e persistent tm c =
     (if \<not> reNewRaft e then (Inl RErrNewRaft, closeStores persistent)
      else (Inr \<lparr>rcRaftCfg = c, onDeposeWait = tmHeartbeat tm, peersByRaftAddr = peers_map (rfPeers c)\<rparr>, [StartRaft]))"

definition NewRaft :: "raft_timing \<Rightarrow> raft_env \<Rightarrow> RaftConfig \<Rightarrow> (raft_error + raftCoord) \<times> raft_call list" where
  "NewRaft dflt e c =
     (case RaftConfig_validate c of
        Some er \<Rightarrow> (Inl er, [])
      | None \<Rightarrow>
          (let persistent = (rfTest c = None); tm = raft_timing_of dflt c in
           case newRaftStores e persistent of
             (Some er, l) \<Rightarrow> (Inl er, l)
           | (None, l) \<Rightarrow>
               (case buildTransport e c of
                  (Some er, l1) \<Rightarrow> (Inl er, l @ l1)
                | (None, l1) \<Rightarrow>
                    if \<not> rfBootstrap c then (case start_raft e persistent tm c of (r, l2) \<Rightarrow> (r, l @ l1 @ l2))
                    else case reHasState e of
                           None \<Rightarrow> (Inl RErrHasState, l @ l1)
                         | Some True \<Rightarrow> (case start_raft e persistent tm c of (r, l2) \<Rightarrow> (r, l @ l1 @ l2))
                         | Some False \<Rightarrow>
                             if reBootstrap e = Some False
                             then (Inl RErrBootstrap, l @ l1 @ BootstrapCluster (rfPeers c) # closeStores persistent)
                             else (case start_raft e persistent tm c of
                                     (r, l2) \<Rightarrow> (r, l @ l1 @ BootstrapCluster (rfPeers c) # l2)))))"

section \<open>Endpoints (cluster.go, raft.go)\<close>

definition localEndpoint :: "string \<Rightarrow> int \<Rightarrow> string" where
  "localEndpoint host port = (if port \<le> 0 \<or> host = '''' then '''' else JoinHostPort host (itoa port))"

definition RaftConfig_localEndpoint :: "RaftConfig \<Rightarrow> string" where
  "RaftConfig_localEndpoint c =
     (if localEndpoint (rfAdminHost c) (rfAdminPort c) \<noteq> '''' then localEndpoint (rfAdminHost c) (rfAdminPort c)
      else case find (\<lambda>p. rpNode p = rfNodeID c) (rfPeers c) of None \<Rightarrow> '''' | Some p \<Rightarrow> rpHTTP p)"

text \<open>\<open>observed\<close> is the address that \<^verbatim>\<open>LeaderWithID\<close> reports, empty while there is no leader.\<close>

definition raft_LeaderEndpoint :: "raftCoord \<Rightarrow> bool \<Rightarrow> string \<Rightarrow> raft_error + string" where
  "raft_LeaderEndpoint k leader observed =
     (if leader \<and> RaftConfig_localEndpoint (rcRaftCfg k) \<noteq> '''' then Inr (RaftConfig_localEndpoint (rcRaftCfg k))
      else if observed = '''' then Inr ''''
      else case peersByRaftAddr k observed of
             None \<Rightarrow> Inl (RErrNoPeerEntry observed)
           | Some httpAddr \<Rightarrow> if httpAddr = '''' then Inl (RErrNoPeerEntry observed) else Inr httpAddr)"


section \<open>Leadership over time (cluster.go, raft.go)\<close>

text \<open>Which callbacks are set.\<close>

record Callbacks =
  cbOnElected :: bool
  cbOnDeposed :: bool

text \<open>As \<^verbatim>\<open>app.Run\<close> sets them.\<close>

definition both_callbacks :: Callbacks where
  "both_callbacks = \<lparr>cbOnElected = True, cbOnDeposed = True\<rparr>"

text \<open>The standalone coordinator does the same on every run: what it does, in order, until it returns.\<close>

datatype coord_act = SetLeader bool | CallOnElected | CancelLeaderCtx | AwaitOnElected | CallOnDeposed

definition standalone_Run :: "Callbacks \<Rightarrow> coord_act list" where
  "standalone_Run cb =
     [SetLeader True] @ (if cbOnElected cb then [CallOnElected] else []) @ [CancelLeaderCtx, AwaitOnElected] @
     (if cbOnDeposed cb then [CallOnDeposed] else []) @ [SetLeader False]"

text \<open>
  The raft coordinator's run: its flag, what it last acted on, the context it would cancel, and the
  goroutines that run \<^verbatim>\<open>OnElected\<close>, each with its context. A goroutine that has returned is gone.
  The handler of a wake-up is not one step: \<open>rnPc\<close> is the statement it comes to next, and
  everything else in the process may happen in between.
  \<^item> \<open>AtSelect\<close>: the loop waits for a wake-up or for the end of the context.
  \<^item> \<open>AtElect\<close>: the flag is set, the plane is about to be started.
  \<^item> \<open>AtCancel\<close>: the flag is cleared, the plane's context is about to be cancelled.
  \<^item> \<open>AtWait\<close>: in \<^verbatim>\<open>waitWithCap\<close>. \<open>AtDeposed\<close>: about to call \<^verbatim>\<open>OnDeposed\<close>.
\<close>

datatype handler_pc = AtSelect | AtElect | AtCancel | AtWait | AtDeposed

record plane =
  plId :: nat
  plCancelled :: bool

record raft_run =
  rnPc :: handler_pc
  rnLeader :: bool
  rnWas :: bool
  rnCancel :: "nat option"
  rnPlanes :: "plane list"
  rnNext :: nat
  rnElected :: nat
  rnDeposed :: nat
  rnCtxDone :: bool
  rnReturned :: bool

definition raft_init :: raft_run where
  "raft_init = \<lparr>rnPc = AtSelect, rnLeader = False, rnWas = False, rnCancel = None, rnPlanes = [], rnNext = 0, rnElected = 0,
     rnDeposed = 0, rnCtxDone = False, rnReturned = False\<rparr>"

definition cancel_plane :: "nat \<Rightarrow> plane list \<Rightarrow> plane list" where
  "cancel_plane i ps = map (\<lambda>p. if plId p = i then p\<lparr>plCancelled := True\<rparr> else p) ps"

text \<open>The head of \<^verbatim>\<open>handle\<close>; \<open>isLeader\<close> is the state read from raft after a wake-up.\<close>

definition handle_observed :: "bool \<Rightarrow> raft_run \<Rightarrow> raft_run" where
  "handle_observed isLeader s =
     (if isLeader = rnWas s then s
      else s\<lparr>rnWas := isLeader, rnLeader := isLeader, rnPc := (if isLeader then AtElect else AtCancel)\<rparr>)"

definition leave_wait :: "raft_run \<Rightarrow> raft_run" where
  "leave_wait s = s\<lparr>rnCancel := None, rnPc := AtDeposed\<rparr>"

text \<open>The wait ends when every plane has returned, or when its timer fires, if it has one.\<close>

definition waitWithCap :: "duration \<Rightarrow> bool \<Rightarrow> raft_run \<Rightarrow> raft_run" where
  "waitWithCap wait fired s = (if rnPlanes s = [] \<or> fired \<and> wait > 0 then leave_wait s else s)"

text \<open>The next statement of \<^verbatim>\<open>handle\<close>.\<close>

definition handle :: "duration \<Rightarrow> Callbacks \<Rightarrow> raft_run \<Rightarrow> raft_run" where
  "handle wait cb s =
     (case rnPc s of
        AtSelect \<Rightarrow> s
      | AtElect \<Rightarrow>
          s\<lparr>rnPc := AtSelect, rnCancel := Some (rnNext s), rnNext := Suc (rnNext s), rnElected := Suc (rnElected s),
            rnPlanes := rnPlanes s @ (if cbOnElected cb then [\<lparr>plId = rnNext s, plCancelled = rnCtxDone s\<rparr>] else [])\<rparr>
      | AtCancel \<Rightarrow>
          (case rnCancel s of
             None \<Rightarrow> s\<lparr>rnPc := AtDeposed\<rparr>
           | Some i \<Rightarrow> s\<lparr>rnPlanes := cancel_plane i (rnPlanes s), rnPc := AtWait\<rparr>)
      | AtWait \<Rightarrow> waitWithCap wait False s
      | AtDeposed \<Rightarrow> s\<lparr>rnDeposed := Suc (rnDeposed s), rnPc := AtSelect\<rparr>)"

text \<open>
  What can happen: a wake-up, the next statement of the handler, the timer of the wait, the return of
  a plane, the end of the process's context, which ends every context derived from it, and the
  return of the run, which waits for all planes. An event that cannot happen changes nothing.
\<close>

datatype raft_event = Observe bool | Proceed | WaitExpires | PlaneReturns nat | CtxDone | RunReturns

fun raft_step :: "duration \<Rightarrow> Callbacks \<Rightarrow> raft_run \<Rightarrow> raft_event \<Rightarrow> raft_run" where
  "raft_step wait cb s (Observe isLeader) = (if rnReturned s \<or> rnPc s \<noteq> AtSelect then s else handle_observed isLeader s)"
| "raft_step wait cb s Proceed = handle wait cb s"
| "raft_step wait cb s WaitExpires = (if rnPc s = AtWait then waitWithCap wait True s else s)"
| "raft_step wait cb s (PlaneReturns i) = s\<lparr>rnPlanes := filter (\<lambda>p. plId p \<noteq> i) (rnPlanes s)\<rparr>"
| "raft_step wait cb s CtxDone = s\<lparr>rnCtxDone := True, rnPlanes := map (\<lambda>p. p\<lparr>plCancelled := True\<rparr>) (rnPlanes s)\<rparr>"
| "raft_step wait cb s RunReturns = (if rnPc s = AtSelect \<and> rnCtxDone s \<and> rnPlanes s = [] then s\<lparr>rnReturned := True\<rparr> else s)"

definition raft_Run :: "duration \<Rightarrow> Callbacks \<Rightarrow> raft_event list \<Rightarrow> raft_run" where
  "raft_Run wait cb es = foldl (raft_step wait cb) raft_init es"

section \<open>The forwarder (forwarder.go)\<close>

type_synonym headers = "string \<Rightarrow> string list"

record fwd_req =
  frHeaders :: headers
  frRemote :: string
  frHost :: string
  frTLS :: bool

text \<open>What the proxy removes from the outgoing request before it calls \<^verbatim>\<open>Rewrite\<close>.\<close>

definition proxy_scrub :: "headers \<Rightarrow> headers" where
  "proxy_scrub h = h(''Forwarded'' := [], ''X-Forwarded-For'' := [], ''X-Forwarded-Host'' := [], ''X-Forwarded-Proto'' := [])"

fun join_comma :: "string list \<Rightarrow> string" where
  "join_comma [] = ''''"
| "join_comma [x] = x"
| "join_comma (x # xs) = x @ '', '' @ join_comma xs"

definition SetXForwarded :: "fwd_req \<Rightarrow> headers \<Rightarrow> headers" where
  "SetXForwarded r out =
     (let prior = out ''X-Forwarded-For'';
          out1 = (case SplitHostPort (frRemote r) of
                    Some (clientIP, _) \<Rightarrow> out(''X-Forwarded-For'' := [join_comma (prior @ [clientIP])])
                  | None \<Rightarrow> out(''X-Forwarded-For'' := [])) in
      out1(''X-Forwarded-Host'' := [frHost r], ''X-Forwarded-Proto'' := [if frTLS r then ''https'' else ''http'']))"

datatype fwd_mark = ToLeader | NoLeader | LookupFailed

record fwd_out =
  foHeaders :: headers
  foScheme :: string
  foHost :: string
  foMark :: fwd_mark

definition fwd_scheme :: "bool \<Rightarrow> string" where
  "fwd_scheme tlsClient = (if tlsClient then ''https'' else ''http'')"

definition deadHost :: string where
  "deadHost = ''127.0.0.1:0''"

definition rewrite :: "bool \<Rightarrow> raft_error + string \<Rightarrow> fwd_req \<Rightarrow> fwd_out" where
  "rewrite tlsClient lookup r =
     (let h = (proxy_scrub (frHeaders r))(''X-Forwarded-For'' := [], ''X-Real-Ip'' := [], ''True-Client-Ip'' := []);
          out = SetXForwarded r h in
      case lookup of
        Inl _ \<Rightarrow> \<lparr>foHeaders = out, foScheme = fwd_scheme tlsClient, foHost = deadHost, foMark = LookupFailed\<rparr>
      | Inr endpoint \<Rightarrow>
          if endpoint = '''' then \<lparr>foHeaders = out, foScheme = fwd_scheme tlsClient, foHost = deadHost, foMark = NoLeader\<rparr>
          else \<lparr>foHeaders = out, foScheme = fwd_scheme tlsClient, foHost = endpoint, foMark = ToLeader\<rparr>)"

record http_reply =
  hrStatus :: int
  hrRetryAfter :: "int option"

definition errorHandler :: "fwd_mark \<Rightarrow> http_reply" where
  "errorHandler mark =
     (case mark of
        LookupFailed \<Rightarrow> \<lparr>hrStatus = 502, hrRetryAfter = None\<rparr>
      | NoLeader \<Rightarrow> \<lparr>hrStatus = 503, hrRetryAfter = Some 2\<rparr>
      | ToLeader \<Rightarrow> \<lparr>hrStatus = 502, hrRetryAfter = None\<rparr>)"

text \<open>\<open>transport\<close>: the answer of the host the request is sent to, or no connection.\<close>

definition fwd_ServeHTTP :: "bool \<Rightarrow> raft_error + string \<Rightarrow> (fwd_out \<Rightarrow> http_reply option) \<Rightarrow> fwd_req \<Rightarrow> http_reply" where
  "fwd_ServeHTTP tlsClient lookup transport r =
     (let out = rewrite tlsClient lookup r in
      case transport out of None \<Rightarrow> errorHandler (foMark out) | Some reply \<Rightarrow> reply)"


section \<open>One control plane at a time\<close>

text \<open>A leadership is open from the start of its plane to the call of \<^verbatim>\<open>OnDeposed\<close>.\<close>

definition open_term :: "raft_run \<Rightarrow> bool" where
  "open_term s \<longleftrightarrow> rnPc s \<in> {AtCancel, AtWait, AtDeposed} \<or> rnPc s = AtSelect \<and> rnLeader s"

definition raft_inv :: "raft_run \<Rightarrow> bool" where
  "raft_inv s \<longleftrightarrow>
     rnWas s = rnLeader s \<and> (rnPc s = AtElect \<longrightarrow> rnLeader s) \<and> (rnPc s \<in> {AtCancel, AtWait, AtDeposed} \<longrightarrow> \<not> rnLeader s) \<and>
     (rnCancel s \<noteq> None \<longleftrightarrow> open_term s \<and> rnPc s \<noteq> AtDeposed) \<and> rnElected s = rnDeposed s + (if open_term s then 1 else 0) \<and>
     (\<forall>i. rnCancel s = Some i \<longrightarrow> rnNext s = Suc i) \<and> (\<forall>p \<in> set (rnPlanes s). plId p < rnNext s) \<and> distinct (map plId (rnPlanes s)) \<and>
     (\<forall>p \<in> set (rnPlanes s). \<not> plCancelled p \<longrightarrow> rnCancel s = Some (plId p) \<and> rnPc s \<noteq> AtWait) \<and>
     (rnReturned s \<longrightarrow> rnPc s = AtSelect \<and> rnPlanes s = [])"

lemma cancel_plane_ids [simp]: "map plId (cancel_plane i ps) = map plId ps"
  by (induction ps) (auto simp: cancel_plane_def)

lemma cancel_plane_live:
  "p \<in> set (cancel_plane i ps) \<Longrightarrow> \<not> plCancelled p \<Longrightarrow> p \<in> set ps \<and> plId p \<noteq> i"
  by (auto simp: cancel_plane_def split: if_splits)

lemma cancel_plane_mem: "p \<in> set (cancel_plane i ps) \<Longrightarrow> plId p \<in> plId ` set ps"
  by (metis cancel_plane_ids image_eqI image_set)

lemma observed_inv: "raft_inv s \<Longrightarrow> rnPc s = AtSelect \<Longrightarrow> \<not> rnReturned s \<Longrightarrow> raft_inv (handle_observed isLeader s)"
  by (cases isLeader) (auto simp: handle_observed_def raft_inv_def open_term_def)

lemma wait_inv: "raft_inv s \<Longrightarrow> rnPc s = AtWait \<Longrightarrow> raft_inv (waitWithCap w fired s)"
  by (auto simp: waitWithCap_def leave_wait_def raft_inv_def open_term_def)

lemma elect_inv:
  assumes "raft_inv s" "rnPc s = AtElect"
  shows "raft_inv (handle w cb s)"
proof -
  have "rnCancel s = None" "\<not> open_term s" using assms by (auto simp: raft_inv_def open_term_def)
  moreover from this have "\<forall>p \<in> set (rnPlanes s). plCancelled p" using assms(1) by (auto simp: raft_inv_def)
  ultimately show ?thesis using assms by (auto simp: handle_def raft_inv_def open_term_def dest: less_SucI)
qed

lemma cancel_inv:
  assumes "raft_inv s" "rnPc s = AtCancel"
  shows "raft_inv (handle w cb s)"
proof -
  obtain i where i: "rnCancel s = Some i" using assms by (auto simp: raft_inv_def open_term_def)
  let ?ps = "cancel_plane i (rnPlanes s)"
  have "\<forall>p \<in> set ?ps. plId p < rnNext s" using cancel_plane_mem [of _ i "rnPlanes s"] assms(1) by (fastforce simp: raft_inv_def)
  moreover have "\<forall>p \<in> set ?ps. plCancelled p" using cancel_plane_live [of _ i "rnPlanes s"] assms(1) i by (fastforce simp: raft_inv_def)
  moreover have "handle w cb s = s\<lparr>rnPlanes := ?ps, rnPc := AtWait\<rparr>" using assms(2) i by (simp add: handle_def)
  ultimately show ?thesis using assms i by (simp add: raft_inv_def open_term_def)
qed

lemma deposed_inv:
  assumes "raft_inv s" "rnPc s = AtDeposed"
  shows "raft_inv (handle w cb s)"
proof -
  have "handle w cb s = s\<lparr>rnDeposed := Suc (rnDeposed s), rnPc := AtSelect\<rparr>" using assms(2) by (simp add: handle_def)
  moreover have "\<forall>p \<in> set (rnPlanes s). plCancelled p" using assms by (auto simp: raft_inv_def)
  ultimately show ?thesis using assms by (simp add: raft_inv_def open_term_def)
qed

lemma handle_inv:
  assumes "raft_inv s"
  shows "raft_inv (handle w cb s)"
proof (cases "rnPc s")
  case AtSelect
  then show ?thesis using assms by (simp add: handle_def)
next
  case AtWait
  then show ?thesis using wait_inv [OF assms] by (simp add: handle_def)
qed (rule elect_inv cancel_inv deposed_inv, rule assms, assumption)+

lemma raft_step_inv: "raft_inv s \<Longrightarrow> raft_inv (raft_step w cb s e)"
proof (cases e)
  case (Observe b)
  moreover assume "raft_inv s"
  ultimately show ?thesis using observed_inv by simp
next
  case Proceed
  moreover assume "raft_inv s"
  ultimately show ?thesis using handle_inv by simp
next
  case WaitExpires
  moreover assume "raft_inv s"
  ultimately show ?thesis using wait_inv by simp
qed (auto simp: raft_inv_def open_term_def distinct_map_filter comp_def)

lemma raft_Run_inv: "raft_inv (raft_Run w cb es)"
proof -
  have "raft_inv s \<Longrightarrow> raft_inv (foldl (raft_step w cb) s es)" for s
    by (induction es arbitrary: s) (simp_all add: raft_step_inv)
  moreover have "raft_inv raft_init" by (simp add: raft_inv_def raft_init_def open_term_def)
  ultimately show ?thesis by (simp add: raft_Run_def)
qed

text \<open>
  C10. Whatever wake-ups the raft coordinator sees, however its handler is interleaved with the planes,
  the timer and the end of the process: at most one control plane runs with a live context; it is the
  last one started, and the replica reports itself leader meanwhile, except between clearing the
  flag and cancelling the context, the handler's next statement; a leadership is open, from the start of its plane to the
  call of OnDeposed, exactly when there has been one more of it than depositions; and when the run
  returns no plane is left.\<close>

theorem leader_plane_unique:
  "let s = raft_Run w cb es in
   length (filter (\<lambda>p. \<not> plCancelled p) (rnPlanes s)) \<le> 1 \<and>
   (\<forall>p \<in> set (rnPlanes s). \<not> plCancelled p \<longrightarrow> rnNext s = Suc (plId p) \<and> (rnLeader s \<or> rnPc s = AtCancel)) \<and>
   rnElected s = rnDeposed s + (if open_term s then 1 else 0) \<and>
   (rnReturned s \<longrightarrow> rnPlanes s = [])"
proof -
  define s where "s = raft_Run w cb es"
  have inv: "raft_inv s" unfolding s_def by (rule raft_Run_inv)
  let ?live = "filter (\<lambda>p. \<not> plCancelled p) (rnPlanes s)"
  have "distinct (map plId ?live)" using inv by (simp add: raft_inv_def distinct_map_filter)
  moreover have "set (map plId ?live) \<subseteq> {the (rnCancel s)}" using inv by (fastforce simp: raft_inv_def)
  ultimately have one: "length (map plId ?live) \<le> 1"
    by (metis card_mono distinct_card finite.emptyI finite.insertI is_singletonI is_singleton_altdef)
  have "rnNext s = Suc (plId p) \<and> (rnLeader s \<or> rnPc s = AtCancel)" if "p \<in> set (rnPlanes s)" "\<not> plCancelled p" for p
  proof -
    have c: "rnCancel s = Some (plId p)" "rnPc s \<noteq> AtWait" using inv that by (auto simp: raft_inv_def)
    then have "open_term s" "rnPc s \<noteq> AtDeposed" using inv by (auto simp: raft_inv_def)
    then show ?thesis using inv c by (auto simp: raft_inv_def open_term_def)
  qed
  then show ?thesis using one inv unfolding s_def [symmetric] Let_def by (auto simp: raft_inv_def)
qed

definition ex_reelection :: "raft_event list" where
  "ex_reelection = [Observe True, Proceed, Observe False, Proceed, WaitExpires, Proceed, Observe True, Proceed]"

theorem leader_plane_unique_witness:
  "let s = raft_Run 1 both_callbacks ex_reelection in
   length (rnPlanes s) = 2 \<and> length (filter (\<lambda>p. \<not> plCancelled p) (rnPlanes s)) = 1"
proof -
  let ?s = "raft_Run 1 both_callbacks ex_reelection"
  have "length (rnPlanes ?s) = 2" "length (filter (\<lambda>p. \<not> plCancelled p) (rnPlanes ?s)) \<ge> 1" by code_simp+
  with leader_plane_unique [of 1 both_callbacks ex_reelection] show ?thesis by (simp add: Let_def)
qed

text \<open>
  The wait for the previous plane is bounded, so after a quick re-election two planes can be running,
  the older one with a cancelled context; the witness above shows such a run.

  Shutting down is not a deposition: a leader whose process is stopped keeps reporting itself leader
  when its planes have returned and the run ends, and its \<^verbatim>\<open>OnDeposed\<close> is not called, although the callback is documented for
  that case. The standalone coordinator does call it and clears its flag.
\<close>

theorem raft_shutdown_not_deposed:
  assumes "rnLeader s" "rnPc s = AtSelect" "rnPlanes s = [\<lparr>plId = i, plCancelled = False\<rparr>]"
  shows "let t = foldl (raft_step w cb) s [CtxDone, PlaneReturns i, RunReturns] in
    rnReturned t \<and> rnLeader t \<and> rnDeposed t = rnDeposed s"
  using assms by (simp add: Let_def)

lemma standalone_deposes:
  "cbOnDeposed cb \<Longrightarrow> \<exists>pre. standalone_Run cb = pre @ [CallOnDeposed, SetLeader False]"
  by (simp add: standalone_Run_def)

section \<open>Stores and endpoints\<close>

text \<open>Opening the stores either succeeds or leaves nothing open.\<close>

lemma newRaftStores_balanced:
  assumes "newRaftStores e persistent = (Some er, l)"
  shows "count_list l OpenLog = count_list l CloseLog \<and> count_list l OpenStable = count_list l CloseStable"
proof -
  have "validateDataDir e = (r, l') \<Longrightarrow> l' = [] \<or> l' = [MkdirData]" for r l'
    by (auto simp: validateDataDir_def split: stat_reply.splits option.splits)
  with assms show ?thesis by (fastforce simp: newRaftStores_def split: if_splits option.splits prod.splits)
qed

text \<open>
  Building the coordinator does not keep to that: when the transport cannot be bound, or the existing
  state cannot be read, the stores that were just opened are never closed.
\<close>

theorem failed_transport_leaks_stores:
  assumes "RaftConfig_validate c = None" "rfTest c = None" "newRaftStores e True = (None, l)" "buildTransport e c = (Some er, l')"
  shows "fst (NewRaft dflt e c) = Inl er \<and> OpenLog \<in> set (snd (NewRaft dflt e c)) \<and> CloseLog \<notin> set (snd (NewRaft dflt e c))"
proof -
  have "validateDataDir e = (r, l') \<Longrightarrow> l' = [] \<or> l' = [MkdirData]" for r l'
    by (auto simp: validateDataDir_def split: stat_reply.splits option.splits)
  then have "OpenLog \<in> set l" "CloseLog \<notin> set l"
    using assms(3) by (fastforce simp: newRaftStores_def split: if_splits option.splits prod.splits)+
  moreover have "l' = []" using assms(4) by (auto simp: buildTransport_def split: if_splits)
  ultimately show ?thesis using assms by (simp add: NewRaft_def Let_def)
qed

lemma lease_within_heartbeat: "tmLease (raft_timing_of dflt c) \<le> tmHeartbeat (raft_timing_of dflt c)"
  by (simp add: raft_timing_of_def Let_def)

lemma foldl_peers:
  "p \<in> set ps \<Longrightarrow> distinct (map rpRaft ps) \<Longrightarrow> foldl (\<lambda>m p. m(rpRaft p \<mapsto> rpHTTP p)) m ps (rpRaft p) = Some (rpHTTP p)"
proof (induction ps arbitrary: m)
  case (Cons q ps)
  have skip: "rpRaft p \<notin> rpRaft ` set ps \<Longrightarrow> foldl (\<lambda>m p. m(rpRaft p \<mapsto> rpHTTP p)) m' ps (rpRaft p) = m' (rpRaft p)" for m'
    by (induction ps arbitrary: m') auto
  show ?case
  proof (cases "p = q")
    case True
    then show ?thesis using Cons.prems skip by (simp del: fun_upd_apply add: fun_upd_same)
  next
    case False
    then show ?thesis using Cons by simp
  qed
qed simp

text \<open>A standby sends admin requests where the leader's peer entry says, if no two peers share a raft address.\<close>

lemma standby_finds_leader:
  assumes "p \<in> set (rfPeers (rcRaftCfg k))" "distinct (map rpRaft (rfPeers (rcRaftCfg k)))" "peersByRaftAddr k = peers_map (rfPeers (rcRaftCfg k))"
    and "rpRaft p \<noteq> ''''" "rpHTTP p \<noteq> ''''"
  shows "raft_LeaderEndpoint k False (rpRaft p) = Inr (rpHTTP p)"
  using foldl_peers [OF assms(1,2)] assms(3-5) by (simp add: raft_LeaderEndpoint_def peers_map_def)

section \<open>What the forwarder passes on\<close>

text \<open>
  A client cannot choose the address the leader sees for it: whatever headers it sends to a standby,
  the request that goes to the leader carries no X-Real-IP and no True-Client-IP, and an
  X-Forwarded-For with the standby's own peer alone, or none at all.\<close>

theorem forwarded_headers_fresh:
  "let h = foHeaders (rewrite tls lookup r) in
   h ''X-Real-Ip'' = [] \<and> h ''True-Client-Ip'' = [] \<and> h ''Forwarded'' = [] \<and>
   h ''X-Forwarded-For'' = (case SplitHostPort (frRemote r) of None \<Rightarrow> [] | Some (ip, _) \<Rightarrow> [ip])"
  by (simp add: rewrite_def SetXForwarded_def proxy_scrub_def Let_def split: sum.split option.split prod.split)

text \<open>A lookup that fails and an election in flight give different answers, and only the latter asks to retry.\<close>

lemma forward_answers:
  assumes "\<And>out. foHost out = deadHost \<Longrightarrow> transport out = None"
  shows "fwd_ServeHTTP tls (Inl er) transport r = \<lparr>hrStatus = 502, hrRetryAfter = None\<rparr>"
    and "fwd_ServeHTTP tls (Inr '''') transport r = \<lparr>hrStatus = 503, hrRetryAfter = Some 2\<rparr>"
  using assms by (simp_all add: fwd_ServeHTTP_def rewrite_def errorHandler_def Let_def)

end
