(* ===== verification/AdminApi.thy ===== *)
theory AdminApi
  imports Cluster Manager
begin

text \<open>
  The admin API (\<^verbatim>\<open>internal/adminapi\<close>): the chain of middlewares every request passes, and the
  handlers behind it, which act on the pools and canary controllers of the scale sets. Hashing,
  address parsing, the client-address strategy and the token buckets are parameters.
\<close>

section \<open>The server\<close>

text \<open>What the server uses of \<^verbatim>\<open>net/netip\<close>, \<^verbatim>\<open>realclientip\<close>, \<^verbatim>\<open>x/time/rate\<close> and \<^verbatim>\<open>crypto/sha256\<close>.\<close>

record ('addr, 'pre, 'lim, 'hash) admin_lib =
  alParsePrefix :: "string \<Rightarrow> 'pre option"
  alParseAddr :: "string \<Rightarrow> 'addr option"
  alContains :: "'pre \<Rightarrow> 'addr \<Rightarrow> bool"
  alClientIP :: "headers \<Rightarrow> string \<Rightarrow> string"
  alNewLimiter :: 'lim
  alAllow :: "'lim \<Rightarrow> time \<Rightarrow> bool \<times> 'lim"
  alSHA256 :: "string \<Rightarrow> 'hash"

text \<open>The limiter's cache drops idle entries on its own; \<open>alLimiters\<close> is what it holds.\<close>

record ('pre, 'lim) admin_server =
  asSecret :: string
  asTrusted :: "'pre list"
  asDrain :: bool
  asLimiters :: "(string \<times> 'lim) list"

datatype admin_error = AdminErrTrustedProxy nat

fun parse_proxies :: "('a, 'p, 'l, 'h) admin_lib \<Rightarrow> nat \<Rightarrow> string list \<Rightarrow> admin_error + 'p list" where
  "parse_proxies lib i [] = Inr []"
| "parse_proxies lib i (cidr # cidrs) =
     (case alParsePrefix lib cidr of
        None \<Rightarrow> Inl (AdminErrTrustedProxy i)
      | Some p \<Rightarrow> (case parse_proxies lib (Suc i) cidrs of Inl e \<Rightarrow> Inl e | Inr ps \<Rightarrow> Inr (p # ps)))"

definition admin_New :: "('a, 'p, 'l, 'h) admin_lib \<Rightarrow> string \<Rightarrow> string list \<Rightarrow> bool \<Rightarrow> admin_error + ('p, 'l) admin_server" where
  "admin_New lib secret trustedProxies drain =
     (case parse_proxies lib 0 trustedProxies of
        Inl e \<Rightarrow> Inl e
      | Inr ps \<Rightarrow> Inr \<lparr>asSecret = secret, asTrusted = ps, asDrain = drain, asLimiters = []\<rparr>)"

text \<open>
  The scale sets behind the server: the registered names, and what their pool and canary pointers hold
  at the moment. A canary controller is shared with the manager that was built with it.
\<close>

record admin_world =
  awScalesets :: "string list"
  awPools :: "string \<rightharpoonup> manager"
  awCanaries :: "string \<rightharpoonup> Controller"
  awDrained :: bool

datatype admin_route = RtState | RtDrain | RtDestroy string | RtPreempt string | RtPromote string | RtUnmatched

record admin_req =
  aqRemote :: string
  aqHeaders :: headers
  aqRoute :: admin_route
  aqScaleset :: string

section \<open>Middlewares\<close>

definition remoteIP :: "string \<Rightarrow> string" where
  "remoteIP remoteAddr = (case SplitHostPort remoteAddr of None \<Rightarrow> remoteAddr | Some (host, _) \<Rightarrow> host)"

definition peerIsTrustedProxy :: "('a, 'p, 'l, 'h) admin_lib \<Rightarrow> ('p, 'l) admin_server \<Rightarrow> string \<Rightarrow> bool" where
  "peerIsTrustedProxy lib s remoteAddr =
     (if length (asTrusted s) = 0 then False
      else case alParseAddr lib (remoteIP remoteAddr) of
             None \<Rightarrow> False
           | Some addr \<Rightarrow> list_ex (\<lambda>p. alContains lib p addr) (asTrusted s))"

definition realIP :: "('a, 'p, 'l, 'h) admin_lib \<Rightarrow> ('p, 'l) admin_server \<Rightarrow> admin_req \<Rightarrow> admin_req" where
  "realIP lib s r =
     (if peerIsTrustedProxy lib s (aqRemote r) \<and> alClientIP lib (aqHeaders r) (aqRemote r) \<noteq> ''''
      then r\<lparr>aqRemote := alClientIP lib (aqHeaders r) (aqRemote r)\<rparr> else r)"

definition perIPLimiter_allow ::
  "('a, 'p, 'l, 'h) admin_lib \<Rightarrow> (string \<times> 'l) list \<Rightarrow> string \<Rightarrow> time \<Rightarrow> bool \<times> (string \<times> 'l) list" where
  "perIPLimiter_allow lib cache ip now =
     (let lim = (case map_of cache ip of None \<Rightarrow> alNewLimiter lib | Some l \<Rightarrow> l) in
      case alAllow lib lim now of (ok, lim') \<Rightarrow> (ok, (ip, lim') # filter (\<lambda>e. fst e \<noteq> ip) cache))"

abbreviation (input) answer :: "int \<Rightarrow> http_reply" where
  "answer st \<equiv> \<lparr>hrStatus = st, hrRetryAfter = None\<rparr>"

abbreviation (input) answer_retry :: "int \<Rightarrow> int \<Rightarrow> http_reply" where
  "answer_retry st after \<equiv> \<lparr>hrStatus = st, hrRetryAfter = Some after\<rparr>"

definition denyUnauthorized ::
  "('a, 'p, 'l, 'h) admin_lib \<Rightarrow> time \<Rightarrow> ('p, 'l) admin_server \<Rightarrow> admin_req \<Rightarrow> http_reply \<times> ('p, 'l) admin_server" where
  "denyUnauthorized lib now s r =
     (case perIPLimiter_allow lib (asLimiters s) (remoteIP (aqRemote r)) now of
        (ok, cache) \<Rightarrow> (if ok then answer 401 else answer_retry 429 1, s\<lparr>asLimiters := cache\<rparr>))"

definition bearer_token :: "admin_req \<Rightarrow> string" where
  "bearer_token r =
     (case aqHeaders r ''Authorization'' of
        [] \<Rightarrow> ''''
      | auth # _ \<Rightarrow> if take 7 auth = ''Bearer '' then drop 7 auth else '''')"

text \<open>Either the answer of the middleware, or the request goes on.\<close>

definition requireBearerToken ::
  "('a, 'p, 'l, 'h) admin_lib \<Rightarrow> time \<Rightarrow> ('p, 'l) admin_server \<Rightarrow> admin_req \<Rightarrow> http_reply option \<times> ('p, 'l) admin_server" where
  "requireBearerToken lib now s r =
     (if asSecret s = '''' then (Some (answer 503), s)
      else if alSHA256 lib (bearer_token r) \<noteq> alSHA256 lib (asSecret s)
      then (case denyUnauthorized lib now s r of (rep, s') \<Rightarrow> (Some rep, s'))
      else (None, s))"

section \<open>Handlers\<close>

text \<open>The scale set a request is about: the named one, or the only one.\<close>

definition target :: "admin_world \<Rightarrow> string \<Rightarrow> string option" where
  "target w nm = (if nm = '''' then (case awScalesets w of [only] \<Rightarrow> Some only | _ \<Rightarrow> None)
                  else if nm \<in> set (awScalesets w) then Some nm else None)"

definition poolFor :: "admin_world \<Rightarrow> string \<Rightarrow> manager option" where
  "poolFor w nm = (case target w nm of None \<Rightarrow> None | Some s \<Rightarrow> awPools w s)"

definition canaryFor :: "admin_world \<Rightarrow> string \<Rightarrow> Controller option" where
  "canaryFor w nm = (case target w nm of None \<Rightarrow> None | Some s \<Rightarrow> awCanaries w s)"

definition set_pool :: "admin_world \<Rightarrow> string \<Rightarrow> manager \<Rightarrow> admin_world" where
  "set_pool w nm m = (case target w nm of None \<Rightarrow> w | Some s \<Rightarrow> w\<lparr>awPools := (awPools w)(s \<mapsto> m)\<rparr>)"

definition set_canary :: "admin_world \<Rightarrow> string \<Rightarrow> Controller \<Rightarrow> admin_world" where
  "set_canary w nm c =
     (case target w nm of
        None \<Rightarrow> w
      | Some s \<Rightarrow> w\<lparr>awCanaries := (awCanaries w)(s \<mapsto> c),
                    awPools := (awPools w)(s := map_option (\<lambda>m. if mCanary m = None then m else m\<lparr>mCanary := Some c\<rparr>) (awPools w s))\<rparr>)"

definition poolOrError :: "admin_world \<Rightarrow> string \<Rightarrow> http_reply + manager" where
  "poolOrError w nm =
     (case poolFor w nm of
        Some p \<Rightarrow> Inr p
      | None \<Rightarrow> Inl (if nm \<noteq> '''' then answer 404 else answer_retry 503 1))"

definition parseVMIDAndPool :: "admin_world \<Rightarrow> string \<Rightarrow> string \<Rightarrow> http_reply + (int \<times> manager)" where
  "parseVMIDAndPool w nm vmidStr =
     (case Atoi vmidStr of
        None \<Rightarrow> Inl (answer 400)
      | Some vmid \<Rightarrow>
          if vmid \<le> 0 then Inl (answer 400)
          else case poolOrError w nm of Inl e \<Rightarrow> Inl e | Inr p \<Rightarrow> Inr (vmid, p))"

definition handleState :: "(VM list \<Rightarrow> VM list) \<Rightarrow> admin_world \<Rightarrow> string \<Rightarrow> http_reply \<times> PoolStats option" where
  "handleState ord w nm = (case poolOrError w nm of Inl e \<Rightarrow> (e, None) | Inr p \<Rightarrow> (answer 200, Some (pool_Stats ord p)))"

definition handleDrain :: "bool \<Rightarrow> admin_world \<Rightarrow> http_reply \<times> admin_world" where
  "handleDrain wired w = (if \<not> wired then (answer 501, w) else (answer 202, w\<lparr>awDrained := True\<rparr>))"

definition handleDestroyVM :: "time \<Rightarrow> admin_world \<Rightarrow> string \<Rightarrow> string \<Rightarrow> http_reply \<times> admin_world" where
  "handleDestroyVM now w nm vmidStr =
     (case parseVMIDAndPool w nm vmidStr of
        Inl e \<Rightarrow> (e, w)
      | Inr (vmid, p) \<Rightarrow>
          (case ForceDestroy p now vmid of
             (Some _, p') \<Rightarrow> (answer 500, set_pool w nm p')
           | (None, p') \<Rightarrow> (answer 202, set_pool w nm p')))"

definition handlePreemptVM :: "time \<Rightarrow> admin_world \<Rightarrow> string \<Rightarrow> string \<Rightarrow> http_reply \<times> admin_world" where
  "handlePreemptVM now w nm vmidStr =
     (case parseVMIDAndPool w nm vmidStr of
        Inl e \<Rightarrow> (e, w)
      | Inr (vmid, p) \<Rightarrow>
          (case Preempt p now vmid of
             (Some e, p') \<Rightarrow> (if e = PoolErrPreemptRefused then answer 409 else answer 500, set_pool w nm p')
           | (None, p') \<Rightarrow> (answer 202, set_pool w nm p')))"

definition handlePromoteTemplate :: "admin_world \<Rightarrow> string \<Rightarrow> string \<Rightarrow> http_reply \<times> admin_world" where
  "handlePromoteTemplate w nm profile =
     (if nm = '''' \<and> length (awScalesets w) \<noteq> 1 then (answer 404, w)
      else if nm \<noteq> '''' \<and> nm \<notin> set (awScalesets w) then (answer 404, w)
      else case canaryFor w nm of
             None \<Rightarrow> (answer_retry 503 1, w)
           | Some c \<Rightarrow>
               if profile = '''' then (answer 400, w)
               else case Promote c profile of
                      (Some _, c') \<Rightarrow> (answer 409, set_canary w nm c')
                    | (None, c') \<Rightarrow> (answer 202, set_canary w nm c'))"

definition admin_handler :: "(VM list \<Rightarrow> VM list) \<Rightarrow> bool \<Rightarrow> time \<Rightarrow> admin_world \<Rightarrow> admin_req \<Rightarrow> http_reply \<times> admin_world" where
  "admin_handler ord drain now w r =
     (case aqRoute r of
        RtState \<Rightarrow> (fst (handleState ord w (aqScaleset r)), w)
      | RtDrain \<Rightarrow> handleDrain drain w
      | RtDestroy v \<Rightarrow> handleDestroyVM now w (aqScaleset r) v
      | RtPreempt v \<Rightarrow> handlePreemptVM now w (aqScaleset r) v
      | RtPromote p \<Rightarrow> handlePromoteTemplate w (aqScaleset r) p
      | RtUnmatched \<Rightarrow> (answer 404, w))"

text \<open>The chain: the client's address, leadership, the token, the route. \<open>forward\<close> is the leader's answer.\<close>

definition admin_serve ::
  "('a, 'p, 'l, 'h) admin_lib \<Rightarrow> (VM list \<Rightarrow> VM list) \<Rightarrow> bool \<Rightarrow> (admin_req \<Rightarrow> http_reply) \<Rightarrow> time \<Rightarrow> ('p, 'l) admin_server \<Rightarrow> admin_world \<Rightarrow> admin_req \<Rightarrow>
    http_reply \<times> ('p, 'l) admin_server \<times> admin_world" where
  "admin_serve lib ord leader forward now s w r =
     (let r1 = realIP lib s r in
      if \<not> leader then (forward r1, s, w)
      else case requireBearerToken lib now s r1 of
             (Some rep, s') \<Rightarrow> (rep, s', w)
           | (None, s') \<Rightarrow> (case admin_handler ord (asDrain s) now w r1 of (rep, w') \<Rightarrow> (rep, s', w')))"


section \<open>Who may change what\<close>

text \<open>What a request asks for, done to the world: the one pool or controller it is about, or the drain.\<close>

inductive asked :: "bool \<Rightarrow> time \<Rightarrow> admin_req \<Rightarrow> admin_world \<Rightarrow> admin_world \<Rightarrow> bool" for drain now r w where
  asked_drain: "aqRoute r = RtDrain \<Longrightarrow> drain \<Longrightarrow> asked drain now r w (w\<lparr>awDrained := True\<rparr>)"
| asked_destroy: "aqRoute r = RtDestroy v \<Longrightarrow> Atoi v = Some vmid \<Longrightarrow> 0 < vmid \<Longrightarrow> poolFor w (aqScaleset r) = Some p \<Longrightarrow>
    asked drain now r w (set_pool w (aqScaleset r) (snd (ForceDestroy p now vmid)))"
| asked_preempt: "aqRoute r = RtPreempt v \<Longrightarrow> Atoi v = Some vmid \<Longrightarrow> 0 < vmid \<Longrightarrow> poolFor w (aqScaleset r) = Some p \<Longrightarrow>
    asked drain now r w (set_pool w (aqScaleset r) (snd (Preempt p now vmid)))"
| asked_promote: "aqRoute r = RtPromote profile \<Longrightarrow> canaryFor w (aqScaleset r) = Some c \<Longrightarrow>
    asked drain now r w (set_canary w (aqScaleset r) (snd (Promote c profile)))"

lemma parsed_request:
  assumes "parseVMIDAndPool w nm v = Inr (vmid, p)"
  shows "Atoi v = Some vmid" "0 < vmid" "poolFor w nm = Some p"
  using assms by (auto simp: parseVMIDAndPool_def poolOrError_def split: option.splits if_splits sum.splits)

lemma destroy_asked:
  assumes "aqRoute r = RtDestroy v" "handleDestroyVM now w (aqScaleset r) v = (rep, w')"
  shows "w' = w \<or> asked drain now r w w'"
proof (cases "parseVMIDAndPool w (aqScaleset r) v")
  case (Inr b)
  obtain vmid p where b: "b = (vmid, p)" by (cases b)
  then have "w' = set_pool w (aqScaleset r) (snd (ForceDestroy p now vmid))"
    using assms(2) Inr by (auto simp: handleDestroyVM_def split: prod.splits option.splits)
  then show ?thesis using asked_destroy [OF assms(1) parsed_request [OF Inr [unfolded b]]] by simp
qed (use assms in \<open>simp add: handleDestroyVM_def\<close>)

lemma preempt_asked:
  assumes "aqRoute r = RtPreempt v" "handlePreemptVM now w (aqScaleset r) v = (rep, w')"
  shows "w' = w \<or> asked drain now r w w'"
proof (cases "parseVMIDAndPool w (aqScaleset r) v")
  case (Inr b)
  obtain vmid p where b: "b = (vmid, p)" by (cases b)
  then have "w' = set_pool w (aqScaleset r) (snd (Preempt p now vmid))"
    using assms(2) Inr by (auto simp: handlePreemptVM_def split: prod.splits option.splits)
  then show ?thesis using asked_preempt [OF assms(1) parsed_request [OF Inr [unfolded b]]] by simp
qed (use assms in \<open>simp add: handlePreemptVM_def\<close>)

lemma promote_asked:
  assumes "aqRoute r = RtPromote profile" "handlePromoteTemplate w (aqScaleset r) profile = (rep, w')"
  shows "w' = w \<or> asked drain now r w w'"
proof (cases "canaryFor w (aqScaleset r)")
  case (Some c)
  then have "w' = w \<or> w' = set_canary w (aqScaleset r) (snd (Promote c profile))"
    using assms(2) by (auto simp: handlePromoteTemplate_def split: prod.splits option.splits if_splits)
  then show ?thesis using asked_promote [OF assms(1) Some] by auto
qed (use assms in \<open>auto simp: handlePromoteTemplate_def split: if_splits\<close>)

lemma handler_asked:
  assumes "admin_handler ord drain now w r = (rep, w')"
  shows "w' = w \<or> asked drain now r w w'"
proof (cases "aqRoute r")
  case (RtDestroy v)
  then show ?thesis using assms destroy_asked [OF RtDestroy] by (simp add: admin_handler_def)
next
  case (RtPreempt v)
  then show ?thesis using assms preempt_asked [OF RtPreempt] by (simp add: admin_handler_def)
next
  case (RtPromote v)
  then show ?thesis using assms promote_asked [OF RtPromote] by (simp add: admin_handler_def)
next
  case RtDrain
  then show ?thesis using assms asked_drain [OF RtDrain] by (auto simp: admin_handler_def handleDrain_def split: if_splits)
qed (use assms in \<open>auto simp: admin_handler_def\<close>)

lemma realIP_keeps [simp]:
  "aqRoute (realIP lib s r) = aqRoute r" "aqHeaders (realIP lib s r) = aqHeaders r" "aqScaleset (realIP lib s r) = aqScaleset r"
  by (simp_all add: realIP_def)

lemma token_of_realIP [simp]: "bearer_token (realIP lib s r) = bearer_token r"
  by (simp add: bearer_token_def)

lemma asked_realIP [simp]: "asked drain now (realIP lib s r) w w' \<longleftrightarrow> asked drain now r w w'"
  by (simp add: asked.simps)

text \<open>
  C8. Only the operator changes anything, and only what was asked for: if a request leaves the scale
  sets other than they were, this replica is the leader, a shared secret is set, the presented token
  has its hash, and the change is exactly the drain, the forced destroy, the preemption or the
  promotion that the route names. A request with another token is answered 401, or 429 when its
  address has used up its failures, and touches nothing but the counters.\<close>

theorem admin_change_authorised:
  assumes "admin_serve lib ord leader forward now s w r = (rep, s', w')"
  shows "(w' \<noteq> w \<longrightarrow> leader \<and> asSecret s \<noteq> '''' \<and> alSHA256 lib (bearer_token r) = alSHA256 lib (asSecret s) \<and>
            asked (asDrain s) now r w w') \<and>
         (leader \<and> asSecret s \<noteq> '''' \<and> alSHA256 lib (bearer_token r) \<noteq> alSHA256 lib (asSecret s) \<longrightarrow>
            hrStatus rep \<in> {401, 429} \<and> w' = w \<and> (\<exists>cache. s' = s\<lparr>asLimiters := cache\<rparr>))"
proof (cases "leader \<and> asSecret s \<noteq> '''' \<and> alSHA256 lib (bearer_token r) = alSHA256 lib (asSecret s)")
  case True
  then have "admin_handler ord (asDrain s) now w (realIP lib s r) = (rep, w')"
    using assms by (auto simp: admin_serve_def Let_def requireBearerToken_def split: prod.splits)
  from handler_asked [OF this] True show ?thesis by auto
next
  case False
  then show ?thesis using assms
    by (auto simp: admin_serve_def Let_def requireBearerToken_def denyUnauthorized_def split: prod.splits if_splits)
qed


definition ex_lib :: "(unit, unit, unit, string) admin_lib" where
  "ex_lib = \<lparr>alParsePrefix = (\<lambda>_. Some ()), alParseAddr = (\<lambda>_. Some ()), alContains = (\<lambda>_ _. False), alClientIP = (\<lambda>_ _. ''''),
     alNewLimiter = (), alAllow = (\<lambda>_ _. (True, ())), alSHA256 = id\<rparr>"

definition ex_drain :: admin_req where
  "ex_drain = \<lparr>aqRemote = ''10.0.0.9:4711'', aqHeaders = (\<lambda>k. if k = ''Authorization'' then [''Bearer s3cret''] else []), aqRoute = RtDrain,
     aqScaleset = ''''\<rparr>"

theorem admin_change_authorised_witness:
  "alSHA256 ex_lib (bearer_token ex_drain) = alSHA256 ex_lib ''s3cret'' \<and>
   asked True 0 ex_drain \<lparr>awScalesets = [''ci''], awPools = Map.empty, awCanaries = Map.empty, awDrained = False\<rparr>
     \<lparr>awScalesets = [''ci''], awPools = Map.empty, awCanaries = Map.empty, awDrained = True\<rparr>"
proof -
  let ?s = "\<lparr>asSecret = ''s3cret'', asTrusted = [], asDrain = True, asLimiters = []\<rparr> :: (unit, unit) admin_server"
  let ?w = "\<lparr>awScalesets = [''ci''], awPools = Map.empty, awCanaries = Map.empty, awDrained = False\<rparr>"
  have "admin_serve ex_lib id True (\<lambda>_. answer 502) 0 ?s ?w ex_drain = (answer 202, ?s, ?w\<lparr>awDrained := True\<rparr>)"
    by (simp add: admin_serve_def realIP_def peerIsTrustedProxy_def requireBearerToken_def bearer_token_def admin_handler_def handleDrain_def
        ex_lib_def ex_drain_def)
  from admin_change_authorised [OF this] show ?thesis by simp
qed

section \<open>Where the API does not do what it says\<close>

text \<open>
  The limiter answers failures; it does not slow guessing. A request with the right token passes
  whatever its address has spent before, so every guess is still compared with the secret.
\<close>

theorem guesses_not_throttled:
  assumes "asSecret s \<noteq> ''''" "alSHA256 lib (bearer_token r) = alSHA256 lib (asSecret s)"
  shows "requireBearerToken lib now (s\<lparr>asLimiters := cache\<rparr>) r = (None, s\<lparr>asLimiters := cache\<rparr>)"
  using assms by (simp add: requireBearerToken_def)

text \<open>
  During an election the pool pointer of a configured scale set is nil. The plain routes then answer
  503 and ask to retry; the namespaced ones answer 404, as if the scale set did not exist.
\<close>

theorem namespaced_handover_not_found:
  assumes "nm \<in> set (awScalesets w)" "nm \<noteq> ''''" "awPools w nm = None"
  shows "poolOrError w nm = Inl (answer 404) \<and> (awScalesets w = [nm] \<longrightarrow> poolOrError w '''' = Inl (answer_retry 503 1))"
  using assms by (simp add: poolOrError_def poolFor_def target_def)

text \<open>
  A request that reaches a standby through a trusted proxy loses its client: the standby replaces the
  peer by the client's address without a port, which the forwarder cannot split, so it sends no
  X-Forwarded-For, and the leader meters all such clients under the standby's own address.
\<close>

theorem proxied_client_lost:
  assumes "peerIsTrustedProxy lib s (aqRemote r)" "alClientIP lib (aqHeaders r) (aqRemote r) = ip" "ip \<noteq> ''''" "bare_host ip"
    and "\<And>h a. h ''X-Forwarded-For'' = [] \<Longrightarrow> h ''X-Real-Ip'' = [] \<Longrightarrow> h ''True-Client-Ip'' = [] \<Longrightarrow> alClientIP lib h a = ''''"
    and "out = rewrite tls lookup \<lparr>frHeaders = aqHeaders r, frRemote = aqRemote (realIP lib s r), frHost = hst, frTLS = t\<rparr>"
  shows "aqRemote (realIP lib s' (r\<lparr>aqRemote := standby, aqHeaders := foHeaders out\<rparr>)) = standby"
proof -
  have "aqRemote (realIP lib s r) = ip" using assms(1-3) by (simp add: realIP_def)
  then have "foHeaders out ''X-Forwarded-For'' = [] \<and> foHeaders out ''X-Real-Ip'' = [] \<and> foHeaders out ''True-Client-Ip'' = []"
    using bare_host_unsplit [OF assms(4)] by (simp add: assms(6) rewrite_def SetXForwarded_def proxy_scrub_def Let_def split: sum.split)
  then show ?thesis using assms(5) by (simp add: realIP_def)
qed

end
