(* ===== verification/GithubAuth.thy ===== *)
theory GithubAuth
  imports Provisioner GhReconciler FilePerm
begin

text \<open>
  Credentials and endpoints (\<^verbatim>\<open>internal/githubauth\<close>): how the URL of a scope is found, what the two
  kinds of credential are checked for, and the labels of the rate-limit transport. The clients
  themselves are third-party; what is passed to them is modelled.
\<close>

section \<open>Scopes and endpoints\<close>

record endpointConfig =
  epConfigURL :: string
  epConfigBaseURL :: string
  epRESTBaseURL :: string

definition trim_slashes :: "string \<Rightarrow> string" where
  "trim_slashes s = rev (dropWhile (\<lambda>ch. ch = CHR ''/'') (rev s))"

definition resolveScaleSetConfigURL :: "endpointConfig \<Rightarrow> GhScope \<Rightarrow> string" where
  "resolveScaleSetConfigURL e s =
     (if epConfigURL e \<noteq> '''' then epConfigURL e
      else if epConfigBaseURL e \<noteq> '''' then trim_slashes (epConfigBaseURL e) @ ''/'' @ PathSegment s
      else Scope_URL s)"

datatype auth_error =
    AuthErrExclusive | AuthErrBaseURL | AuthErrRESTURL | AuthErrRESTSlash | AuthErrToken | AuthErrClientID | AuthErrInstallation
  | AuthErrKey | AuthErrNotPEM | AuthErrPath | AuthErrOpen | AuthErrStat | AuthErrPerm perm_error | AuthErrRead | AuthErrScope gh_error
  | AuthErrNumericAppID | AuthErrTransport | AuthErrClient | AuthErrNilConfig | AuthErrMode string

text \<open>\<open>parse\<close> is \<^verbatim>\<open>url.Parse\<close>: scheme and host of a URL, if it parses.\<close>

definition validateEndpointConfig :: "(string \<Rightarrow> (string \<times> string) option) \<Rightarrow> endpointConfig \<Rightarrow> auth_error option" where
  "validateEndpointConfig parse e =
     (if epConfigURL e \<noteq> '''' \<and> epConfigBaseURL e \<noteq> '''' then Some AuthErrExclusive
      else if epConfigBaseURL e \<noteq> '''' \<and>
              (case parse (epConfigBaseURL e) of None \<Rightarrow> True | Some (scheme, host) \<Rightarrow> scheme = '''' \<or> host = '''')
      then Some AuthErrBaseURL
      else if epRESTBaseURL e \<noteq> '''' \<and> parse (epRESTBaseURL e) = None then Some AuthErrRESTURL
      else if epRESTBaseURL e \<noteq> '''' \<and> last (epRESTBaseURL e) \<noteq> CHR ''/'' then Some AuthErrRESTSlash
      else None)"

section \<open>Credentials\<close>

datatype auth = PatAuth string endpointConfig | AppAuth string int string endpointConfig

definition NewPATWithConfig :: "(string \<Rightarrow> (string \<times> string) option) \<Rightarrow> string \<Rightarrow> endpointConfig \<Rightarrow> auth_error + auth" where
  "NewPATWithConfig parse token e =
     (if token = '''' then Inl AuthErrToken
      else case validateEndpointConfig parse e of Some er \<Rightarrow> Inl er | None \<Rightarrow> Inr (PatAuth token e))"

definition NewAppWithConfig ::
  "(string \<Rightarrow> (string \<times> string) option) \<Rightarrow> string \<Rightarrow> int \<Rightarrow> string \<Rightarrow> endpointConfig \<Rightarrow> auth_error + auth" where
  "NewAppWithConfig parse clientID installationID pem e =
     (if clientID = '''' then Inl AuthErrClientID
      else if installationID = 0 then Inl AuthErrInstallation
      else if length pem = 0 then Inl AuthErrKey
      else if \<not> Contains pem ''BEGIN'' then Inl AuthErrNotPEM
      else case validateEndpointConfig parse e of Some er \<Rightarrow> Inl er | None \<Rightarrow> Inr (AppAuth clientID installationID pem e))"

text \<open>The key file as it answers: opening, \<^verbatim>\<open>fstat\<close> on the descriptor, reading from it.\<close>

record key_file =
  kfOpen :: bool
  kfStat :: "file_info option"
  kfRead :: "string option"

definition NewAppFromFileWithConfig ::
  "(string \<Rightarrow> (string \<times> string) option) \<Rightarrow> process_ids \<Rightarrow> (string \<Rightarrow> key_file) \<Rightarrow> string \<Rightarrow> int \<Rightarrow> endpointConfig \<Rightarrow> string \<Rightarrow>
    auth_error + auth" where
  "NewAppFromFileWithConfig parse pr fs clientID installationID e pemPath =
     (if pemPath = '''' then Inl AuthErrPath
      else let f = fs pemPath in
        if \<not> kfOpen f then Inl AuthErrOpen
        else case kfStat f of
               None \<Rightarrow> Inl AuthErrStat
             | Some info \<Rightarrow>
                 (case CheckAccess pr info of
                    Some er \<Rightarrow> Inl (AuthErrPerm er)
                  | None \<Rightarrow>
                      (case kfRead f of
                         None \<Rightarrow> Inl AuthErrRead
                       | Some pem \<Rightarrow> NewAppWithConfig parse clientID installationID pem e)))"

fun auth_endpoint :: "auth \<Rightarrow> endpointConfig" where
  "auth_endpoint (PatAuth token e) = e"
| "auth_endpoint (AppAuth clientID inst pem e) = e"

text \<open>The URL the scale set client is built with; \<open>libOK\<close>: the library builds it.\<close>

definition NewScaleSetClient :: "bool \<Rightarrow> auth \<Rightarrow> GhScope \<Rightarrow> auth_error + string" where
  "NewScaleSetClient libOK a s =
     (case Scope_Validate s of
        Some er \<Rightarrow> Inl (AuthErrScope er)
      | None \<Rightarrow> if libOK then Inr (resolveScaleSetConfigURL (auth_endpoint a) s) else Inl AuthErrClient)"

text \<open>The REST client's base URL, empty for the default.\<close>

fun NewRESTClient :: "bool \<Rightarrow> bool \<Rightarrow> auth \<Rightarrow> auth_error + string" where
  "NewRESTClient transportOK libOK (PatAuth token e) = (if libOK then Inr (epRESTBaseURL e) else Inl AuthErrClient)"
| "NewRESTClient transportOK libOK (AppAuth clientID inst pem e) =
     (if Atoi clientID = None then Inl AuthErrNumericAppID
      else if \<not> transportOK then Inl AuthErrTransport
      else if libOK then Inr (epRESTBaseURL e) else Inl AuthErrClient)"

text \<open>From the configuration (config.go, app.go); a mode whose block is missing dereferences nil.\<close>

definition Issuer :: "GitHubAppConfig \<Rightarrow> string" where
  "Issuer g = (if gaClientID g \<noteq> '''' then gaClientID g else if gaAppID g > 0 then itoa (gaAppID g) else '''')"

definition buildGitHubAuth ::
  "(string \<Rightarrow> (string \<times> string) option) \<Rightarrow> process_ids \<Rightarrow> (string \<Rightarrow> key_file) \<Rightarrow> GitHubConfig \<Rightarrow> auth_error + auth" where
  "buildGitHubAuth parse pr fs g =
     (if gcAuthMode g = ''pat'' then
        (case gcPAT g of
           None \<Rightarrow> Inl AuthErrNilConfig
         | Some pat \<Rightarrow> NewPATWithConfig parse (gpToken pat)
             \<lparr>epConfigURL = gpConfigURL pat, epConfigBaseURL = gpConfigBaseURL pat, epRESTBaseURL = ''''\<rparr>)
      else if gcAuthMode g = ''app'' then
        (case gcApp g of
           None \<Rightarrow> Inl AuthErrNilConfig
         | Some app \<Rightarrow> NewAppFromFileWithConfig parse pr fs (Issuer app) (gaInstallationID app)
             \<lparr>epConfigURL = gaConfigURL app, epConfigBaseURL = gaConfigBaseURL app, epRESTBaseURL = gaRESTBaseURL app\<rparr>
             (gaPrivateKeyPath app))
      else Inl (AuthErrMode (gcAuthMode g)))"

section \<open>The transport's labels\<close>

definition endpointGroup :: "string \<Rightarrow> string" where
  "endpointGroup path =
     (if Contains path ''/actions/runners'' then ''runners''
      else if Contains path ''/actions/jobs'' then ''jobs''
      else if Contains path ''/actions/runs'' then ''runs''
      else if Contains path ''/rate_limit'' then ''rate_limit''
      else ''other'')"

definition statusClass :: "int \<Rightarrow> string" where
  "statusClass code =
     (if code \<ge> 200 \<and> code < 300 then ''2xx''
      else if code \<ge> 300 \<and> code < 400 then ''3xx''
      else if code \<ge> 400 \<and> code < 500 then ''4xx''
      else if code \<ge> 500 then ''5xx''
      else ''unknown'')"

datatype rate_obs = ObserveCall string string | ObserveRateLimit int

text \<open>One call: the outcome of the transport below, as status and the remaining-calls header.\<close>

definition RoundTrip :: "string \<Rightarrow> (int \<times> string) option \<Rightarrow> rate_obs list" where
  "RoundTrip path resp =
     (case resp of
        None \<Rightarrow> [ObserveCall (endpointGroup path) ''transport_error'']
      | Some (code, v) \<Rightarrow>
          ObserveCall (endpointGroup path) (statusClass code) #
          (if v \<noteq> '''' then (case Atoi v of Some n \<Rightarrow> [ObserveRateLimit n] | None \<Rightarrow> []) else []))"


section \<open>Every scope has its own URL\<close>

lemma valid_scope:
  assumes "Scope_Validate s = None"
  shows "scOrg s = '''' \<or> scRepo s = ''''" "scOrg s = '''' \<Longrightarrow> CHR ''/'' \<in> set (scRepo s)"
proof -
  show "scOrg s = '''' \<or> scRepo s = ''''" using assms by (auto simp: Scope_Validate_def Let_def split: if_splits)
  assume "scOrg s = ''''"
  then have "length (Split_on CHR ''/'' (scRepo s)) = 2"
    using assms by (auto simp: Scope_Validate_def Let_def split: if_splits)
  then show "CHR ''/'' \<in> set (scRepo s)" using Split_on_last [of "CHR ''/''" "scRepo s"] by (cases "CHR ''/'' \<in> set (scRepo s)") simp_all
qed

lemma PathSegment_inj:
  assumes "Scope_Validate a = None" "Scope_Validate b = None" "CHR ''/'' \<notin> set (scOrg a)" "CHR ''/'' \<notin> set (scOrg b)"
    and "PathSegment a = PathSegment b"
  shows "scOrg a = scOrg b \<and> scRepo a = scRepo b"
  using assms(3-5) valid_scope [OF assms(1)] valid_scope [OF assms(2)] by (auto simp: PathSegment_def split: if_splits)

lemma config_URL_inj:
  assumes "epConfigURL e = ''''" "resolveScaleSetConfigURL e a = resolveScaleSetConfigURL e b"
  shows "PathSegment a = PathSegment b"
  using assms by (auto simp: resolveScaleSetConfigURL_def Scope_URL_def split: if_splits)

lemma client_URL:
  assumes "NewScaleSetClient ok a s = Inr u"
  shows "Scope_Validate s = None" "u = resolveScaleSetConfigURL (auth_endpoint a) s"
  using assms by (simp_all add: NewScaleSetClient_def split: option.splits if_splits)

text \<open>Clients of one credential with no fixed URL tell their scopes apart.\<close>

lemma client_URL_inj:
  assumes "epConfigURL (auth_endpoint a) = ''''"
    and "NewScaleSetClient ok a s = Inr u" "NewScaleSetClient ok' a t = Inr u"
    and "CHR ''/'' \<notin> set (scOrg s)" "CHR ''/'' \<notin> set (scOrg t)"
  shows "scOrg s = scOrg t \<and> scRepo s = scRepo t"
proof (rule PathSegment_inj [OF client_URL(1) [OF assms(2)] client_URL(1) [OF assms(3)] assms(4,5)])
  have "resolveScaleSetConfigURL (auth_endpoint a) s = resolveScaleSetConfigURL (auth_endpoint a) t"
    by (rule trans [OF client_URL(2) [OF assms(2), symmetric] client_URL(2) [OF assms(3)]])
  with assms(1) show "PathSegment s = PathSegment t" by (rule config_URL_inj)
qed

text \<open>A key file is read only after the check on the descriptor it is read from.\<close>

lemma key_file_checked:
  assumes "NewAppFromFileWithConfig parse pr fs clientID inst e path = Inr a"
  obtains info where "kfStat (fs path) = Some info" "CheckAccess pr info = None"
  using assms by (auto simp: NewAppFromFileWithConfig_def Let_def split: if_splits option.splits)

text \<open>
  An app that is configured by its client ID, which is not a number, gets a scale set client and no
  REST client, so its workers never start.
\<close>

theorem client_id_has_no_REST_client:
  assumes "NewAppWithConfig parse clientID inst pem e = Inr a" "Atoi clientID = None"
  shows "NewRESTClient transportOK libOK a = Inl AuthErrNumericAppID \<and>
    (Scope_Validate s = None \<longrightarrow> NewScaleSetClient True a s = Inr (resolveScaleSetConfigURL e s))"
  using assms by (auto simp: NewAppWithConfig_def NewScaleSetClient_def split: if_splits option.splits)

end
