(* ===== verification/Replica.thy ===== *)
theory Replica
  imports App AdminApi
begin

text \<open>
  One replica: its readiness (\<^verbatim>\<open>internal/observability\<close>, the health tracker), the coordinator built from
  the configuration and the callbacks that tie leadership, control plane and readiness together
  (\<^verbatim>\<open>internal/app\<close>).
\<close>

section \<open>Health (observability.go)\<close>

record scalesetReady =
  listenerConnected :: bool
  recoveryDone :: bool

record Health =
  hLeader :: bool
  proxmoxLastSeen :: "time option"
  proxmoxMaxStale :: duration
  hScalesets :: "(string \<times> scalesetReady) list"

definition NewHealth :: "duration \<Rightarrow> Health" where
  "NewHealth maxStale = \<lparr>hLeader = False, proxmoxLastSeen = None, proxmoxMaxStale = (if maxStale = 0 then 30 * second else maxStale),
     hScalesets = []\<rparr>"

definition MarkProxmoxOK :: "time \<Rightarrow> Health \<Rightarrow> Health" where
  "MarkProxmoxOK now h = h\<lparr>proxmoxLastSeen := Some now\<rparr>"

definition RegisterScaleset :: "Health \<Rightarrow> string \<Rightarrow> Health" where
  "RegisterScaleset h nm =
     (if map_of (hScalesets h) nm \<noteq> None then h
      else h\<lparr>hScalesets := hScalesets h @ [(nm, \<lparr>listenerConnected = False, recoveryDone = False\<rparr>)]\<rparr>)"

definition on_scaleset :: "(scalesetReady \<Rightarrow> scalesetReady) \<Rightarrow> string \<Rightarrow> Health \<Rightarrow> Health" where
  "on_scaleset f nm h = h\<lparr>hScalesets := map (\<lambda>(n, r). (n, if n = nm then f r else r)) (hScalesets h)\<rparr>"

definition MarkScalesetListenerConnected :: "string \<Rightarrow> Health \<Rightarrow> Health" where
  "MarkScalesetListenerConnected nm h = on_scaleset (\<lambda>r. r\<lparr>listenerConnected := True\<rparr>) nm h"

definition MarkScalesetRecoveryDone :: "string \<Rightarrow> Health \<Rightarrow> Health" where
  "MarkScalesetRecoveryDone nm h = on_scaleset (\<lambda>r. r\<lparr>recoveryDone := True\<rparr>) nm h"

definition ClearScalesetState :: "string \<Rightarrow> Health \<Rightarrow> Health" where
  "ClearScalesetState nm h = on_scaleset (\<lambda>r. r\<lparr>listenerConnected := False, recoveryDone := False\<rparr>) nm h"

definition MarkLeader :: "bool \<Rightarrow> Health \<Rightarrow> Health" where
  "MarkLeader leader h = h\<lparr>hLeader := leader\<rparr>"

definition Ready :: "time \<Rightarrow> Health \<Rightarrow> bool" where
  "Ready now h =
     (case proxmoxLastSeen h of
        None \<Rightarrow> False
      | Some seen \<Rightarrow>
          if now - seen > proxmoxMaxStale h then False
          else if hLeader h then
            (if length (hScalesets h) = 0 then False
             else list_all (\<lambda>(_, r). listenerConnected r \<and> recoveryDone r) (hScalesets h))
          else True)"

definition readyz :: "time \<Rightarrow> Health \<Rightarrow> int" where
  "readyz now h = (if Ready now h then 200 else 503)"

section \<open>The coordinator from the configuration (app.go)\<close>

datatype coordinator = CoordStandalone string | CoordRaft raftCoord

definition raft_config :: "Config \<Rightarrow> string \<Rightarrow> int \<Rightarrow> string option \<Rightarrow> RaftConfig" where
  "raft_config c host port test =
     (let r = cfRaft c in
      \<lparr>rfNodeID = raNodeID r, rfBindAddr = raBindAddr r, rfAdvertiseAddr = raAdvertiseAddr r, rfDataDir = raDataDir r, rfAdminPort = port,
       rfAdminHost = host, rfPeers = map (\<lambda>p. \<lparr>rpNode = rpNodeID p, rpRaft = rpRaftAddr p, rpHTTP = rpHTTPAddr p\<rparr>) (raPeers r),
       rfBootstrap = raBootstrap r, rfHeartbeatTimeout = durD (raHeartbeatTimeout r), rfElectionTimeout = durD (raElectionTimeout r),
       rfCommitTimeout = durD (raCommitTimeout r), rfTLS = (raTLS r \<noteq> None), rfTest = test\<rparr>)"

datatype coord_error = CoordPort string | CoordTLS | CoordRaftError raft_error

text \<open>\<open>tlsOK\<close>: the certificates named in the configuration load.\<close>

definition buildCoordinator ::
  "raft_timing \<Rightarrow> raft_env \<Rightarrow> bool \<Rightarrow> string option \<Rightarrow> Config \<Rightarrow> coord_error + coordinator" where
  "buildCoordinator dflt e tlsOK test c =
     (if cfClusterMode c \<noteq> ''raft'' then Inr (CoordStandalone (adHTTPAddr (cfAdminAPI c)))
      else case portFromAddr (adHTTPAddr (cfAdminAPI c)) of
             Inl er \<Rightarrow> Inl (CoordPort er)
           | Inr port \<Rightarrow>
               if raTLS (cfRaft c) \<noteq> None \<and> \<not> tlsOK then Inl CoordTLS
               else case fst (NewRaft dflt e (raft_config c (fst (splitHostPort (adHTTPAddr (cfAdminAPI c)))) port test)) of
                      Inl er \<Rightarrow> Inl (CoordRaftError er)
                    | Inr k \<Rightarrow> Inr (CoordRaft k))"

text \<open>Whether the admin API serves a request itself.\<close>

definition buildAdminGate :: "Config \<Rightarrow> bool \<Rightarrow> bool" where
  "buildAdminGate c coordLeader = (if cfClusterMode c = ''standalone'' then True else coordLeader)"

lemma checked_peers:
  "check_peers i seen ps = None \<Longrightarrow>
     validate_peers self seen found (map (\<lambda>p. \<lparr>rpNode = rpNodeID p, rpRaft = rpRaftAddr p, rpHTTP = rpHTTPAddr p\<rparr>) ps) =
       Inr (found \<or> self \<in> rpNodeID ` set ps)"
  by (induction ps arbitrary: i seen found) (auto split: if_splits)

lemma resolved_cluster:
  assumes "resolveCluster e c = Inr c'" "cfClusterMode c' = ''raft''"
  shows "raNodeID (cfRaft c') \<noteq> '''' \<and> raBindAddr (cfRaft c') \<noteq> '''' \<and> raPeers (cfRaft c') \<noteq> [] \<and> check_peers 0 {} (raPeers (cfRaft c')) = None \<and>
    raNodeID (cfRaft c') \<in> rpNodeID ` set (raPeers (cfRaft c')) \<and> raDataDir (cfRaft c') \<noteq> ''''"
  using assms by (auto simp: resolveCluster_def Let_def checks_None simp del: checks.simps split: if_splits option.splits)

text \<open>A configuration that loads in raft mode is one the coordinator accepts.\<close>

theorem accepted_cluster_valid:
  assumes "loadInto e c0 = Inr c" "cfClusterMode c = ''raft''"
  shows "RaftConfig_validate (raft_config c host port None) = None"
proof -
  obtain c1 where "resolveCluster e c1 = Inr c"
    using loadInto_Inr(1) [OF assms(1)] by (auto simp: Resolve_config_def split: option.splits sum.splits)
  note r = resolved_cluster [OF this assms(2)]
  then have "check_peers 0 {} (raPeers (cfRaft c)) = None" by simp
  from checked_peers [OF this, of "raNodeID (cfRaft c)" False] r show ?thesis
    by (simp add: RaftConfig_validate_def raft_config_def Let_def)
qed


section \<open>Callbacks and the run of a replica (app.go)\<close>

definition OnElected :: "Health \<Rightarrow> Health" where
  "OnElected h = MarkLeader True h"

definition OnDeposed :: "string list \<Rightarrow> Health \<Rightarrow> Health" where
  "OnDeposed sets h = foldl (\<lambda>h nm. ClearScalesetState nm h) (MarkLeader False h) sets"

text \<open>A worker that has adopted its VMs, whether the listing succeeded or not, and one whose session is open.\<close>

definition worker_recovered :: "time \<Rightarrow> string \<Rightarrow> Health \<Rightarrow> Health" where
  "worker_recovered now nm h = MarkProxmoxOK now (MarkScalesetRecoveryDone nm h)"

text \<open>The pings of the refresher, each with its time and whether it succeeded.\<close>

definition runHealthRefresher :: "(time \<times> bool) list \<Rightarrow> Health \<Rightarrow> Health" where
  "runHealthRefresher pings h = foldl (\<lambda>h (now, ok). if ok then MarkProxmoxOK now h else h) h pings"

text \<open>
  What happens in a replica: an event of the coordinator, the start of a control plane, its workers'
  progress, a ping. A plane acts only while its goroutine runs, with a cancelled context or not.
  \<^verbatim>\<open>OnDeposed\<close> runs when the coordinator's handler comes to it. \<open>rpLog\<close> records which plane reported what.
\<close>

datatype mark = Recovered | Connected

datatype replica_event = EvRaft raft_event | EvStart nat | EvMark nat mark string time | EvPing time bool

record replica =
  rpRun :: raft_run
  rpHealth :: Health
  rpLog :: "(nat \<times> mark \<times> string) list"

definition running :: "raft_run \<Rightarrow> nat \<Rightarrow> bool" where
  "running s i \<longleftrightarrow> i \<in> plId ` set (rnPlanes s)"

fun replica_step :: "duration \<Rightarrow> string list \<Rightarrow> replica \<Rightarrow> replica_event \<Rightarrow> replica" where
  "replica_step wait sets x (EvRaft e) =
     (let s' = raft_step wait both_callbacks (rpRun x) e in
      x\<lparr>rpRun := s', rpHealth := (if rnDeposed s' = rnDeposed (rpRun x) then rpHealth x else OnDeposed sets (rpHealth x))\<rparr>)"
| "replica_step wait sets x (EvStart i) = (if running (rpRun x) i then x\<lparr>rpHealth := OnElected (rpHealth x)\<rparr> else x)"
| "replica_step wait sets x (EvMark i k nm now) =
     (if \<not> running (rpRun x) i then x
      else x\<lparr>rpHealth := (case k of Recovered \<Rightarrow> worker_recovered now nm (rpHealth x) | Connected \<Rightarrow> MarkScalesetListenerConnected nm (rpHealth x)),
             rpLog := (i, k, nm) # rpLog x\<rparr>)"
| "replica_step wait sets x (EvPing now ok) = x\<lparr>rpHealth := runHealthRefresher [(now, ok)] (rpHealth x)\<rparr>"

definition replica_init :: "string list \<Rightarrow> replica" where
  "replica_init sets = \<lparr>rpRun = raft_init, rpHealth = foldl RegisterScaleset (NewHealth (30 * second)) sets, rpLog = []\<rparr>"

definition replica_Run :: "duration \<Rightarrow> string list \<Rightarrow> replica_event list \<Rightarrow> replica" where
  "replica_Run wait sets es = foldl (replica_step wait sets) (replica_init sets) es"

text \<open>No wait for a plane is cut short by its timer.\<close>

definition prompt :: "replica_event \<Rightarrow> bool" where
  "prompt ev \<longleftrightarrow> ev \<noteq> EvRaft WaitExpires"

section \<open>Readiness belongs to the present leadership\<close>

lemma on_scaleset_fields [simp]:
  "hLeader (on_scaleset f nm h) = hLeader h" "proxmoxLastSeen (on_scaleset f nm h) = proxmoxLastSeen h"
  by (simp_all add: on_scaleset_def)

lemma on_scaleset_mem:
  "(n, r) \<in> set (hScalesets (on_scaleset f nm h)) \<longleftrightarrow> (\<exists>r0. (n, r0) \<in> set (hScalesets h) \<and> r = (if n = nm then f r0 else r0))"
  by (force simp: on_scaleset_def)

lemma on_scaleset_names [simp]: "map fst (hScalesets (on_scaleset f nm h)) = map fst (hScalesets h)"
  by (simp add: on_scaleset_def case_prod_beta)

lemma cleared_all:
  "foldl (\<lambda>h nm. ClearScalesetState nm h) h sets =
     h\<lparr>hScalesets := map (\<lambda>(n, r). (n, if n \<in> set sets then r\<lparr>listenerConnected := False, recoveryDone := False\<rparr> else r)) (hScalesets h)\<rparr>"
proof (induction sets arbitrary: h)
  case (Cons a sets)
  let ?clr = "\<lambda>r. r\<lparr>listenerConnected := False, recoveryDone := False\<rparr>"
  have "map (\<lambda>(n, r). (n, if n \<in> set sets then ?clr r else r)) (map (\<lambda>(n, r). (n, if n = a then ?clr r else r)) (hScalesets h)) =
      map (\<lambda>(n, r). (n, if n \<in> set (a # sets) then ?clr r else r)) (hScalesets h)" by auto
  moreover have "ClearScalesetState a h = h\<lparr>hScalesets := map (\<lambda>(n, r). (n, if n = a then ?clr r else r)) (hScalesets h)\<rparr>"
    by (simp add: ClearScalesetState_def on_scaleset_def)
  ultimately show ?case by (simp add: Cons.IH del: map_map)
qed (auto simp: case_prod_beta)

lemma deposed_flags:
  "hLeader (OnDeposed sets h) = False" "map fst (hScalesets (OnDeposed sets h)) = map fst (hScalesets h)"
  "(n, r) \<in> set (hScalesets (OnDeposed sets h)) \<Longrightarrow> n \<in> set sets \<Longrightarrow> \<not> listenerConnected r \<and> \<not> recoveryDone r"
  by (auto simp: OnDeposed_def cleared_all MarkLeader_def split: if_splits)


definition reported :: "raft_run \<Rightarrow> (nat \<times> mark \<times> string) list \<Rightarrow> mark \<Rightarrow> string \<Rightarrow> bool" where
  "reported s rlog k nm \<longleftrightarrow> open_term s \<and> (\<exists>i. rnNext s = Suc i \<and> (i, k, nm) \<in> set rlog)"

definition flags_reported :: "replica \<Rightarrow> bool" where
  "flags_reported x \<longleftrightarrow> (\<forall>(n, r) \<in> set (hScalesets (rpHealth x)).
     (listenerConnected r \<longrightarrow> reported (rpRun x) (rpLog x) Connected n) \<and> (recoveryDone r \<longrightarrow> reported (rpRun x) (rpLog x) Recovered n))"

text \<open>Between two leaderships no plane runs and the tracker is clear; within one, only its own plane runs.\<close>

definition replica_inv :: "string list \<Rightarrow> replica \<Rightarrow> bool" where
  "replica_inv sets x \<longleftrightarrow> raft_inv (rpRun x) \<and> set (map fst (hScalesets (rpHealth x))) = set sets \<and>
     (\<forall>p \<in> set (rnPlanes (rpRun x)). rnNext (rpRun x) = Suc (plId p) \<and> open_term (rpRun x) \<and> rnPc (rpRun x) \<noteq> AtDeposed) \<and>
     flags_reported x \<and> (hLeader (rpHealth x) \<longrightarrow> open_term (rpRun x))"

lemma same_term_inv:
  assumes "replica_inv sets x" "raft_inv s'" "open_term s' = open_term (rpRun x)" "rnNext s' = rnNext (rpRun x)"
    and "plId ` set (rnPlanes s') \<subseteq> plId ` set (rnPlanes (rpRun x))" "rnPlanes s' \<noteq> [] \<longrightarrow> rnPc s' \<noteq> AtDeposed"
  shows "replica_inv sets (x\<lparr>rpRun := s'\<rparr>)"
proof -
  have "rnNext s' = Suc (plId p) \<and> open_term s' \<and> rnPc s' \<noteq> AtDeposed" if p: "p \<in> set (rnPlanes s')" for p
  proof -
    obtain q where "q \<in> set (rnPlanes (rpRun x))" "plId q = plId p" using assms(5) p by force
    moreover have "rnPlanes s' \<noteq> []" using p by auto
    ultimately show ?thesis using assms(1,3,4,6) by (auto simp: replica_inv_def)
  qed
  then show ?thesis using assms(1-4) by (simp add: replica_inv_def flags_reported_def reported_def)
qed

lemma elected_inv:
  assumes "replica_inv sets x" "rnPc (rpRun x) = AtElect"
  shows "replica_inv sets (replica_step wait sets x (EvRaft Proceed))"
proof -
  let ?s = "rpRun x"
  have n: "\<not> open_term ?s" using assms(2) by (simp add: open_term_def)
  have ri: "raft_inv (handle wait both_callbacks ?s)" using assms(1) handle_inv by (simp add: replica_inv_def)
  have idle: "rnPlanes ?s = []" using n assms(1) by (cases "rnPlanes ?s") (auto simp: replica_inv_def)
  have clear: "\<forall>(n, r) \<in> set (hScalesets (rpHealth x)). \<not> listenerConnected r \<and> \<not> recoveryDone r" "\<not> hLeader (rpHealth x)"
    using n assms(1) by (auto simp: replica_inv_def flags_reported_def reported_def)
  have "rnLeader ?s" using assms by (auto simp: replica_inv_def raft_inv_def)
  then have "open_term (handle wait both_callbacks ?s)" using assms(2) by (simp add: handle_def open_term_def)
  then show ?thesis using assms ri idle clear
    by (auto simp: replica_inv_def flags_reported_def handle_def both_callbacks_def)
qed

lemma deposed_replica_inv:
  assumes "replica_inv sets x" "rnPc (rpRun x) = AtDeposed"
  shows "replica_inv sets (replica_step wait sets x (EvRaft Proceed))"
proof -
  let ?h = "OnDeposed sets (rpHealth x)"
  have ri: "raft_inv (handle wait both_callbacks (rpRun x))" using assms(1) handle_inv by (simp add: replica_inv_def)
  have idle: "rnPlanes (rpRun x) = []" using assms by (cases "rnPlanes (rpRun x)") (auto simp: replica_inv_def)
  have "\<not> listenerConnected r \<and> \<not> recoveryDone r" if nr: "(n, r) \<in> set (hScalesets ?h)" for n r
  proof -
    have "n \<in> set (map fst (hScalesets ?h))" using nr by force
    then have "n \<in> set sets" using assms by (simp add: deposed_flags(2) replica_inv_def del: set_map)
    then show ?thesis by (rule deposed_flags(3) [OF nr])
  qed
  moreover have "set (map fst (hScalesets ?h)) = set sets" using assms(1) deposed_flags(2) [of sets "rpHealth x"] by (simp add: replica_inv_def)
  moreover have "replica_step wait sets x (EvRaft Proceed) = x\<lparr>rpRun := handle wait both_callbacks (rpRun x), rpHealth := ?h\<rparr>"
    using assms(2) by (simp add: handle_def)
  ultimately show ?thesis using ri idle assms(2) deposed_flags(1) [of sets "rpHealth x"]
    by (auto simp: replica_inv_def flags_reported_def handle_def simp del: set_map)
qed

lemma observed_replica_inv:
  assumes "replica_inv sets x"
  shows "replica_inv sets (x\<lparr>rpRun := raft_step wait both_callbacks (rpRun x) (Observe isLeader)\<rparr>)"
proof (rule same_term_inv [OF assms raft_step_inv])
  show r: "raft_inv (rpRun x)" using assms by (simp add: replica_inv_def)
  show "open_term (raft_step wait both_callbacks (rpRun x) (Observe isLeader)) = open_term (rpRun x)"
    using r by (auto simp: handle_observed_def open_term_def raft_inv_def)
qed (use assms in \<open>auto simp: handle_observed_def replica_inv_def\<close>)

lemma proceed_inv:
  assumes "replica_inv sets x"
  shows "replica_inv sets (replica_step wait sets x (EvRaft Proceed))"
proof -
  let ?s = "rpRun x"
  have r: "raft_inv ?s" using assms by (simp add: replica_inv_def)
  have same: "replica_inv sets (replica_step wait sets x (EvRaft Proceed))"
    if "rnDeposed (handle wait both_callbacks ?s) = rnDeposed ?s" "open_term (handle wait both_callbacks ?s) = open_term ?s"
      "rnNext (handle wait both_callbacks ?s) = rnNext ?s" "plId ` set (rnPlanes (handle wait both_callbacks ?s)) \<subseteq> plId ` set (rnPlanes ?s)"
      "rnPlanes (handle wait both_callbacks ?s) \<noteq> [] \<longrightarrow> rnPc (handle wait both_callbacks ?s) \<noteq> AtDeposed"
    using same_term_inv [OF assms handle_inv [OF r]] that by simp
  show ?thesis
  proof (cases "rnPc ?s")
    case AtSelect
    then show ?thesis using assms by (simp add: handle_def)
  next
    case AtElect
    then show ?thesis by (rule elected_inv [OF assms])
  next
    case AtCancel
    obtain i where "rnCancel ?s = Some i" using r AtCancel by (auto simp: raft_inv_def open_term_def)
    then have "handle wait both_callbacks ?s = ?s\<lparr>rnPlanes := cancel_plane i (rnPlanes ?s), rnPc := AtWait\<rparr>"
      using AtCancel by (simp add: handle_def)
    then show ?thesis using AtCancel cancel_plane_mem by (intro same) (auto simp: open_term_def)
  next
    case AtWait
    then show ?thesis by (intro same) (auto simp: handle_def waitWithCap_def leave_wait_def open_term_def)
  next
    case AtDeposed
    then show ?thesis by (rule deposed_replica_inv [OF assms])
  qed
qed

lemma raft_event_inv:
  assumes "replica_inv sets x" "e \<noteq> WaitExpires"
  shows "replica_inv sets (replica_step wait sets x (EvRaft e))"
proof -
  have r: "raft_inv (rpRun x)" using assms(1) by (simp add: replica_inv_def)
  have deposed: "\<forall>p \<in> set (rnPlanes (rpRun x)). rnPc (rpRun x) \<noteq> AtDeposed" using assms(1) by (simp add: replica_inv_def)
  note same = same_term_inv [OF assms(1) raft_step_inv [OF r, of wait both_callbacks e]]
  show ?thesis
  proof (cases e)
    case (Observe isLeader)
    have "rnDeposed (raft_step wait both_callbacks (rpRun x) e) = rnDeposed (rpRun x)" using Observe by (simp add: handle_observed_def)
    then have "replica_step wait sets x (EvRaft e) = x\<lparr>rpRun := raft_step wait both_callbacks (rpRun x) e\<rparr>" by (simp add: Let_def)
    then show ?thesis using observed_replica_inv [OF assms(1), of wait isLeader] Observe by (simp only:)
  next
    case Proceed
    then show ?thesis using proceed_inv [OF assms(1)] by simp
  next
    case (PlaneReturns i)
    then show ?thesis using same deposed by (auto simp: open_term_def filter_empty_conv)
  next
    case CtxDone
    have "replica_step wait sets x (EvRaft e) = x\<lparr>rpRun := raft_step wait both_callbacks (rpRun x) e\<rparr>" using CtxDone by simp
    moreover have "replica_inv sets (x\<lparr>rpRun := raft_step wait both_callbacks (rpRun x) e\<rparr>)"
      by (rule same) (use CtxDone deposed in \<open>auto simp: open_term_def\<close>)
    ultimately show ?thesis by (simp only:)
  next
    case RunReturns
    have "replica_step wait sets x (EvRaft e) = x\<lparr>rpRun := raft_step wait both_callbacks (rpRun x) e\<rparr>" using RunReturns by simp
    moreover have "replica_inv sets (x\<lparr>rpRun := raft_step wait both_callbacks (rpRun x) e\<rparr>)"
      by (rule same) (use RunReturns deposed in \<open>auto simp: open_term_def\<close>)
    ultimately show ?thesis by (simp only:)
  qed (use assms(2) in simp)
qed

lemma mark_inv:
  assumes "replica_inv sets x"
  shows "replica_inv sets (replica_step wait sets x (EvMark i k nm now))"
proof (cases "running (rpRun x) i")
  case True
  then have c: "rnNext (rpRun x) = Suc i" "open_term (rpRun x)" using assms by (auto simp: running_def replica_inv_def)
  have mono: "reported (rpRun x) (rpLog x) k' n \<Longrightarrow> reported (rpRun x) ((i, k, nm) # rpLog x) k' n" for k' n
    by (auto simp: reported_def)
  have new: "reported (rpRun x) ((i, k, nm) # rpLog x) k nm" using c by (auto simp: reported_def)
  show ?thesis
  proof (cases k)
    case Recovered
    then show ?thesis using True assms mono new
      by (fastforce simp: replica_inv_def flags_reported_def worker_recovered_def MarkProxmoxOK_def MarkScalesetRecoveryDone_def on_scaleset_mem
          simp del: set_map split: if_splits)
  next
    case Connected
    then show ?thesis using True assms mono new
      by (fastforce simp: replica_inv_def flags_reported_def MarkScalesetListenerConnected_def on_scaleset_mem simp del: set_map split: if_splits)
  qed
qed (use assms in simp)


lemma replica_step_inv:
  assumes "replica_inv sets x" "prompt ev"
  shows "replica_inv sets (replica_step wait sets x ev)"
proof (cases ev)
  case (EvRaft e)
  then show ?thesis using raft_event_inv [OF assms(1), of e] assms(2) by (simp add: prompt_def)
next
  case (EvStart i)
  show ?thesis
  proof (cases "running (rpRun x) i")
    case True
    then have "open_term (rpRun x)" using assms(1) by (auto simp: running_def replica_inv_def)
    then show ?thesis using True EvStart assms(1) by (simp add: replica_inv_def flags_reported_def OnElected_def MarkLeader_def)
  qed (use EvStart assms in simp)
next
  case (EvMark i k nm now)
  then show ?thesis using mark_inv [OF assms(1)] by simp
next
  case (EvPing now ok)
  then show ?thesis using assms(1)
    by (simp add: replica_inv_def flags_reported_def runHealthRefresher_def MarkProxmoxOK_def del: set_map)
qed

lemma registered:
  "set (map fst (hScalesets (foldl RegisterScaleset h sets))) = set (map fst (hScalesets h)) \<union> set sets \<and>
   hLeader (foldl RegisterScaleset h sets) = hLeader h \<and>
   (\<forall>e \<in> set (hScalesets (foldl RegisterScaleset h sets)). e \<in> set (hScalesets h) \<or> snd e = \<lparr>listenerConnected = False, recoveryDone = False\<rparr>)"
proof (induction sets arbitrary: h)
  case (Cons s sets)
  show ?case
  proof (cases "map_of (hScalesets h) s")
    case None
    then show ?thesis using Cons.IH [of "RegisterScaleset h s"] by (auto simp: RegisterScaleset_def)
  next
    case (Some r)
    then have "s \<in> set (map fst (hScalesets h))" using map_of_SomeD [OF Some] by force
    then show ?thesis using Cons.IH [of h] Some by (auto simp: RegisterScaleset_def)
  qed
qed simp

lemma replica_Run_inv:
  assumes "list_all prompt es"
  shows "replica_inv sets (replica_Run wait sets es)"
proof -
  have "replica_inv sets x \<Longrightarrow> list_all prompt es \<Longrightarrow> replica_inv sets (foldl (replica_step wait sets) x es)" for x
    by (induction es arbitrary: x) (simp_all add: replica_step_inv)
  moreover have "replica_inv sets (replica_init sets)"
    using registered [of "NewHealth (30 * second)" sets]
    by (fastforce simp: replica_inv_def replica_init_def raft_inv_def raft_init_def open_term_def flags_reported_def NewHealth_def)
  ultimately show ?thesis using assms by (simp add: replica_Run_def)
qed

text \<open>
  C9. A leader that reports itself ready has earned it: as long as every control plane winds down before
  the timer of the wait for it, a replica whose tracker says leader and that answers ready has a
  leadership open, and every configured scale set has finished its recovery and opened its session in
  that leadership, not in an earlier one. Its coordinator says leader too, unless it has just lost the
  leadership and has not come to OnDeposed yet.\<close>

theorem ready_leader_recovered:
  assumes "list_all prompt es" "x = replica_Run wait sets es" "hLeader (rpHealth x)" "Ready now (rpHealth x)"
  shows "(rnLeader (rpRun x) \<or> rnPc (rpRun x) \<in> {AtCancel, AtWait, AtDeposed}) \<and> (\<exists>i. rnNext (rpRun x) = Suc i \<and>
    (\<forall>nm \<in> set sets. (i, Recovered, nm) \<in> set (rpLog x) \<and> (i, Connected, nm) \<in> set (rpLog x)))"
proof -
  have inv: "replica_inv sets x" using replica_Run_inv [OF assms(1)] assms(2) by simp
  have tm: "open_term (rpRun x)" using inv assms(3) by (simp add: replica_inv_def)
  have flags: "\<forall>(n, r) \<in> set (hScalesets (rpHealth x)). listenerConnected r \<and> recoveryDone r" "hScalesets (rpHealth x) \<noteq> []"
    using assms(3,4) by (auto simp: Ready_def list_all_iff split: option.splits if_splits)
  have rep: "reported (rpRun x) (rpLog x) Recovered nm \<and> reported (rpRun x) (rpLog x) Connected nm" if nm: "nm \<in> set sets" for nm
  proof -
    obtain r where "(nm, r) \<in> set (hScalesets (rpHealth x))" using inv nm by (fastforce simp: replica_inv_def)
    then show ?thesis using inv flags(1) by (fastforce simp: replica_inv_def flags_reported_def)
  qed
  obtain nm where "nm \<in> set sets" using inv flags(2) by (cases "hScalesets (rpHealth x)") (auto simp: replica_inv_def)
  with rep obtain i where "rnNext (rpRun x) = Suc i" by (auto simp: reported_def)
  with rep tm show ?thesis by (auto simp: reported_def open_term_def)
qed

definition ex_election :: "replica_event list" where
  "ex_election = [EvRaft (Observe True), EvRaft Proceed, EvStart 0, EvMark 0 Recovered ''ci'' 5, EvMark 0 Connected ''ci'' 6]"

theorem ready_leader_recovered_witness:
  "let x = replica_Run second [''ci''] ex_election in
   Ready 7 (rpHealth x) \<and> rnLeader (rpRun x) \<and> (0, Connected, ''ci'') \<in> set (rpLog x)"
proof -
  let ?x = "replica_Run second [''ci''] ex_election"
  have p: "list_all prompt ex_election" by (simp add: ex_election_def prompt_def)
  have l: "hLeader (rpHealth ?x)" and r: "Ready 7 (rpHealth ?x)" and c: "rnNext (rpRun ?x) = Suc 0" "rnPc (rpRun ?x) = AtSelect" by code_simp+
  from ready_leader_recovered [OF p refl l r] c r show ?thesis by (auto simp: Let_def)
qed

text \<open>
  The exception is real: while a deposed replica waits for its plane, its coordinator already says no
  and its readiness still says leader and ready.
\<close>

theorem deposed_still_ready:
  "let x = replica_Run second [''ci''] (ex_election @ [EvRaft (Observe False), EvRaft Proceed]) in
   rnPc (rpRun x) = AtWait \<and> \<not> rnLeader (rpRun x) \<and> hLeader (rpHealth x) \<and> Ready 7 (rpHealth x)"
  by code_simp

text \<open>
  The bound on the wait undoes the rest: a plane that is late to return can still report after its
  replica was deposed and its flags were cleared, and the replica, elected again, is ready at once,
  before the new plane has done anything.
\<close>

theorem late_plane_marks_ready:
  "let x = replica_Run second [''ci''] [EvRaft (Observe True), EvRaft Proceed, EvStart 0, EvRaft (Observe False), EvRaft Proceed,
       EvRaft WaitExpires, EvRaft Proceed, EvMark 0 Recovered ''ci'' 5, EvMark 0 Connected ''ci'' 6, EvRaft (Observe True),
       EvRaft Proceed, EvStart 1] in
   hLeader (rpHealth x) \<and> Ready 7 (rpHealth x) \<and> rnNext (rpRun x) = 2 \<and> list_all (\<lambda>(i, _). i \<noteq> 1) (rpLog x)"
  by code_simp

end
