(* ===== verification/Labels.thy ===== *)
theory Labels
  imports GhReconciler
begin

text \<open>
  The labels of the error and mismatch counters (\<^verbatim>\<open>internal/observability\<close>): values off the closed
  lists are replaced before they reach Prometheus. A counter is its increments, each the label values
  it was made with; without metrics nothing is counted and the arguments are returned as they are.
\<close>

definition validProxmoxOps :: "string list" where
  "validProxmoxOps = [''inject_jit'', ''clone'', ''destroy'', ''start'', ''stop'', ''power_state'', ''list_vms'', ''wait_ready'', ''unknown'']"

definition validGHStates :: "string list" where
  "validGHStates = [''missing'', ''offline'', ''busy'', ''idle'', ''unknown'']"

definition validGHActions :: "string list" where
  "validGHActions = [''promote_running'', ''destroy'', ''unknown'']"

definition validDBStates :: "string list" where
  "validDBStates = [''provisioning'', ''warm'', ''booting'', ''hot'', ''assigned'', ''running'', ''recycling'', ''draining'',
     ''destroying'', ''poison'', ''unknown'']"

record Metrics =
  ProxmoxErrors :: "(string \<times> string \<times> string) list"
  GHStateMismatch :: "(string \<times> string \<times> string \<times> string) list"

definition RecordProxmoxError :: "Metrics option \<Rightarrow> string \<Rightarrow> string \<Rightarrow> string \<Rightarrow> string \<times> Metrics option" where
  "RecordProxmoxError mo scaleset oper node =
     (case mo of
        None \<Rightarrow> (oper, None)
      | Some m \<Rightarrow>
          (let op' = (if oper \<notin> set validProxmoxOps then ''unknown'' else oper) in
           (op', Some (m\<lparr>ProxmoxErrors := (scaleset, op', node) # ProxmoxErrors m\<rparr>))))"

definition RecordGHStateMismatch ::
  "Metrics option \<Rightarrow> string \<Rightarrow> string \<Rightarrow> string \<Rightarrow> string \<Rightarrow> (string \<times> string) \<times> Metrics option" where
  "RecordGHStateMismatch mo scaleset dbState ghState action =
     (case mo of
        None \<Rightarrow> ((ghState, action), None)
      | Some m \<Rightarrow>
          (let db = (if dbState \<notin> set validDBStates then ''unknown'' else dbState);
               gh = (if ghState \<notin> set validGHStates then ''unknown'' else ghState);
               ac = (if action \<notin> set validGHActions then ''unknown'' else action) in
           ((gh, ac), Some (m\<lparr>GHStateMismatch := (scaleset, db, gh, ac) # GHStateMismatch m\<rparr>))))"

section \<open>The labels stay within their lists\<close>

definition labels_closed :: "Metrics \<Rightarrow> bool" where
  "labels_closed m \<longleftrightarrow> list_all (\<lambda>(s, oper, n). oper \<in> set validProxmoxOps) (ProxmoxErrors m) \<and>
     list_all (\<lambda>(s, db, gh, ac). db \<in> set validDBStates \<and> gh \<in> set validGHStates \<and> ac \<in> set validGHActions) (GHStateMismatch m)"

lemma records_closed:
  assumes "labels_closed m"
  shows "\<exists>m'. snd (RecordProxmoxError (Some m) s oper n) = Some m' \<and> labels_closed m'"
    and "\<exists>m'. snd (RecordGHStateMismatch (Some m) s db gh ac) = Some m' \<and> labels_closed m'"
  using assms by (simp_all add: RecordProxmoxError_def RecordGHStateMismatch_def labels_closed_def Let_def
      validProxmoxOps_def validDBStates_def validGHStates_def validGHActions_def)

text \<open>Nothing is lost to the clamps: every state of the store and every status the reconciler sees is on its list.\<close>

lemma states_listed: "state_string st \<in> set validDBStates"
  by (cases st) (simp_all add: validDBStates_def)

lemma statuses_listed: "ghStateLabel gr \<in> set validGHStates"
  by (simp add: ghStateLabel_def validGHStates_def split: option.split)

lemma mismatch_kept:
  assumes "ac \<in> {''promote_running'', ''destroy''}"
  shows "RecordGHStateMismatch (Some m) s (state_string st) (ghStateLabel gr) ac =
    ((ghStateLabel gr, ac), Some (m\<lparr>GHStateMismatch := (s, state_string st, ghStateLabel gr, ac) # GHStateMismatch m\<rparr>))"
proof -
  have "ac \<in> set validGHActions" using assms by (auto simp: validGHActions_def)
  then show ?thesis using states_listed [of st] statuses_listed [of gr] by (simp add: RecordGHStateMismatch_def Let_def)
qed

end
