(* ===== verification/Spec2Isabelle.thy ===== *)
theory Spec2Isabelle
  imports Store Tags Router Priority Quotas Ipam Canary Schedule NodeCap NodeSelector Pool Manager Capacity Reconcile Lifecycle Workers
    GhReconciler Scaler Config Provisioner App FilePerm Addr Cluster AdminApi GithubAuth Replica Labels
begin

text \<open>
  Verification of the runner pool controller: a service that keeps pools of Proxmox VMs, hands them to
  GitHub Actions jobs as runners, and destroys or recycles them afterwards.

  \<^bold>\<open>Parts and theories.\<close> Paths are below \<^verbatim>\<open>src/internal\<close>.
  \<^item> \<open>Base\<close>, \<open>Decimal\<close>, \<open>Addr\<close>: basic types, decimal and \<^verbatim>\<open>host:port\<close> strings as Go's library reads them.
  \<^item> \<open>Store\<close> (\<^verbatim>\<open>store\<close>): the table of VM rows and every transaction on it. \<open>Tags\<close> (\<^verbatim>\<open>tags\<close>): the tags that carry
    ownership across restarts.
  \<^item> \<open>Router\<close>, \<open>Priority\<close>, \<open>Quotas\<close>, \<open>Ipam\<close>, \<open>Canary\<close>, \<open>Schedule\<close>: the packages of those names, pure decisions or
    small states of their own.
  \<^item> \<open>NodeCap\<close>, \<open>NodeSelector\<close> (\<^verbatim>\<open>nodecap\<close>, \<^verbatim>\<open>nodeselector\<close>): the ledger of node memory and vCPUs, and placement.
  \<^item> \<open>Pool\<close>, \<open>Manager\<close>, \<open>Capacity\<close>, \<open>Reconcile\<close> (\<^verbatim>\<open>pool/manager.go\<close>, \<^verbatim>\<open>pool/capacity.go\<close>): construction and sizing, the
    operations callers make, admission and eviction, the passes of the reconcile loop with cloning,
    booting, ageing and adoption. \<open>Lifecycle\<close> and \<open>Workers\<close> put them together as step relations, with the
    goroutines as explicit tasks.
  \<^item> \<open>Scaler\<close> (\<^verbatim>\<open>scaler\<close>): the listener's callbacks on the pool. \<open>GhReconciler\<close> (\<^verbatim>\<open>gh\<close>): one tick against GitHub's and
    Proxmox's listings. \<open>Provisioner\<close> (\<^verbatim>\<open>provisioner\<close>): each operation as its sequence of API calls.
  \<^item> \<open>Config\<close> (\<^verbatim>\<open>config\<close>): defaults, resolution, validation. \<open>App\<close> (\<^verbatim>\<open>app\<close>): what is built from a configuration, the
    scale set's labels, supervision.
  \<^item> \<open>FilePerm\<close> (\<^verbatim>\<open>fileperm\<close>), \<open>GithubAuth\<close> (\<^verbatim>\<open>githubauth\<close>), \<open>Cluster\<close> (\<^verbatim>\<open>cluster\<close>), \<open>AdminApi\<close> (\<^verbatim>\<open>adminapi\<close>): secret files,
    credentials and URLs, leadership and forwarding, the operator's requests. \<open>Replica\<close>: the health tracker
    of \<^verbatim>\<open>observability\<close> and the callbacks of \<^verbatim>\<open>app\<close> around the coordinator. \<open>Labels\<close>: the clamping of metric labels.

  \<^bold>\<open>State and operations.\<close> A struct is a record, an enum a datatype, a nil pointer \<open>None\<close>, an error \<open>Inl\<close> or \<open>Some\<close>.
  An operation takes the state it changes and returns it updated; \<open>manager\<close> (\<open>Manager\<close>) is the pool's whole
  state: table, destroy queue, running tasks, accountant, canary. Definitions keep the code's names, with
  a prefix where two packages use one name. Clock readings, API replies, map and memdb iteration orders,
  goroutine orders, floating-point quotients, hashes and parsers of third-party libraries are arguments;
  what a property relies on of them is a hypothesis of it, such as \<open>cron_law\<close> and \<open>nets_documented\<close>. An operation
  with an inner race window takes the row it read earlier as an argument (\<open>Preempt_from\<close>, \<open>MarkCompleted_from\<close>,
  \<open>recycle_row\<close>, \<open>sweep_row\<close>), so its lemmas hold for stale reads. Where the code releases a lock halfway, as in
  \<^verbatim>\<open>destroyAsync\<close> between the count and the send, or blocks halfway, as in the raft coordinator's handler while it waits for
  a control plane, the two halves are steps of their own (\<open>destroyAsync\<close> and \<open>destroySend\<close>; \<open>handle\<close> by its program counter).

  \<^bold>\<open>Interfaces.\<close> \<open>row_order\<close> (any listing order of an index bucket), \<open>cas_store\<close> (compare-and-set on rows),
  \<open>allocator\<close> (addresses), \<open>selector\<close> with the layers \<open>affinity_over\<close> and \<open>capacity_over\<close> (placement) and \<open>grace_clock\<close>
  (first-seen tracking of both orphan sweeps) are locales, each interpreted on the model's definitions.

  \<^bold>\<open>What the lemmas show.\<close> The store keeps its index invariant over every history, its claims respect
  the caps, and a contended transition has one winner. The pool's guarded operations refine an abstract
  lifecycle in which a VM that is being removed never comes back; queue and semaphores keep their bounds
  under every interleaving, and a draining pool admits no work. Reaping spares rows with jobs.
  Admission does not overcommit, placement respects affinity and capacity, allocation finds the lowest free
  VMID, eviction takes the shortest run that makes room. A demand message is served within its count. A reconcile tick follows the
  documented table, and orphans go only after their grace. The schedule follows its windows. No VM is
  powered on before calls on that VM have put its firewall in place. An accepted configuration starts its workers, keeps its
  scale sets' VMIDs, tags and URLs apart and satisfies the coordinator. At most one control plane is live;
  a ready leader has recovered in its last term; only the operator's token changes anything through the
  admin API; accepted secret files are closed to strangers. This theory holds the properties that span
  configuration, provisioner, pool and credentials.

  Several lemmas state what the code does where its comments or documents say otherwise: explicit zero
  sizes, VMs of scale sets whose names extend another's, wrapped 404 answers, unguarded updates, truncated listings,
  simultaneous fires, unsatisfiable cron expressions, late control planes, windows that expire over a longer one,
  quotas per organisation on jobs with a repository, rows without a profile, and configurations with several scale sets,
  which start.

  \<^bold>\<open>Bounds and fuel.\<close> No model runs on fuel. The one loop of the code that may not end, the start-up
  replay of \<^verbatim>\<open>schedule\<close>, is a \<^theory_text>\<open>partial_function\<close> into \<open>option\<close>, with a proof that it returns for lawful
  schedules and one that it does not for a schedule without a next fire. The search for a VMID recurses on the distance
  to the end of its range. Retries and pages are bounded by the code's own constants. The supervisor's endless loop runs
  over the list of outcomes of its attempts; its backoff is cut to its maximum, 30 seconds, at every doubling and is never near overflow. Hashes (\<open>Canary\<close>), byte counts (\<open>NodeCap\<close>, \<open>Capacity\<close>) and mode bits (\<open>FilePerm\<close>)
  keep the code's word width where wrap-around matters; \<^verbatim>\<open>int\<close> is unbounded elsewhere.

  \<^bold>\<open>Not modelled.\<close> \<^verbatim>\<open>cmd/scaleset\<close>, \<^verbatim>\<open>observability/tracing.go\<close> and the registration of metrics and loggers, which
  only configure libraries; \<^verbatim>\<open>app.Run\<close> beyond what it composes, and the HTTP servers' start and shutdown; YAML
  decoding and struct tags, certificates, the raft library and its transport adapters; JSON rendering and
  access logs of the admin API; the Windows permission checks, which accept everything; \<^verbatim>\<open>testutil\<close> and \<^verbatim>\<open>test/e2e\<close>, which are
  test code.
\<close>

section \<open>Scale sets of one configuration keep apart\<close>

lemma allocated_in_range: "allocateVMID ord cancelled recent pc T = Inr v \<Longrightarrow> VMIDMin pc \<le> v \<and> v \<le> VMIDMax pc"
  using vmid_search_Inr by (fastforce simp: allocateVMID_def split: if_splits)

lemma accepted_names:
  assumes "loadInto e c0 = Inr c" "i < length (cfScalesets c)"
  shows "scaleSetNameRE (seName (cfScalesets c ! i))"
proof -
  have "entries_ok c (cfScalesets c ! i)"
    using accepted_distinct(4) [OF Validate_None(2) [OF loadInto_Inr(2) [OF assms(1)]]] assms(2) by (metis nth_mem)
  then show ?thesis by (auto simp: OwnerTag_def split: if_splits)
qed

lemma accepted_owners:
  assumes "loadInto e c0 = Inr c" "i < length (cfScalesets c)" "j < length (cfScalesets c)" "i \<noteq> j"
  shows "sanitize (seName (cfScalesets c ! i)) \<noteq> sanitize (seName (cfScalesets c ! j))"
proof -
  have "OwnerTag (seName (cfScalesets c ! i)) \<noteq> OwnerTag (seName (cfScalesets c ! j))"
    using accepted_distinct(2) [OF Validate_None(2) [OF loadInto_Inr(2) [OF assms(1)]]] assms(2-4)
    by (simp add: distinct_conv_nth)
  then show ?thesis using accepted_names [OF assms(1)] assms(2,3) by (simp add: OwnerTag_def)
qed

text \<open>
  C3. The scale sets of an accepted configuration keep apart: the VMIDs their pools allocate, from
  whatever tables and whenever, are never the same, and by its tags a VM that either of two of them
  tagged as its own is owned by that one and not by the other.\<close>

theorem accepted_sets_apart:
  assumes "loadInto e c0 = Inr c" "i < j" "j < length (cfScalesets c)"
    and "allocateVMID ord cancelled recent (pool_config c (cfScalesets c ! i) p) T = Inr v"
    and "allocateVMID ord' cancelled' recent' (pool_config c (cfScalesets c ! j) q) U = Inr w"
    and "Initial (seName (cfScalesets c ! i)) pr tm = Inr ts"
    and "Initial (seName (cfScalesets c ! j)) pr' tm' = Inr us"
  shows "v \<noteq> w \<and>
    IsOwnedBy (Encode ts) (seName (cfScalesets c ! i)) \<and> \<not> IsOwnedBy (Encode ts) (seName (cfScalesets c ! j)) \<and>
    IsOwnedBy (Encode us) (seName (cfScalesets c ! j)) \<and> \<not> IsOwnedBy (Encode us) (seName (cfScalesets c ! i))"
proof -
  have i: "i < length (cfScalesets c)" using assms(2,3) by simp
  obtain a b where ab: "seVMIDRange (cfScalesets c ! i) = Some a" "seVMIDRange (cfScalesets c ! j) = Some b" "ranges_disjoint a b"
    using accepted_ranges [OF Validate_None(2) [OF loadInto_Inr(2) [OF assms(1)]] assms(2,3)] by blast
  then have "v \<noteq> w" using allocated_in_range [OF assms(4)] allocated_in_range [OF assms(5)]
    by (auto simp: pool_config_def Let_def entryVMIDRange_def ranges_disjoint_def)
  then show ?thesis
    using tags_ownership [OF assms(6)] tags_ownership [OF assms(7)] accepted_names [OF assms(1)] i assms(3)
      accepted_owners [OF assms(1) i assms(3)] assms(2) by auto
qed

lemma ex_siblings_sets:
  "length (cfScalesets (loaded ex_siblings)) = 2" "seName (cfScalesets (loaded ex_siblings) ! 0) = ''ci''"
  "seName (cfScalesets (loaded ex_siblings) ! Suc 0) = ''ci-gpu''"
  "seVMIDRange (cfScalesets (loaded ex_siblings) ! 0) = Some \<lparr>vrMin = 10000, vrMax = 14999\<rparr>"
  "seVMIDRange (cfScalesets (loaded ex_siblings) ! Suc 0) = Some \<lparr>vrMin = 15000, vrMax = 19999\<rparr>"
  by code_simp+

lemma allocate_first:
  assumes "seVMIDRange s = Some r" "vrMin r \<le> vrMax r"
  shows "allocateVMID id (\<lambda>_. False) (\<lambda>_. False) (pool_config c s p) [] = Inr (vrMin r)"
proof -
  have "VMIDMin (pool_config c s p) = vrMin r" "VMIDMax (pool_config c s p) = vrMax r"
    using assms(1) by (simp_all add: pool_config_def Let_def entryVMIDRange_def)
  then show ?thesis using assms(2) by (simp add: allocateVMID_def UsedVMIDs_def List_def bucket_def vmid_search.simps [of _ _ _ "vrMin r"])
qed

theorem accepted_sets_apart_witness:
  "\<exists>ts us. Initial ''ci'' ''default'' ''stable'' = Inr ts \<and> Initial ''ci-gpu'' ''default'' ''stable'' = Inr us \<and>
     \<not> IsOwnedBy (Encode ts) ''ci-gpu'' \<and> \<not> IsOwnedBy (Encode us) ''ci''"
proof -
  have ld: "loadInto ex_cenv ex_siblings = Inr (loaded ex_siblings)" by (rule loads_loaded [OF ex_siblings_loads])
  note a = allocate_first [OF ex_siblings_sets(4)] and b = allocate_first [OF ex_siblings_sets(5)]
  obtain ts where ts: "Initial ''ci'' ''default'' ''stable'' = Inr ts"
    using accepted_names [OF ld, of 0] ex_siblings_sets(1,2) by (auto simp: Initial_def OwnerTag_def)
  obtain us where us: "Initial ''ci-gpu'' ''default'' ''stable'' = Inr us"
    using accepted_names [OF ld, of "Suc 0"] ex_siblings_sets(1,3) by (auto simp: Initial_def OwnerTag_def)
  show ?thesis
    using accepted_sets_apart [OF ld _ _ a b, unfolded ex_siblings_sets, OF _ _ _ _ ts us] ts us by auto
qed


lemma hyphen_itoa:
  assumes "0 \<le> n"
  shows "CHR ''-'' \<notin> set (itoa n)"
proof -
  have "\<not> digit CHR ''-''" by (simp add: digit_def less_eq_char_def)
  then show ?thesis using digit_digits assms by (auto simp: itoa_def)
qed

lemma prefix_of_sibling:
  assumes "h \<notin> set d" "a \<noteq> b"
  shows "prefix (a @ [h]) (b @ h # d) \<longleftrightarrow> prefix (a @ [h]) b"
  using assms
proof (induction a arbitrary: b)
  case Nil
  then show ?case by (cases b) auto
next
  case (Cons x a)
  show ?case
  proof (cases b)
    case Nil
    then show ?thesis using Cons.prems(1) set_mono_prefix [of "a @ [h]" d] by auto
  next
    case (Cons y b')
    then show ?thesis using Cons.IH [OF \<open>h \<notin> set d\<close>, of b'] Cons.prems(2) by auto
  qed
qed

lemma provisioner_of:
  assumes "init_provisioner api c s = Inr p"
  shows "pmCfg p = cfProxmox c" "pmScaleSetName p = seName s" "pmVMNamePrefix p = vmPrefix_of (seName s)"
  using assms by (auto simp: init_provisioner_def pmox_New_def split: sum.splits option.splits)

text \<open>
  C4. What a worker takes for its own: a VM another scale set of the same accepted configuration cloned,
  with the name and the tags it was given, is listed as owned exactly when the other's name is this
  one's extended by a hyphen and the VMID is in the Proxmox-wide range, although its tags say whose it
  is.\<close>

theorem sibling_claimed_iff:
  assumes "loadInto e c0 = Inr c" "i < length (cfScalesets c)" "j < length (cfScalesets c)" "i \<noteq> j"
    and "init_provisioner api c (cfScalesets c ! i) = Inr p"
    and "Initial (seName (cfScalesets c ! j)) pr tm = Inr ts" "pvTags v = Encode ts"
    and "pvName v = vmPrefix_of (seName (cfScalesets c ! j)) @ itoa (pvVMID v)" "0 \<le> pvVMID v"
  shows "classifyVM p node v \<noteq> None \<longleftrightarrow>
     prefix (seName (cfScalesets c ! i) @ ''-'') (seName (cfScalesets c ! j)) \<and>
     vrMin (pxVMIDRange (cfProxmox c)) \<le> pvVMID v \<and> pvVMID v \<le> vrMax (pxVMIDRange (cfProxmox c))"
proof -
  have "\<not> IsOwnedBy (pvTags v) (seName (cfScalesets c ! i))"
    using tags_ownership [OF assms(6)] accepted_names [OF assms(1,2)] accepted_owners [OF assms(1-4)] assms(7) by simp
  moreover have "seName (cfScalesets c ! i) \<noteq> seName (cfScalesets c ! j)" using accepted_owners [OF assms(1-4)] by auto
  then have "prefix (vmPrefix_of (seName (cfScalesets c ! i))) (pvName v) \<longleftrightarrow>
      prefix (seName (cfScalesets c ! i) @ ''-'') (seName (cfScalesets c ! j))"
    using prefix_of_sibling [OF hyphen_itoa [OF assms(9)]] by (simp add: assms(8) vmPrefix_of_def)
  ultimately show ?thesis by (simp add: classifyVM_def Let_def provisioner_of [OF assms(5)] vmPrefix_of_def)
qed

definition ex_gpu_vm :: "string list \<Rightarrow> pveVM" where
  "ex_gpu_vm ts = ex_pv\<lparr>pvVMID := 15000, pvName := vmPrefix_of ''ci-gpu'' @ itoa 15000, pvTags := Encode ts\<rparr>"

lemma siblings_px: "cfProxmox (loaded ex_siblings) = ex_px"
  using loaded_fields(1) [OF ex_siblings_loads] by (simp add: ex_siblings_def ex_config_def)

theorem sibling_claimed_iff_witness:
  "\<exists>ts. Initial ''ci-gpu'' ''default'' ''stable'' = Inr ts \<and>
     classifyVM (ex_prov (loaded ex_siblings) (cfScalesets (loaded ex_siblings) ! 0)) ''a'' (ex_gpu_vm ts) \<noteq> None"
proof -
  let ?c = "loaded ex_siblings"
  have ld: "loadInto ex_cenv ex_siblings = Inr ?c" by (rule loads_loaded [OF ex_siblings_loads])
  have n: "0 < length (cfScalesets ?c)" "Suc 0 < length (cfScalesets ?c)" using ex_siblings_sets(1) by simp_all
  have p: "init_provisioner ex_api ?c (cfScalesets ?c ! 0) = Inr (ex_prov ?c (cfScalesets ?c ! 0))"
    by (rule ex_prov_Inr [OF siblings_px])
  obtain ts where ts: "Initial ''ci-gpu'' ''default'' ''stable'' = Inr ts"
    using accepted_names [OF ld n(2)] ex_siblings_sets(3) by (auto simp: Initial_def OwnerTag_def)
  have nm: "pvName (ex_gpu_vm ts) = vmPrefix_of (seName (cfScalesets ?c ! Suc 0)) @ itoa (pvVMID (ex_gpu_vm ts))"
    by (simp add: ex_gpu_vm_def ex_siblings_sets)
  have vm: "pvTags (ex_gpu_vm ts) = Encode ts" "pvVMID (ex_gpu_vm ts) = 15000" by (simp_all add: ex_gpu_vm_def)
  have "vrMin (pxVMIDRange (cfProxmox ?c)) \<le> 15000" "15000 \<le> vrMax (pxVMIDRange (cfProxmox ?c))"
    by (simp_all add: siblings_px ex_px_def)
  then show ?thesis
    using sibling_claimed_iff [OF ld n _ p ts [folded ex_siblings_sets(3)] vm(1) nm, of "''a''"] ts
    by (simp add: vm(2) ex_siblings_sets(2,3))
qed


section \<open>The sandbox of an accepted configuration\<close>

lemma accepted_bridge:
  assumes "loadInto e c0 = Inr c"
  shows "resolveProxmox c = None"
proof -
  note r = loadInto_Inr(1) [OF assms]
  have "resolveProxmox (ApplyDefaults c0) = None"
    using r by (auto simp: Resolve_config_def checks_None simp del: checks.simps split: option.splits)
  moreover have "cfProxmox c = cfProxmox (ApplyDefaults c0)" by (rule Resolve_fields(4) [OF r])
  ultimately show ?thesis unfolding resolveProxmox_def by (simp only:)
qed

lemma validated_bridge:
  assumes "validateNIC b t m = None"
  shows "CHR '','' \<notin> set b"
proof -
  have "\<not> bridge_char CHR '',''" by (simp add: bridge_char_def lower_def upper_def digit_def less_eq_char_def)
  then show ?thesis using assms by (auto simp: validateNIC_def nicBridgeAllowed_def list_all_iff split: if_splits)
qed

lemma plain_nic: "validateNIC b t m = None \<Longrightarrow> nic_safe \<lparr>nicBridge = b, nicVLANTag = t', nicVLANUntagged = u, nicMTU = m', nicModel = ''''\<rparr>"
  using validated_bridge by (simp add: nic_safe_def is_fw_def TrimSpace_def)

lemma accepted_nics:
  assumes "loadInto e c0 = Inr c" "s \<in> set (cfScalesets c)" "pr \<in> set (seProfiles s)"
  shows "list_all nic_safe (nicsFromProfileNetwork c pr)"
proof (cases "pfNetwork pr")
  case (Some nw)
  have "first_err (\<lambda>si s. first_err (check_network si) 0 (seProfiles s)) 0 (cfScalesets c) = None"
    using Validate_None(7) [OF loadInto_Inr(2) [OF assms(1)]] by (simp add: validateProfileNetworks_def)
  from first_err_all [OF this assms(2)] obtain si where si: "first_err (check_network si) 0 (seProfiles s) = None" by blast
  from first_err_all [OF si assms(3)] obtain k where k: "check_network si k pr = None" by blast
  have base: "validateNIC (pxBridge (cfProxmox c)) (pxVLANTag (cfProxmox c)) 0 = None"
    using accepted_bridge [OF assms(1)] by (auto simp: resolveProxmox_def split: if_splits)
  have nw: "validateNIC (pnBridge nw) (pnVLANTag nw) (pnMTU nw) = None"
    and extra: "first_err (\<lambda>j nic. if niBridge nic = '''' then Some (CErr ''network.extra_nics.bridge'' [si, k, j])
       else validateNIC (niBridge nic) (niVLANTag nic) (niMTU nic)) 0 (pnExtraNICs nw) = None"
    using k Some by (simp_all add: check_network_def checks_None del: checks.simps)
  have "validateNIC (niBridge nic) (niVLANTag nic) (niMTU nic) = None" if "nic \<in> set (pnExtraNICs nw)" for nic
    using first_err_all [OF extra that] by (auto split: if_splits)
  from plain_nic [OF this] show ?thesis using Some plain_nic [OF nw] plain_nic [OF base]
    by (auto simp: nicsFromProfileNetwork_def list_all_iff firstNonEmpty_def)
qed (simp add: nicsFromProfileNetwork_def)

text \<open>What a worker asks its provisioner to power on: a clone with the NICs of one of its profiles, or an existing VM.\<close>

fun worker_request :: "Config \<Rightarrow> ScaleSetEntry \<Rightarrow> power_request \<Rightarrow> bool" where
  "worker_request c s (ReqClone co) \<longleftrightarrow> (\<exists>pr \<in> set (seProfiles s). coNICs co = nicsFromProfileNetwork c pr)"
| "worker_request c s (ReqStart vm) \<longleftrightarrow> True"

text \<open>
  C1. With the firewall on, an accepted configuration powers no VM on outside its sandbox: whenever a
  worker's clone or start issues the start call of a VM, the calls on that same VM before it, replayed
  on any state that agrees with what the API reported of it, leave it with the security-group rule
  attached, its firewall on and every NIC filtered; and unless it already was on, the VM's firewall is
  not on at any point before that rule is there. The API keys its interfaces net0, net1 and so on, as
  it documents.\<close>

theorem accepted_runner_sandboxed:
  assumes "loadInto e c0 = Inr c" "s \<in> set (cfScalesets c)" "worker_request c s req"
    and "pmCfg p = cfProxmox c" "pxFirewallEnabled (cfProxmox c)" "nets_documented api"
    and "power_calls api p now req = pre @ PStart v # post"
  shows "(\<exists>sb. sandbox_before api p req v sb) \<and>
    (\<forall>sb. sandbox_before api p req v sb \<longrightarrow> sandboxed (cfProxmox c) (replay_calls v sb pre) \<and>
      (\<forall>l. prefix l pre \<longrightarrow> sbEnabled (replay_calls v sb l) \<longrightarrow>
         sbEnabled sb \<or> has_group (cfProxmox c) (sbRules (replay_calls v sb l))))"
proof -
  have "list_all nic_safe (request_nics req)"
    using assms(3) accepted_nics [OF assms(1,2)] by (cases req) auto
  then show ?thesis using powered_on_sandboxed [of p req api now pre v post] assms(4-7) by simp
qed

theorem accepted_runner_sandboxed_witness:
  "\<exists>sb. sandbox_before (ex_pve []) (ex_pmox ''ci'') (ReqStart ex_started) 10001 sb \<and>
     sandboxed ex_px (replay_calls 10001 sb [PRule 10001 (group_rule ex_px), POptions 10001 True True,
       PConfig 10001 (nicFirewallPatches (pvNets ex_pv) 0)])"
proof -
  have ld: "loadInto ex_cenv ex_siblings = Inr (loaded ex_siblings)" by (rule loads_loaded [OF ex_siblings_loads])
  have s: "cfScalesets (loaded ex_siblings) ! 0 \<in> set (cfScalesets (loaded ex_siblings))" using ex_siblings_sets(1) by simp
  have docs: "nets_documented (ex_pve [])"
    by (auto simp: nets_documented_def ex_pve_def ex_pv_def canonical_nets_def itoa_def)
  have "cfProxmox (loaded ex_siblings) = ex_px" "pmCfg (ex_pmox ''ci'') = ex_px" "pxFirewallEnabled ex_px"
    by (simp_all add: siblings_px ex_pmox_def ex_px_def)
  then show ?thesis
    using accepted_runner_sandboxed [OF ld s _ _ _ docs ex_start_calls] by (auto simp del: sandbox_before.simps)
qed


section \<open>The scopes of an accepted configuration\<close>

abbreviation set_scope :: "ScaleSetEntry \<Rightarrow> GhScope" where
  "set_scope s \<equiv> \<lparr>scOrg = gsOrg (seScope s), scRepo = gsRepo (seScope s)\<rparr>"

lemma accepted_single_URL:
  assumes "loadInto e c0 = Inr c" "1 < length (cfScalesets c)" "buildGitHubAuth parse pr fs (cfGitHub c) = Inr a"
  shows "epConfigURL (auth_endpoint a) = ''''"
proof -
  note r = loadInto_Inr(1) [OF assms(1)]
  have g: "resolveGitHubAuth (ApplyDefaults c0) = None"
    using r by (auto simp: Resolve_config_def checks_None simp del: checks.simps split: option.splits)
  have c: "cfGitHub c = cfGitHub (ApplyDefaults c0)" "length (cfScalesets c) = length (cfScalesets (ApplyDefaults c0))"
    by (rule Resolve_fields(2) [OF r], rule Resolve_fields(7) [OF r])
  from g have pat: "gcPAT (cfGitHub c) = Some pat \<Longrightarrow> gpConfigURL pat = ''''"
    and app: "gcApp (cfGitHub c) = Some ap \<Longrightarrow> gaConfigURL ap = ''''" for pat ap
    using assms(2) unfolding c
    by (auto simp: resolveGitHubAuth_def Let_def checks_None validateGitHubURLs_def simp del: checks.simps split: if_splits option.splits)
  show ?thesis using assms(3) pat app
    by (auto simp: buildGitHubAuth_def NewPATWithConfig_def NewAppFromFileWithConfig_def NewAppWithConfig_def Let_def
        split: if_splits option.splits)
qed

text \<open>
  C11. No two scale sets of an accepted configuration register under the same URL: whichever credential is
  configured, clients built for different scale sets whose organisations are plain names get different
  configuration URLs.\<close>

theorem accepted_URLs_distinct:
  assumes "loadInto e c0 = Inr c" "i < j" "j < length (cfScalesets c)" "buildGitHubAuth parse pr fs (cfGitHub c) = Inr a"
    and "CHR ''/'' \<notin> set (gsOrg (seScope (cfScalesets c ! i)))" "CHR ''/'' \<notin> set (gsOrg (seScope (cfScalesets c ! j)))"
    and "NewScaleSetClient ok a (set_scope (cfScalesets c ! i)) = Inr u" "NewScaleSetClient ok' a (set_scope (cfScalesets c ! j)) = Inr v"
  shows "u \<noteq> v"
proof
  assume uv: "u = v"
  have "1 < length (cfScalesets c)" using assms(2,3) by linarith
  note url = accepted_single_URL [OF assms(1) this assms(4)]
  have "scOrg (set_scope (cfScalesets c ! i)) = scOrg (set_scope (cfScalesets c ! j)) \<and>
      scRepo (set_scope (cfScalesets c ! i)) = scRepo (set_scope (cfScalesets c ! j))"
    by (rule client_URL_inj [OF url assms(7) assms(8) [folded uv]]) (use assms(5,6) in \<open>simp_all only: GhScope.simps not_False_eq_True\<close>)
  then have "scope_key (cfScalesets c ! i) = scope_key (cfScalesets c ! j)"
    by (simp only: scope_key_def GhScope.simps)
  then have "map scope_key (cfScalesets c) ! i = map scope_key (cfScalesets c) ! j"
    using assms(3) less_trans [OF assms(2,3)] by (simp only: nth_map)
  moreover have "distinct (map scope_key (cfScalesets c))"
    by (rule accepted_distinct(3) [OF Validate_None(2) [OF loadInto_Inr(2) [OF assms(1)]]])
  ultimately have "i = j"
    using nth_eq_iff_index_eq [of "map scope_key (cfScalesets c)" i j] assms(3) less_trans [OF assms(2,3)]
    by (simp only: length_map)
  then show False using assms(2) by simp
qed

theorem accepted_URLs_distinct_witness:
  "''https://github.com/acme'' \<noteq> ''https://github.com/umbra'' \<and>
   NewScaleSetClient True (PatAuth ''t'' \<lparr>epConfigURL = '''', epConfigBaseURL = '''', epRESTBaseURL = ''''\<rparr>)
     (set_scope (cfScalesets (loaded ex_siblings) ! 0)) = Inr ''https://github.com/acme''"
proof -
  let ?c = "loaded ex_siblings"
  let ?a = "PatAuth ''t'' \<lparr>epConfigURL = '''', epConfigBaseURL = '''', epRESTBaseURL = ''''\<rparr>"
  have ld: "loadInto ex_cenv ex_siblings = Inr ?c" by (rule loads_loaded [OF ex_siblings_loads])
  have g: "gcAuthMode (cfGitHub ?c) = ''pat''" "gcPAT (cfGitHub ?c) = Some \<lparr>gpToken = ''t'', gpConfigURL = '''', gpConfigBaseURL = ''''\<rparr>"
    by code_simp+
  have a: "buildGitHubAuth (\<lambda>_. None) pr fs (cfGitHub ?c) = Inr ?a" for pr fs
    by (simp add: buildGitHubAuth_def g NewPATWithConfig_def validateEndpointConfig_def)
  have s: "gsOrg (seScope (cfScalesets ?c ! 0)) = ''acme''" "gsRepo (seScope (cfScalesets ?c ! 0)) = ''''"
    "gsOrg (seScope (cfScalesets ?c ! Suc 0)) = ''umbra''" "gsRepo (seScope (cfScalesets ?c ! Suc 0)) = ''''" by code_simp+
  have u: "NewScaleSetClient True ?a (set_scope (cfScalesets ?c ! 0)) = Inr ''https://github.com/acme''"
    "NewScaleSetClient True ?a (set_scope (cfScalesets ?c ! Suc 0)) = Inr ''https://github.com/umbra''"
    by (simp_all add: NewScaleSetClient_def Scope_Validate_def Let_def s resolveScaleSetConfigURL_def Scope_URL_def PathSegment_def)
  have "''https://github.com/acme'' \<noteq> ''https://github.com/umbra''"
    using accepted_URLs_distinct [OF ld, of 0 "Suc 0", OF _ _ a _ _ u] by (simp add: s ex_siblings_sets(1))
  then show ?thesis using u(1) by blast
qed

end
